(* ===== verification/Go_Prelude.thy ===== *)
theory Go_Prelude
  imports Main "HOL-Library.Word" "HOL-Library.AList" "HOL-Library.Monad_Syntax"
    "HOL-Library.Sublist" "HOL-Library.Multiset"
begin

text \<open>
  What the sources use of the Go language and its standard library, shared by every
  component:

  \<^item> bytes, 64-bit unsigned integers and strings (a Go string is a byte sequence, here the
    8-bit \<open>char\<close>s of a HOL \<open>string\<close>);
  \<^item> \<open>error\<close> values, and run-time panics as \<^const>\<open>None\<close> of an option type, so that code which
    may panic is written with the option monad's do-notation;
  \<^item> a byte stream as a \<open>reader\<close>: the bytes still to come and the error that every read
    meets after the last one (\<open>io.EOF\<close> for a stream that was closed, anything else for one that
    was reset or timed out);
  \<^item> \<open>io.ReadFull\<close>, \<open>make([]byte, n)\<close> and \<open>strings.Contains\<close>;
  \<^item> Go maps as association lists with distinct keys. The order of the list is the order in
    which \<open>range\<close> visits the entries: Go leaves that order open, and a statement over every
    list with the same entries covers every order;
  \<^item> record parsers written as a sequence of steps, each of which reads one field and
    stops the parser at the first error, as the \<open>if x.f, err = read(r); err != nil\<close> chains of
    the wire package do;
  \<^item> a generic transition system (locale) with its invariant rule.
\<close>

named_theorems wire_simps \<open>evaluation of encoders and decoders on what they wrote\<close>
named_theorems gomap_simps \<open>lookup after update and delete on Go maps\<close>

section \<open>Basic types\<close>

type_synonym byte = "8 word"
type_synonym u8 = "8 word"
type_synonym u32 = "32 word"
type_synonym u64 = "64 word"
type_synonym bytes = "8 word list"

definition byte_of_char :: "char \<Rightarrow> byte" where
  "byte_of_char c = word_of_nat (of_char c)"

definition char_of_byte :: "byte \<Rightarrow> char" where
  "char_of_byte b = char_of (unat b)"

definition bytes_of_string :: "string \<Rightarrow> bytes" where
  "bytes_of_string s = map byte_of_char s"

definition string_of_bytes :: "bytes \<Rightarrow> string" where
  "string_of_bytes bs = map char_of_byte bs"

text \<open>The errors the sources tell apart: they compare with \<open>io.EOF\<close> and ask whether an
  error is a \<open>net.Error\<close> with \<open>Timeout()\<close>; everything else is an opaque message.\<close>

datatype goerror = EOF | ErrUnexpectedEOF | NetTimeout | Errorf string

section \<open>Readers\<close>

record reader =
  rd_data :: bytes
  rd_end :: goerror

definition ReadByte :: "reader \<Rightarrow> (goerror + byte) \<times> reader" where
  "ReadByte r = (case rd_data r of
      [] \<Rightarrow> (Inl (rd_end r), r)
    | b # bs \<Rightarrow> (Inr b, r\<lparr>rd_data := bs\<rparr>))"

text \<open>\<open>io.ReadFull\<close> into a buffer of \<open>n\<close> zero bytes: the buffer afterwards, the number of
  bytes read and the error.\<close>

definition ReadFull :: "reader \<Rightarrow> nat \<Rightarrow> (bytes \<times> nat \<times> goerror option) \<times> reader" where
  "ReadFull r n =
    (let got = take n (rd_data r); k = length got;
         err = (if k = n then None
                else if k = 0 then Some (rd_end r)
                else if rd_end r = EOF then Some ErrUnexpectedEOF
                else Some (rd_end r))
     in ((got @ replicate (n - k) 0, k, err), r\<lparr>rd_data := drop n (rd_data r)\<rparr>))"

text \<open>The largest allocation of the Go runtime on its 64-bit platforms
  (\<open>maxAlloc = 1 << heapAddrBits\<close>): a \<open>make([]byte, n)\<close> beyond it panics.\<close>

definition maxAlloc :: nat where
  "maxAlloc = 2 ^ 48"

definition make_ok :: "u64 \<Rightarrow> bool" where
  "make_ok n \<longleftrightarrow> unat n \<le> maxAlloc"

text \<open>\<open>data := make([]byte, n)\<close> followed by \<open>io.ReadFull(reader, data)\<close>; \<^const>\<open>None\<close> is the
  panic of \<open>make\<close>.\<close>

definition make_ReadFull :: "u64 \<Rightarrow> reader \<Rightarrow> ((bytes \<times> nat \<times> goerror option) \<times> reader) option" where
  "make_ReadFull n r = (if make_ok n then Some (ReadFull r (unat n)) else None)"

section \<open>Parsers as sequences of steps\<close>

text \<open>A step of a parser updates the receiver \<open>m\<close>, moves the reader on and may fail with an
  error (the receiver keeps what it has) or panic.\<close>

type_synonym 'm step = "'m \<Rightarrow> reader \<Rightarrow> ('m \<times> goerror option \<times> reader) option"

fun run_steps :: "'m step list \<Rightarrow> 'm step" where
  "run_steps [] m r = Some (m, None, r)"
| "run_steps (s # ss) m r = (case s m r of
      None \<Rightarrow> None
    | Some (m', Some e, r') \<Rightarrow> Some (m', Some e, r')
    | Some (m', None, r') \<Rightarrow> run_steps ss m' r')"

definition when_step :: "('m \<Rightarrow> bool) \<Rightarrow> 'm step \<Rightarrow> 'm step" where
  "when_step c s m r = (if c m then s m r else Some (m, None, r))"

definition byte_step :: "(byte \<Rightarrow> 'm \<Rightarrow> 'm) \<Rightarrow> 'm step" where
  "byte_step upd m r = (case ReadByte r of
      (Inl e, r') \<Rightarrow> Some (m, Some e, r')
    | (Inr b, r') \<Rightarrow> Some (upd b m, None, r'))"

section \<open>Go maps\<close>

type_synonym ('k, 'v) gomap = "('k \<times> 'v) list"

definition gomap_ok :: "('k, 'v) gomap \<Rightarrow> bool" where
  "gomap_ok m \<longleftrightarrow> distinct (map fst m)"

abbreviation gomap_get :: "('k, 'v) gomap \<Rightarrow> 'k \<Rightarrow> 'v option" where
  "gomap_get m k \<equiv> map_of m k"

definition gomap_set :: "'k \<Rightarrow> 'v \<Rightarrow> ('k, 'v) gomap \<Rightarrow> ('k, 'v) gomap" where
  "gomap_set k v m = AList.update k v m"

definition gomap_del :: "'k \<Rightarrow> ('k, 'v) gomap \<Rightarrow> ('k, 'v) gomap" where
  "gomap_del k m = AList.delete k m"

section \<open>Strings\<close>

fun strings_Contains :: "string \<Rightarrow> string \<Rightarrow> bool" where
  "strings_Contains [] sub = (sub = [])"
| "strings_Contains (c # s) sub = (prefix sub (c # s) \<or> strings_Contains s sub)"

section \<open>Lemmas\<close>

subsection \<open>Strings and bytes\<close>

lemma char_of_byte_of_char [simp]: "char_of_byte (byte_of_char c) = c"
proof -
  have "(of_char c :: nat) < 256" by simp
  then have "unat (word_of_nat (of_char c) :: byte) = of_char c"
    by (simp add: unat_of_nat take_bit_eq_mod)
  then show ?thesis by (simp add: char_of_byte_def byte_of_char_def)
qed

lemma byte_of_char_of_byte [simp]: "byte_of_char (char_of_byte b) = b"
proof -
  have "unat b < 256" using unsigned_less [of b] by simp
  then have "(of_char (char_of (unat b) :: char) :: nat) = unat b" by simp
  then show ?thesis by (simp add: char_of_byte_def byte_of_char_def)
qed

lemma string_bytes_inverse [simp]: "string_of_bytes (bytes_of_string s) = s"
  by (simp add: string_of_bytes_def bytes_of_string_def comp_def)

lemma bytes_string_inverse [simp]: "bytes_of_string (string_of_bytes bs) = bs"
  by (simp add: string_of_bytes_def bytes_of_string_def comp_def)

lemma length_bytes_of_string [simp]: "length (bytes_of_string s) = length s"
  by (simp add: bytes_of_string_def)

lemma length_string_of_bytes [simp]: "length (string_of_bytes s) = length s"
  by (simp add: string_of_bytes_def)

lemma strings_Contains_iff: "strings_Contains s sub \<longleftrightarrow> sublist sub s"
  by (induction s sub rule: strings_Contains.induct) (auto simp: sublist_Cons_right)

subsection \<open>Readers\<close>

lemma ReadByte_Cons [wire_simps]:
  "ReadByte (r\<lparr>rd_data := b # bs\<rparr>) = (Inr b, r\<lparr>rd_data := bs\<rparr>)"
  by (simp add: ReadByte_def)

lemma ReadByte_rest: "ReadByte r = (v, r') \<Longrightarrow> rd_end r' = rd_end r \<and> suffix (rd_data r') (rd_data r)"
  by (auto simp: ReadByte_def suffix_def split: list.splits)

lemma ReadFull_exact:
  "length bs = n \<Longrightarrow> ReadFull (r\<lparr>rd_data := bs @ rest\<rparr>) n = ((bs, n, None), r\<lparr>rd_data := rest\<rparr>)"
  by (simp add: ReadFull_def)

text \<open>A payload cut short: the error is returned, but the buffer has its full length and
  the missing part is zero.\<close>

lemma ReadFull_short:
  assumes "length (rd_data r) < n" and "rd_data r \<noteq> []" and "rd_end r = EOF"
  shows "ReadFull r n =
    ((rd_data r @ replicate (n - length (rd_data r)) 0, length (rd_data r), Some ErrUnexpectedEOF),
     r\<lparr>rd_data := []\<rparr>)"
  using assms by (simp add: ReadFull_def Let_def)

lemma ReadFull_length: "ReadFull r n = ((buf, k, e), r') \<Longrightarrow> length buf = n"
  by (auto simp: ReadFull_def Let_def)

lemma ReadFull_rest:
  "ReadFull r n = (v, r') \<Longrightarrow> rd_end r' = rd_end r \<and> suffix (rd_data r') (rd_data r)"
  by (auto simp: ReadFull_def Let_def suffix_drop)

lemma make_ReadFull_exact:
  assumes "make_ok n" and "length bs = unat n"
  shows "make_ReadFull n (r\<lparr>rd_data := bs @ rest\<rparr>) = Some ((bs, unat n, None), r\<lparr>rd_data := rest\<rparr>)"
  using assms by (simp add: make_ReadFull_def ReadFull_exact)

lemma make_ReadFull_rest:
  "make_ReadFull n r = Some (v, r') \<Longrightarrow> rd_end r' = rd_end r \<and> suffix (rd_data r') (rd_data r)"
  by (auto simp: make_ReadFull_def split: if_splits dest: ReadFull_rest)

lemma make_ReadFull_length:
  "make_ReadFull n r = Some ((buf, k, e), r') \<Longrightarrow> length buf = unat n \<and> unat n \<le> maxAlloc"
  by (auto simp: make_ReadFull_def make_ok_def split: if_splits dest: ReadFull_length)

lemma unat_of_length:
  "n < 2 ^ 64 \<Longrightarrow> unat (word_of_nat n :: u64) = n"
  by (simp add: unat_of_nat take_bit_eq_mod)

subsection \<open>Steps\<close>

lemma byte_step_Cons [wire_simps]:
  "byte_step upd m (r\<lparr>rd_data := b # bs\<rparr>) = Some (upd b m, None, r\<lparr>rd_data := bs\<rparr>)"
  by (simp add: byte_step_def wire_simps)

lemma when_step_simps [simp]:
  "c m \<Longrightarrow> when_step c s m r = s m r"
  "\<not> c m \<Longrightarrow> when_step c s m r = Some (m, None, r)"
  by (simp_all add: when_step_def)

text \<open>An invariant of the receiver that every step keeps is kept by the whole parser.\<close>

definition step_keeps :: "('m \<Rightarrow> bool) \<Rightarrow> 'm step \<Rightarrow> bool" where
  "step_keeps P s \<longleftrightarrow> (\<forall>m r m' e r'. P m \<longrightarrow> s m r = Some (m', e, r') \<longrightarrow> P m')"

lemma step_keepsI:
  "(\<And>m r m' e r'. P m \<Longrightarrow> s m r = Some (m', e, r') \<Longrightarrow> P m') \<Longrightarrow> step_keeps P s"
  by (auto simp: step_keeps_def)

lemma step_keepsD: "step_keeps P s \<Longrightarrow> P m \<Longrightarrow> s m r = Some (m', e, r') \<Longrightarrow> P m'"
  unfolding step_keeps_def by blast

lemma run_steps_keeps:
  assumes "\<And>s. s \<in> set ss \<Longrightarrow> step_keeps P s"
  shows "step_keeps P (run_steps ss)"
proof (rule step_keepsI)
  fix m r m' e r'
  assume "P m" "run_steps ss m r = Some (m', e, r')"
  then show "P m'" using assms
  proof (induction ss m r rule: run_steps.induct)
    case (2 s ss m r)
    then obtain m1 e1 r1 where s: "s m r = Some (m1, e1, r1)"
      by (auto split: option.splits prod.splits)
    moreover have "step_keeps P s" using 2(4) by simp
    ultimately have "P m1" using 2(2) by (rule step_keepsD [rotated 2])
    then show ?case using 2 s by (cases e1) auto
  qed simp
qed

lemma when_step_keeps: "step_keeps P s \<Longrightarrow> step_keeps P (when_step c s)"
  by (auto simp: step_keeps_def when_step_def split: if_splits)

lemma byte_step_keeps: "(\<And>b m. P m \<Longrightarrow> P (upd b m)) \<Longrightarrow> step_keeps P (byte_step upd)"
  by (auto simp: step_keeps_def byte_step_def split: prod.splits sum.splits)

subsection \<open>Go maps\<close>

lemma gomap_get_set [gomap_simps]: "gomap_get (gomap_set k v m) k' = (if k' = k then Some v else gomap_get m k')"
  by (simp add: gomap_set_def update_conv')

lemma gomap_get_del [gomap_simps]: "gomap_get (gomap_del k m) k' = (if k' = k then None else gomap_get m k')"
  by (simp add: gomap_del_def delete_conv')

lemma gomap_set_ok [simp]: "gomap_ok m \<Longrightarrow> gomap_ok (gomap_set k v m)"
  by (simp add: gomap_ok_def gomap_set_def distinct_update)

lemma gomap_del_ok [simp]: "gomap_ok m \<Longrightarrow> gomap_ok (gomap_del k m)"
  by (simp add: gomap_ok_def gomap_del_def distinct_delete)

lemma gomap_ok_Nil [simp]: "gomap_ok []"
  by (simp add: gomap_ok_def)

lemma gomap_set_fresh: "k \<notin> fst ` set m \<Longrightarrow> gomap_set k v m = m @ [(k, v)]"
  by (induction m) (auto simp: gomap_set_def)

lemma set_gomap_set:
  "set (gomap_set k v m) \<subseteq> insert (k, v) (set m)"
  by (induction m) (auto simp: gomap_set_def)

lemma set_gomap_set_ok:
  "gomap_ok m \<Longrightarrow> set (gomap_set k v m) = insert (k, v) {e \<in> set m. fst e \<noteq> k}"
  by (induction m) (auto simp: gomap_set_def gomap_ok_def image_iff)

lemma set_gomap_del: "set (gomap_del k m) = {e \<in> set m. fst e \<noteq> k}"
  by (auto simp: gomap_del_def AList.delete_eq)

text \<open>Lookup does not depend on the order in which \<open>range\<close> would visit the entries.\<close>

lemma gomap_get_perm:
  assumes "gomap_ok m" and "mset m = mset m'"
  shows "gomap_get m = gomap_get m'"
proof -
  have "distinct (map fst m')"
    using assms by (metis gomap_ok_def distinct_count_atmost_1 mset_map set_mset_mset)
  moreover have "set m = set m'" using assms(2) by (rule mset_eq_setD)
  ultimately show ?thesis using assms(1) by (simp add: gomap_ok_def map_of_inject_set)
qed

section \<open>Transition systems\<close>

text \<open>Components whose steps interleave are relations between states. The invariant rule
  is proved once here and used through the interpretations.\<close>

inductive reach :: "('s \<Rightarrow> bool) \<Rightarrow> ('s \<Rightarrow> 's \<Rightarrow> bool) \<Rightarrow> 's \<Rightarrow> bool"
  for init :: "'s \<Rightarrow> bool" and step :: "'s \<Rightarrow> 's \<Rightarrow> bool" where
  reach_init: "init s \<Longrightarrow> reach init step s"
| reach_step: "reach init step s \<Longrightarrow> step s t \<Longrightarrow> reach init step t"

locale invariant_system =
  fixes init :: "'s \<Rightarrow> bool" and step :: "'s \<Rightarrow> 's \<Rightarrow> bool" and inv :: "'s \<Rightarrow> bool"
  assumes inv_init: "init s \<Longrightarrow> inv s"
    and inv_step: "inv s \<Longrightarrow> step s t \<Longrightarrow> inv t"
begin

lemma inv_reach: "reach init step s \<Longrightarrow> inv s"
  by (induction rule: reach.induct) (auto intro: inv_init inv_step)

lemma inv_steps: "step\<^sup>*\<^sup>* s t \<Longrightarrow> inv s \<Longrightarrow> inv t"
  by (induction rule: rtranclp_induct) (auto intro: inv_step)

end

lemma reach_rtranclp: "step\<^sup>*\<^sup>* s t \<Longrightarrow> reach init step s \<Longrightarrow> reach init step t"
  by (induction rule: rtranclp_induct) (auto intro: reach_step)

end
