(* ===== verification/Quicvarint.thy ===== *)
theory Quicvarint
  imports Go_Prelude
begin

text \<open>
  The package \<open>github.com/quic-go/quic-go/quicvarint\<close> is not part of the repository. It is a
  parameter of the model: a record of the three operations the sources call, and a locale
  with what the sources rely on, the documented behaviour of the QUIC variable-length
  integers of RFC 9000, section 16:

  \<^item> \<open>Append\<close> appends one encoding per value below \<open>2^62\<close> and panics on larger values;
  \<^item> \<open>Read\<close> gives back what \<open>Append\<close> wrote and leaves the rest of the stream; it consumes at least
    one byte when it succeeds, and returns the stream's own error when nothing is left;
  \<^item> \<open>Len\<close> is the length of what \<open>Append\<close> appends, between 1 and 8.

  The encoding of RFC 9000 itself is an instance (\<open>rfc9000\<close>), so the assumptions can hold
  together and the witnesses of the development evaluate on it.
\<close>

section \<open>The operations and their contract\<close>

record quicvarint =
  qv_Read :: "reader \<Rightarrow> (goerror + u64) \<times> reader"
  qv_Append :: "bytes \<Rightarrow> u64 \<Rightarrow> bytes option"
  qv_Len :: "u64 \<Rightarrow> nat"

definition fits62 :: "u64 \<Rightarrow> bool" where
  "fits62 x \<longleftrightarrow> unat x < 2 ^ 62"

definition venc :: "quicvarint \<Rightarrow> u64 \<Rightarrow> bytes" where
  "venc qv x = (case qv_Append qv [] x of None \<Rightarrow> [] | Some e \<Rightarrow> e)"

text \<open>\<open>if m.f, err = quicvarint.Read(r); err != nil { return err }\<close>\<close>

definition varint_step :: "quicvarint \<Rightarrow> (u64 \<Rightarrow> 'm \<Rightarrow> 'm) \<Rightarrow> 'm step" where
  "varint_step qv upd m r = (case qv_Read qv r of
      (Inl e, r') \<Rightarrow> Some (m, Some e, r')
    | (Inr x, r') \<Rightarrow> Some (upd x m, None, r'))"

locale varint_codec =
  fixes qv :: quicvarint
  assumes Append_fits: "fits62 x \<Longrightarrow> qv_Append qv b x = Some (b @ venc qv x)"
    and Append_panics: "\<not> fits62 x \<Longrightarrow> qv_Append qv b x = None"
    and Read_venc: "fits62 x \<Longrightarrow>
      qv_Read qv (r\<lparr>rd_data := venc qv x @ bs\<rparr>) = (Inr x, r\<lparr>rd_data := bs\<rparr>)"
    and Read_fits: "qv_Read qv r = (Inr x, r') \<Longrightarrow> fits62 x"
    and Read_progress: "qv_Read qv r = (Inr x, r') \<Longrightarrow> length (rd_data r') < length (rd_data r)"
    and Read_rest: "qv_Read qv r = (v, r') \<Longrightarrow>
      rd_end r' = rd_end r \<and> suffix (rd_data r') (rd_data r)"
    and Read_at_end: "rd_data r = [] \<Longrightarrow> qv_Read qv r = (Inl (rd_end r), r)"
    and Len_venc: "fits62 x \<Longrightarrow> qv_Len qv x = length (venc qv x)"
    and Len_max: "fits62 x \<Longrightarrow> qv_Len qv x \<le> 8"
begin

lemma varint_step_venc [wire_simps]:
  "fits62 x \<Longrightarrow> varint_step qv upd m (r\<lparr>rd_data := venc qv x @ bs\<rparr>)
     = Some (upd x m, None, r\<lparr>rd_data := bs\<rparr>)"
  by (simp add: varint_step_def Read_venc)

lemma Append_Some: "qv_Append qv b x = Some d \<longleftrightarrow> fits62 x \<and> d = b @ venc qv x"
  by (cases "fits62 x") (auto simp: Append_fits Append_panics)

lemma venc_ne: "fits62 x \<Longrightarrow> venc qv x \<noteq> []"
  using Read_venc [where x = x and r = "\<lparr>rd_data = [], rd_end = EOF\<rparr>" and bs = "[]"]
    Read_at_end [where r = "\<lparr>rd_data = [], rd_end = EOF\<rparr>"] by auto

lemma Len_pos: "fits62 x \<Longrightarrow> 0 < qv_Len qv x"
  by (simp add: Len_venc venc_ne)

text \<open>Two different values never share a prefix: what follows an encoding cannot change
  the value that is read.\<close>

lemma venc_prefix_free:
  assumes "fits62 x" and "fits62 y" and "venc qv x @ bs = venc qv y @ cs"
  shows "x = y \<and> bs = cs"
  using Read_venc [OF assms(1), where r = "\<lparr>rd_data = [], rd_end = EOF\<rparr>" and bs = bs]
    Read_venc [OF assms(2), where r = "\<lparr>rd_data = [], rd_end = EOF\<rparr>" and bs = cs] assms(3)
  by simp

lemma varint_step_keeps:
  "(\<And>x m. P m \<Longrightarrow> fits62 x \<Longrightarrow> P (upd x m)) \<Longrightarrow> step_keeps P (varint_step qv upd)"
  by (auto simp: step_keeps_def varint_step_def split: prod.splits sum.splits dest: Read_fits)

end

section \<open>The encoding of RFC 9000\<close>

definition rfc9000_class :: "nat \<Rightarrow> nat" where
  "rfc9000_class n = (if n < 2 ^ 6 then 0 else if n < 2 ^ 14 then 1 else if n < 2 ^ 30 then 2 else 3)"

fun be_bytes :: "nat \<Rightarrow> nat \<Rightarrow> bytes" where
  "be_bytes 0 n = []"
| "be_bytes (Suc k) n = word_of_nat (n div 256 ^ k mod 256) # be_bytes k n"

definition rfc9000_enc :: "nat \<Rightarrow> bytes" where
  "rfc9000_enc n =
    (let q = rfc9000_class n; k = 2 ^ q - 1
     in word_of_nat (64 * q + n div 256 ^ k) # be_bytes k n)"

definition rfc9000_len :: "nat \<Rightarrow> nat" where
  "rfc9000_len n = 2 ^ rfc9000_class n"

fun be_value :: "nat \<Rightarrow> bytes \<Rightarrow> nat" where
  "be_value acc [] = acc"
| "be_value acc (b # bs) = be_value (acc * 256 + unat b) bs"

definition rfc9000_Read :: "reader \<Rightarrow> (goerror + u64) \<times> reader" where
  "rfc9000_Read r = (case rd_data r of
      [] \<Rightarrow> (Inl (rd_end r), r)
    | b # bs \<Rightarrow>
       (let k = 2 ^ (unat b div 64) - 1 in
        if length bs < k then (Inl (rd_end r), r\<lparr>rd_data := []\<rparr>)
        else (Inr (word_of_nat (be_value (unat b mod 64) (take k bs))), r\<lparr>rd_data := drop k bs\<rparr>)))"

definition rfc9000 :: quicvarint where
  "rfc9000 = \<lparr>qv_Read = rfc9000_Read,
     qv_Append = (\<lambda>b x. if unat x < 2 ^ 62 then Some (b @ rfc9000_enc (unat x)) else None),
     qv_Len = (\<lambda>x. rfc9000_len (unat x))\<rparr>"

lemma unat_byte_of_nat: "n < 256 \<Longrightarrow> unat (word_of_nat n :: byte) = n"
  by (simp add: unat_of_nat take_bit_eq_mod)

lemma be_value_bound: "be_value acc bs < (acc + 1) * 256 ^ length bs"
proof (induction acc bs rule: be_value.induct)
  case (2 acc b bs)
  have "unat b < 256" using unsigned_less [of b] by simp
  then have "(acc * 256 + unat b + 1) * 256 ^ length bs \<le> ((acc + 1) * 256) * 256 ^ length bs"
    by (intro mult_le_mono1) simp
  also have "\<dots> = (acc + 1) * 256 ^ length (b # bs)" by (simp add: algebra_simps)
  finally show ?case using 2 by simp
qed simp

lemma rfc9000_Read_Cons:
  assumes "unat b div 64 = q" and "length cs = 2 ^ q - 1"
  shows "rfc9000_Read (r\<lparr>rd_data := b # cs @ bs\<rparr>)
    = (Inr (word_of_nat (be_value (unat b mod 64) cs)), r\<lparr>rd_data := bs\<rparr>)"
  using assms by (simp add: rfc9000_Read_def Let_def)

lemma length_be_bytes [simp]: "length (be_bytes k n) = k"
  by (induction k) auto

lemma be_value_be_bytes: "be_value acc (be_bytes k n) = acc * 256 ^ k + n mod 256 ^ k"
proof (induction k arbitrary: acc)
  case (Suc k)
  have "n mod 256 ^ Suc k = 256 ^ k * (n div 256 ^ k mod 256) + n mod 256 ^ k"
    using mod_mult2_eq [of n "256 ^ k" 256] by (simp add: mult.commute)
  with Suc show ?case by (simp add: unat_byte_of_nat algebra_simps)
qed simp

lemma rfc9000_class_bound: "rfc9000_class n < 4"
  by (simp add: rfc9000_class_def)

lemma rfc9000_class_head:
  assumes "n < 2 ^ 62"
  shows "n div 256 ^ (2 ^ rfc9000_class n - 1) < 64"
  using assms by (auto simp: rfc9000_class_def)

lemma rfc9000_Read_enc:
  assumes "n < 2 ^ 62"
  shows "rfc9000_Read (r\<lparr>rd_data := rfc9000_enc n @ bs\<rparr>) = (Inr (word_of_nat n), r\<lparr>rd_data := bs\<rparr>)"
proof -
  define q where "q = rfc9000_class n"
  define k :: nat where "k = 2 ^ q - 1"
  define x where "x = n div 256 ^ k"
  have q: "q < 4" by (simp add: q_def rfc9000_class_bound)
  have x: "x < 64" unfolding x_def k_def q_def using assms by (rule rfc9000_class_head)
  have b: "unat (word_of_nat (64 * q + x) :: byte) = 64 * q + x"
    using q x by (intro unat_byte_of_nat) simp
  have v: "x * 256 ^ k + n mod 256 ^ k = n"
    unfolding x_def by (rule div_mult_mod_eq)
  have "rfc9000_enc n = word_of_nat (64 * q + x) # be_bytes k n"
    by (simp only: rfc9000_enc_def Let_def q_def k_def x_def)
  moreover have "rfc9000_Read (r\<lparr>rd_data := word_of_nat (64 * q + x) # be_bytes k n @ bs\<rparr>)
      = (Inr (word_of_nat (be_value ((64 * q + x) mod 64) (be_bytes k n))), r\<lparr>rd_data := bs\<rparr>)"
    using rfc9000_Read_Cons [of "word_of_nat (64 * q + x)" q "be_bytes k n" bs r] x
    by (simp add: b k_def del: of_nat_add of_nat_mult)
  ultimately show ?thesis using x v by (simp add: be_value_be_bytes)
qed

lemma rfc9000_Read_ok:
  assumes "rfc9000_Read r = (Inr x, r')"
  shows "fits62 x" and "length (rd_data r') < length (rd_data r)"
proof -
  obtain b bs where d: "rd_data r = b # bs"
    using assms by (auto simp: rfc9000_Read_def split: list.splits)
  define k :: nat where "k = 2 ^ (unat b div 64) - 1"
  have "unat b < 256" using unsigned_less [of b] by simp
  then have "unat b div 64 \<in> {0, 1, 2, 3}" by auto
  then have k: "k \<le> 7" unfolding k_def by auto
  have x: "x = word_of_nat (be_value (unat b mod 64) (take k bs))" and l: "r' = r\<lparr>rd_data := drop k bs\<rparr>"
    using assms d by (auto simp: rfc9000_Read_def Let_def k_def split: if_splits)
  have "be_value (unat b mod 64) (take k bs) < (unat b mod 64 + 1) * 256 ^ length (take k bs)"
    by (rule be_value_bound)
  also have "\<dots> \<le> 64 * 256 ^ 7"
  proof (rule mult_le_mono)
    show "unat b mod 64 + 1 \<le> 64" by (simp add: Suc_le_eq)
    show "256 ^ length (take k bs) \<le> (256 :: nat) ^ 7" using k by (intro power_increasing) auto
  qed
  also have "\<dots> = 2 ^ 62" by simp
  finally have v: "be_value (unat b mod 64) (take k bs) < 2 ^ 62" .
  then have "unat x = be_value (unat b mod 64) (take k bs)"
    unfolding x by (intro unat_of_length) simp
  with v show "fits62 x" by (simp add: fits62_def)
  show "length (rd_data r') < length (rd_data r)" using l d by simp
qed

lemma rfc9000_enc_length: "length (rfc9000_enc n) = rfc9000_len n"
  by (simp add: rfc9000_enc_def rfc9000_len_def Let_def)

lemma venc_rfc9000: "fits62 x \<Longrightarrow> venc rfc9000 x = rfc9000_enc (unat x)"
  by (simp add: venc_def rfc9000_def fits62_def)

interpretation rfc: varint_codec rfc9000
proof unfold_locales
  fix x :: u64 and b :: bytes
  show "fits62 x \<Longrightarrow> qv_Append rfc9000 b x = Some (b @ venc rfc9000 x)"
    by (simp add: venc_rfc9000) (simp add: rfc9000_def fits62_def)
  show "\<not> fits62 x \<Longrightarrow> qv_Append rfc9000 b x = None"
    by (simp add: rfc9000_def fits62_def)
next
  fix x :: u64 and r :: reader and bs
  assume "fits62 x"
  then show "qv_Read rfc9000 (r\<lparr>rd_data := venc rfc9000 x @ bs\<rparr>) = (Inr x, r\<lparr>rd_data := bs\<rparr>)"
    by (simp add: venc_rfc9000) (simp add: rfc9000_def fits62_def rfc9000_Read_enc)
next
  fix r r' :: reader and x
  assume "qv_Read rfc9000 r = (Inr x, r')"
  then show "fits62 x" and "length (rd_data r') < length (rd_data r)"
    by (auto simp: rfc9000_def dest: rfc9000_Read_ok)
next
  fix r r' :: reader and v
  assume "qv_Read rfc9000 r = (v, r')"
  then show "rd_end r' = rd_end r \<and> suffix (rd_data r') (rd_data r)"
    by (auto simp: rfc9000_def rfc9000_Read_def Let_def suffix_drop intro: suffix_ConsI
        split: list.splits if_splits)
next
  fix r :: reader
  show "rd_data r = [] \<Longrightarrow> qv_Read rfc9000 r = (Inl (rd_end r), r)"
    by (simp add: rfc9000_def rfc9000_Read_def)
next
  fix x :: u64
  assume "fits62 x"
  then show "qv_Len rfc9000 x = length (venc rfc9000 x)"
    by (simp add: venc_rfc9000) (simp add: rfc9000_def fits62_def rfc9000_enc_length)
  show "qv_Len rfc9000 x \<le> 8" by (simp add: rfc9000_def rfc9000_len_def rfc9000_class_def)
qed

lemma rfc9000_codec [simp]: "varint_codec rfc9000"
  by (rule rfc.varint_codec_axioms)

text \<open>Evaluation on concrete input for the witnesses.\<close>

lemmas rfc9000_eval = rfc9000_def rfc9000_Read_def rfc9000_enc_def rfc9000_len_def rfc9000_class_def
  venc_def fits62_def Let_def

end
