(* ===== verification/Wire_Params.thy ===== *)
theory Wire_Params
  imports Quicvarint
begin

text \<open>
  Setup and announce parameters: \<open>src/moqt/wire/parameter.go\<close>, \<open>intparameter.go\<close> and
  \<open>stringparameter.go\<close>. The interface \<open>Parameter\<close> is a datatype with one constructor per
  implementation, the type \<open>Parameters\<close> a Go map from the parameter type to the parameter.

  Shown here: an encoded parameter map is decoded to the same map, whatever the order in
  which the encoder visited it; and what the decoder returns is well formed, on errors too.
\<close>

section \<open>Constants\<close>

definition ROLE_PARAM :: u64 where "ROLE_PARAM = 0"
definition ROLE_PATH :: u64 where "ROLE_PATH = 1"

definition ROLE_PUBLISHER :: u64 where "ROLE_PUBLISHER = 1"
definition ROLE_SUBSCRIBER :: u64 where "ROLE_SUBSCRIBER = 2"
definition ROLE_RELAY :: u64 where "ROLE_RELAY = 3"

definition DRAFT_04 :: u64 where "DRAFT_04 = 0xff000004"

definition MOQERR_INTERNAL_ERROR :: u64 where "MOQERR_INTERNAL_ERROR = 1"
definition MOQERR_PROTOCOL_VIOLATION :: u64 where "MOQERR_PROTOCOL_VIOLATION = 3"

lemmas role_defs = ROLE_PARAM_def ROLE_PATH_def ROLE_PUBLISHER_def ROLE_SUBSCRIBER_def
  ROLE_RELAY_def

section \<open>Variable-length strings\<close>

definition ParseVarIntString :: "quicvarint \<Rightarrow> reader \<Rightarrow> ((goerror + string) \<times> reader) option" where
  "ParseVarIntString qv r = (case qv_Read qv r of
      (Inl e, r') \<Rightarrow> Some (Inl e, r')
    | (Inr len, r') \<Rightarrow> (case make_ReadFull len r' of
          None \<Rightarrow> None
        | Some ((data, n, Some e), r'') \<Rightarrow> Some (Inl e, r'')
        | Some ((data, n, None), r'') \<Rightarrow> Some (Inr (string_of_bytes (take n data)), r'')))"

definition GetBytesVarIntString :: "quicvarint \<Rightarrow> string \<Rightarrow> bytes option" where
  "GetBytesVarIntString qv str = do {
     data \<leftarrow> qv_Append qv [] (word_of_nat (length str));
     Some (data @ bytes_of_string str) }"

text \<open>\<open>if m.f, err = ParseVarIntString(r); err != nil { return err }\<close>\<close>

definition string_step :: "quicvarint \<Rightarrow> (string \<Rightarrow> 'm \<Rightarrow> 'm) \<Rightarrow> 'm step" where
  "string_step qv upd m r = (case ParseVarIntString qv r of
      None \<Rightarrow> None
    | Some (Inl e, r') \<Rightarrow> Some (m, Some e, r')
    | Some (Inr s, r') \<Rightarrow> Some (upd s m, None, r'))"

section \<open>Parameters\<close>

record IntParameter =
  Ptype :: u64
  Pvalue :: u64

record StringParameter =
  ptype :: u64
  pvalue :: string

datatype Parameter = IntP IntParameter | StringP StringParameter

type_synonym Parameters = "(u64, Parameter) gomap"

definition NewIntParameter :: "u64 \<Rightarrow> u64 \<Rightarrow> Parameter" where
  "NewIntParameter t v = IntP \<lparr>Ptype = t, Pvalue = v\<rparr>"

definition IntParameter_Type :: "IntParameter \<Rightarrow> u64" where
  "IntParameter_Type p = Ptype p"

definition StringParameter_Type :: "StringParameter \<Rightarrow> u64" where
  "StringParameter_Type p = ptype p"

text \<open>\<open>Value()\<close> returns an \<open>interface{}\<close>, here with the types of the two kinds of parameters.\<close>

datatype param_value = VUint64 u64 | VString string

definition IntParameter_Value :: "IntParameter \<Rightarrow> param_value" where
  "IntParameter_Value p = VUint64 (Pvalue p)"

definition StringParameter_Value :: "StringParameter \<Rightarrow> param_value" where
  "StringParameter_Value p = VString (pvalue p)"

lemmas parameter_getters [simp] = IntParameter_Type_def StringParameter_Type_def IntParameter_Value_def StringParameter_Value_def

fun Parameter_Type :: "Parameter \<Rightarrow> u64" where
  "Parameter_Type (IntP p) = IntParameter_Type p"
| "Parameter_Type (StringP p) = StringParameter_Type p"

fun Parameter_Value :: "Parameter \<Rightarrow> param_value" where
  "Parameter_Value (IntP p) = IntParameter_Value p"
| "Parameter_Value (StringP p) = StringParameter_Value p"

text \<open>\<open>Value().(uint64)\<close>: the type assertion panics on a string parameter.\<close>

definition Parameter_Value_uint64 :: "Parameter \<Rightarrow> u64 option" where
  "Parameter_Value_uint64 param = (case Parameter_Value param of VUint64 v \<Rightarrow> Some v | VString _ \<Rightarrow> None)"

lemma Parameter_Value_uint64_simps [simp]:
  "Parameter_Value_uint64 (IntP p) = Some (Pvalue p)" "Parameter_Value_uint64 (StringP q) = None"
  by (simp_all add: Parameter_Value_uint64_def)

definition IntParameter_Parse :: "quicvarint \<Rightarrow> IntParameter step" where
  "IntParameter_Parse qv = run_steps
     [varint_step qv (\<lambda>_ p. p),
      varint_step qv (\<lambda>v p. p\<lparr>Pvalue := v\<rparr>)]"

definition IntParameter_GetBytes :: "quicvarint \<Rightarrow> IntParameter \<Rightarrow> bytes option" where
  "IntParameter_GetBytes qv p = do {
     data \<leftarrow> qv_Append qv [] (Ptype p);
     data \<leftarrow> qv_Append qv data (word_of_nat (qv_Len qv (Pvalue p)));
     qv_Append qv data (Pvalue p) }"

definition StringParameter_Parse :: "quicvarint \<Rightarrow> StringParameter step" where
  "StringParameter_Parse qv = string_step qv (\<lambda>s p. p\<lparr>pvalue := s\<rparr>)"

definition StringParameter_GetBytes :: "quicvarint \<Rightarrow> StringParameter \<Rightarrow> bytes option" where
  "StringParameter_GetBytes qv p = do {
     data \<leftarrow> qv_Append qv [] (ptype p);
     data \<leftarrow> qv_Append qv data (word_of_nat (length (pvalue p)));
     Some (data @ bytes_of_string (pvalue p)) }"

fun Parameter_GetBytes :: "quicvarint \<Rightarrow> Parameter \<Rightarrow> bytes option" where
  "Parameter_GetBytes qv (IntP p) = IntParameter_GetBytes qv p"
| "Parameter_GetBytes qv (StringP p) = StringParameter_GetBytes qv p"

text \<open>The loop \<open>for range length\<close>: one parameter per round, stored in the map as soon as it
  is read. An unknown type is skipped over and then reported.\<close>

fun Parameters_loop :: "quicvarint \<Rightarrow> nat \<Rightarrow> Parameters step" where
  "Parameters_loop qv 0 params r = Some (params, None, r)"
| "Parameters_loop qv (Suc n) params r = (case qv_Read qv r of
      (Inl e, r') \<Rightarrow> Some (params, Some e, r')
    | (Inr t, r') \<Rightarrow>
       if t = ROLE_PARAM then
         (case IntParameter_Parse qv \<lparr>Ptype = t, Pvalue = 0\<rparr> r' of
            None \<Rightarrow> None
          | Some (p, Some e, r'') \<Rightarrow> Some (params, Some e, r'')
          | Some (p, None, r'') \<Rightarrow> Parameters_loop qv n (gomap_set t (IntP p) params) r'')
       else if t = ROLE_PATH then
         (case StringParameter_Parse qv \<lparr>ptype = t, pvalue = ''''\<rparr> r' of
            None \<Rightarrow> None
          | Some (p, Some e, r'') \<Rightarrow> Some (params, Some e, r'')
          | Some (p, None, r'') \<Rightarrow> Parameters_loop qv n (gomap_set t (StringP p) params) r'')
       else
         (case qv_Read qv r' of
            (Inl e, r'') \<Rightarrow> Some (params, Some e, r'')
          | (Inr len, r'') \<Rightarrow> (case make_ReadFull len r'' of
                None \<Rightarrow> None
              | Some (_, r''') \<Rightarrow> Some (params, Some (Errorf ''[Unknown Param]''), r'''))))"

definition Parameters_Parse :: "quicvarint \<Rightarrow> Parameters step" where
  "Parameters_Parse qv params r = (case qv_Read qv r of
      (Inl e, r') \<Rightarrow> Some (params, Some e, r')
    | (Inr len, r') \<Rightarrow> Parameters_loop qv (unat len) params r')"

fun Parameters_GetParameter :: "Parameters \<Rightarrow> u64 \<Rightarrow> Parameter option" where
  "Parameters_GetParameter [] key = None"
| "Parameters_GetParameter ((_, param) # params) key =
     (if Parameter_Type param = key then Some param else Parameters_GetParameter params key)"

text \<open>The loop that appends the encoding of every parameter; three of the encoders have it.\<close>

fun append_params :: "quicvarint \<Rightarrow> Parameters \<Rightarrow> bytes \<Rightarrow> bytes option" where
  "append_params qv [] data = Some data"
| "append_params qv ((_, param) # params) data = do {
     b \<leftarrow> Parameter_GetBytes qv param;
     append_params qv params (data @ b) }"

definition Parameters_GetBytes :: "quicvarint \<Rightarrow> Parameters \<Rightarrow> bytes option" where
  "Parameters_GetBytes qv params = do {
     data \<leftarrow> qv_Append qv [] (word_of_nat (length params));
     append_params qv params data }"

text \<open>The bytes of a map, for statements about what is on the wire.\<close>

definition params_enc :: "quicvarint \<Rightarrow> Parameters \<Rightarrow> bytes" where
  "params_enc qv ps = the (Parameters_GetBytes qv ps)"

section \<open>Names for log lines\<close>

definition GetParamKeyString :: "Parameter \<Rightarrow> string" where
  "GetParamKeyString param =
    (if Parameter_Type param = ROLE_PARAM then ''ROLE''
     else if Parameter_Type param = ROLE_PATH then ''PATH''
     else ''UNKNOWN PARAM'')"

definition GetRoleStringVarInt :: "u64 \<Rightarrow> string" where
  "GetRoleStringVarInt p =
    (if p = ROLE_PUBLISHER then ''ROLE_PUBLISHER''
     else if p = ROLE_SUBSCRIBER then ''ROLE_SUBCRIBER''
     else if p = ROLE_RELAY then ''ROLE_RELAY''
     else ''UNKNOWN_ROLE'')"

definition GetRoleString :: "Parameter \<Rightarrow> string option" where
  "GetRoleString param = do {
     v \<leftarrow> Parameter_Value_uint64 param;
     Some (if v = ROLE_PUBLISHER then ''ROLE_PUBLISHER''
           else if v = ROLE_SUBSCRIBER then ''ROLE_SUBCRIBER''
           else if v = ROLE_RELAY then ''ROLE_RELAY''
           else ''UNKNOWN_ROLE'') }"

definition GetParamValueString :: "Parameter \<Rightarrow> string option" where
  "GetParamValueString param =
    (if Parameter_Type param = ROLE_PARAM then GetRoleString param else Some ''UNKNOWN_VALUE'')"

section \<open>Well-formed parameters\<close>

text \<open>What the decoder can produce: the role is an integer, the path a string; integers
  fit a varint and strings fit an allocation.\<close>

definition string_ok :: "string \<Rightarrow> bool" where
  "string_ok s \<longleftrightarrow> length s \<le> maxAlloc"

fun Parameter_ok :: "u64 \<Rightarrow> Parameter \<Rightarrow> bool" where
  "Parameter_ok k (IntP p) = (k = ROLE_PARAM \<and> Ptype p = k \<and> fits62 (Pvalue p))"
| "Parameter_ok k (StringP p) = (k = ROLE_PATH \<and> ptype p = k \<and> string_ok (pvalue p))"

definition Parameters_ok :: "Parameters \<Rightarrow> bool" where
  "Parameters_ok ps \<longleftrightarrow> gomap_ok ps \<and> list_all (\<lambda>(k, p). Parameter_ok k p) ps"

lemma Parameters_ok_Nil [simp]: "Parameters_ok []"
  by (simp add: Parameters_ok_def)

lemma fits62_small: "n \<le> maxAlloc \<Longrightarrow> fits62 (word_of_nat n)"
  by (simp add: fits62_def maxAlloc_def unat_of_length)

lemma unat_small: "n \<le> maxAlloc \<Longrightarrow> unat (word_of_nat n :: u64) = n"
  by (simp add: maxAlloc_def unat_of_length)

lemma Parameters_ok_Cons:
  "Parameters_ok ((k, p) # ps) \<longleftrightarrow> Parameter_ok k p \<and> k \<notin> fst ` set ps \<and> Parameters_ok ps"
  by (auto simp: Parameters_ok_def gomap_ok_def)

lemma Parameters_ok_keys: "Parameters_ok ps \<Longrightarrow> fst ` set ps \<subseteq> {ROLE_PARAM, ROLE_PATH}"
proof (induction ps)
  case (Cons kp ps)
  then show ?case by (cases kp; cases "snd kp") (auto simp: Parameters_ok_Cons)
qed simp

lemma Parameters_ok_length: "Parameters_ok ps \<Longrightarrow> length ps \<le> 2"
proof -
  assume ok: "Parameters_ok ps"
  then have "card (fst ` set ps) \<le> card {ROLE_PARAM, ROLE_PATH}"
    by (intro card_mono Parameters_ok_keys) simp_all
  also have "\<dots> \<le> 2" by (simp add: card_insert_if)
  also have "card (fst ` set ps) = length ps"
    using ok by (metis Parameters_ok_def gomap_ok_def distinct_card length_map set_map)
  finally show ?thesis by simp
qed

lemma Parameters_ok_set:
  assumes "Parameters_ok ps" and "Parameter_ok k p"
  shows "Parameters_ok (gomap_set k p ps)"
  using assms set_gomap_set [of k p ps] by (auto simp: Parameters_ok_def list_all_iff)

text \<open>The role parameter of a well-formed map is an integer, so \<open>GetRoleParam\<close> does not
  panic.\<close>

lemma GetParameter_ok:
  "Parameters_ok ps \<Longrightarrow> Parameters_GetParameter ps k = gomap_get ps k"
proof (induction ps k rule: Parameters_GetParameter.induct)
  case (2 k' param params key)
  then have "Parameter_Type param = k'" by (cases param) (auto simp: Parameters_ok_Cons)
  with 2 show ?case by (auto simp: Parameters_ok_Cons)
qed simp

lemma role_param_int:
  "Parameters_ok ps \<Longrightarrow> Parameters_GetParameter ps ROLE_PARAM = Some p \<Longrightarrow>
     \<exists>v. Parameter_Value_uint64 p = Some v \<and> fits62 v"
  by (cases p) (auto simp: GetParameter_ok Parameters_ok_def list_all_iff role_defs
      dest!: map_of_SomeD)

section \<open>Encoders and decoders agree\<close>

context varint_codec
begin

lemma ParseVarIntString_enc [wire_simps]:
  assumes "string_ok s"
  shows "ParseVarIntString qv (r\<lparr>rd_data := venc qv (word_of_nat (length s)) @ bytes_of_string s @ rest\<rparr>)
    = Some (Inr s, r\<lparr>rd_data := rest\<rparr>)"
  using assms make_ReadFull_exact [of "word_of_nat (length s)" "bytes_of_string s" rest r]
  by (simp add: ParseVarIntString_def string_ok_def Read_venc fits62_small unat_small make_ok_def)

lemma string_step_enc [wire_simps]:
  "string_ok s \<Longrightarrow> string_step qv upd m
      (r\<lparr>rd_data := venc qv (word_of_nat (length s)) @ bytes_of_string s @ rest\<rparr>)
    = Some (upd s m, None, r\<lparr>rd_data := rest\<rparr>)"
  by (simp add: string_step_def ParseVarIntString_enc)

lemma ParseVarIntString_ok: "ParseVarIntString qv r = Some (Inr s, r') \<Longrightarrow> string_ok s"
  by (auto simp: ParseVarIntString_def string_ok_def split: prod.splits sum.splits option.splits
      dest!: make_ReadFull_length)

lemma string_step_keeps:
  "(\<And>s m. P m \<Longrightarrow> string_ok s \<Longrightarrow> P (upd s m)) \<Longrightarrow> step_keeps P (string_step qv upd)"
  by (auto simp: step_keeps_def string_step_def split: prod.splits sum.splits option.splits
      dest!: ParseVarIntString_ok)

lemma GetBytesVarIntString_ok [wire_simps]:
  "string_ok s \<Longrightarrow> GetBytesVarIntString qv s = Some (venc qv (word_of_nat (length s)) @ bytes_of_string s)"
  by (simp add: GetBytesVarIntString_def Append_fits fits62_small string_ok_def)

lemma IntParameter_Parse_enc:
  assumes "fits62 l" and "fits62 v"
  shows "IntParameter_Parse qv p (r\<lparr>rd_data := venc qv l @ venc qv v @ rest\<rparr>)
    = Some (p\<lparr>Pvalue := v\<rparr>, None, r\<lparr>rd_data := rest\<rparr>)"
  using assms by (simp add: IntParameter_Parse_def wire_simps)

text \<open>The encoding of one parameter, and of the parameters of a map in list order.\<close>

lemma Len_fits: "fits62 v \<Longrightarrow> fits62 (word_of_nat (qv_Len qv v))"
  using Len_max [of v] by (intro fits62_small) (simp add: maxAlloc_def)

lemma Parameter_GetBytes_some:
  assumes "Parameter_ok k p"
  shows "\<exists>b. Parameter_GetBytes qv p = Some (venc qv k @ b) \<and>
     (\<forall>ps r rest n. Parameters_loop qv (Suc n) ps (r\<lparr>rd_data := venc qv k @ b @ rest\<rparr>)
        = Parameters_loop qv n (gomap_set k p ps) (r\<lparr>rd_data := rest\<rparr>))"
proof (cases p)
  case (IntP i)
  then have k: "k = ROLE_PARAM" "Ptype i = k" "fits62 (Pvalue i)" using assms by auto
  then have "fits62 k" by (simp add: role_defs fits62_def)
  with k IntP show ?thesis
    by (cases i) (auto simp: IntParameter_GetBytes_def Append_fits Len_fits Read_venc
        IntParameter_Parse_enc)
next
  case (StringP t)
  then have k: "k = ROLE_PATH" "ptype t = k" "string_ok (pvalue t)" using assms by auto
  then have "fits62 k" "k \<noteq> ROLE_PARAM" by (auto simp: role_defs fits62_def)
  moreover from k have "fits62 (word_of_nat (length (pvalue t)))" by (simp add: string_ok_def fits62_small)
  ultimately show ?thesis using k StringP
    by (cases t) (auto simp: StringParameter_GetBytes_def Append_fits Read_venc
        StringParameter_Parse_def string_step_enc)
qed

lemma append_params_enc:
  assumes "Parameters_ok ps"
  shows "\<exists>b. (\<forall>data. append_params qv ps data = Some (data @ b)) \<and>
    (\<forall>acc r rest. fst ` set ps \<inter> fst ` set acc = {} \<longrightarrow>
       Parameters_loop qv (length ps) acc (r\<lparr>rd_data := b @ rest\<rparr>) = Some (acc @ ps, None, r\<lparr>rd_data := rest\<rparr>))"
  using assms
proof (induction ps)
  case (Cons kp ps)
  obtain k p where kp: "kp = (k, p)" by (cases kp)
  with Cons.prems have ok: "Parameter_ok k p" "k \<notin> fst ` set ps" "Parameters_ok ps"
    by (auto simp: Parameters_ok_Cons)
  from Cons.IH [OF ok(3)] obtain b where
    b: "\<And>data. append_params qv ps data = Some (data @ b)"
    and l: "\<And>acc r rest. fst ` set ps \<inter> fst ` set acc = {} \<Longrightarrow>
      Parameters_loop qv (length ps) acc (r\<lparr>rd_data := b @ rest\<rparr>) = Some (acc @ ps, None, r\<lparr>rd_data := rest\<rparr>)"
    by blast
  from Parameter_GetBytes_some [OF ok(1)] obtain c where
    c: "Parameter_GetBytes qv p = Some (venc qv k @ c)"
    and s: "\<And>ps r rest n. Parameters_loop qv (Suc n) ps (r\<lparr>rd_data := venc qv k @ c @ rest\<rparr>)
        = Parameters_loop qv n (gomap_set k p ps) (r\<lparr>rd_data := rest\<rparr>)"
    by blast
  have "Parameters_loop qv (Suc (length ps)) acc (r\<lparr>rd_data := venc qv k @ c @ b @ rest\<rparr>)
      = Some (acc @ (k, p) # ps, None, r\<lparr>rd_data := rest\<rparr>)"
    if "fst ` set (kp # ps) \<inter> fst ` set acc = {}" for acc r rest
  proof -
    from that kp have "gomap_set k p acc = acc @ [(k, p)]" by (intro gomap_set_fresh) auto
    moreover have "fst ` set ps \<inter> fst ` set (acc @ [(k, p)]) = {}" using that kp ok by auto
    ultimately show ?thesis using l [of "acc @ [(k, p)]"] by (simp only: s) simp
  qed
  then show ?case using kp b c
    by (intro exI [of _ "venc qv k @ c @ b"]) (simp del: Parameters_loop.simps)
qed simp

lemma Parameters_GetBytes_enc:
  assumes "Parameters_ok ps"
  shows "Parameters_GetBytes qv ps = Some (params_enc qv ps)"
    and "Parameters_Parse qv [] (r\<lparr>rd_data := params_enc qv ps @ rest\<rparr>) = Some (ps, None, r\<lparr>rd_data := rest\<rparr>)"
proof -
  from append_params_enc [OF assms] obtain b where
    b: "\<And>data. append_params qv ps data = Some (data @ b)"
    and l: "\<And>acc r rest. fst ` set ps \<inter> fst ` set acc = {} \<Longrightarrow>
      Parameters_loop qv (length ps) acc (r\<lparr>rd_data := b @ rest\<rparr>) = Some (acc @ ps, None, r\<lparr>rd_data := rest\<rparr>)"
    by blast
  have len: "length ps \<le> maxAlloc" using Parameters_ok_length [OF assms] by (simp add: maxAlloc_def)
  have g: "Parameters_GetBytes qv ps = Some (venc qv (word_of_nat (length ps)) @ b)"
    using len b by (simp add: Parameters_GetBytes_def Append_fits fits62_small)
  then show "Parameters_GetBytes qv ps = Some (params_enc qv ps)" by (simp add: params_enc_def)
  show "Parameters_Parse qv [] (r\<lparr>rd_data := params_enc qv ps @ rest\<rparr>) = Some (ps, None, r\<lparr>rd_data := rest\<rparr>)"
    using len g l [of "[]"]
    by (simp add: params_enc_def Parameters_Parse_def Read_venc fits62_small unat_small)
qed

text \<open>Whatever the decoder returns is well formed, also when it stops with an error.\<close>

lemma IntParameter_Parse_keeps:
  assumes "IntParameter_Parse qv \<lparr>Ptype = t, Pvalue = 0\<rparr> r = Some (p, e, r')"
  shows "Ptype p = t \<and> fits62 (Pvalue p)"
proof -
  have "step_keeps (\<lambda>p. Ptype p = t \<and> fits62 (Pvalue p)) (IntParameter_Parse qv)"
    unfolding IntParameter_Parse_def
    by (rule run_steps_keeps) (auto intro!: varint_step_keeps)
  from step_keepsD [OF this _ assms] show ?thesis by (simp add: fits62_def)
qed

lemma StringParameter_Parse_keeps:
  assumes "StringParameter_Parse qv \<lparr>ptype = t, pvalue = ''''\<rparr> r = Some (p, e, r')"
  shows "ptype p = t \<and> string_ok (pvalue p)"
proof -
  have "step_keeps (\<lambda>p. ptype p = t \<and> string_ok (pvalue p)) (StringParameter_Parse qv)"
    unfolding StringParameter_Parse_def by (auto intro!: string_step_keeps)
  from step_keepsD [OF this _ assms] show ?thesis by (simp add: string_ok_def)
qed

lemma Parameters_loop_ok: "step_keeps Parameters_ok (Parameters_loop qv n)"
proof (rule step_keepsI)
  fix m r m' e r'
  assume "Parameters_ok m" "Parameters_loop qv n m r = Some (m', e, r')"
  then show "Parameters_ok m'"
  proof (induction n arbitrary: m r)
    case (Suc n)
    have i: "Parameters_ok (gomap_set ROLE_PARAM (IntP p) m)" if "Ptype p = ROLE_PARAM \<and> fits62 (Pvalue p)" for p
      using that Suc.prems(1) by (simp add: Parameters_ok_set)
    have s: "Parameters_ok (gomap_set ROLE_PATH (StringP p) m)" if "ptype p = ROLE_PATH \<and> string_ok (pvalue p)" for p
      using that Suc.prems(1) by (simp add: Parameters_ok_set)
    from Suc.prems show ?case
      by (auto split: prod.split_asm sum.split_asm option.split_asm if_split_asm
          dest!: IntParameter_Parse_keeps StringParameter_Parse_keeps
          dest: Suc.IH [OF i, rotated] Suc.IH [OF s, rotated])
  qed simp
qed

lemma Parameters_Parse_ok: "step_keeps Parameters_ok (Parameters_Parse qv)"
  using Parameters_loop_ok
  by (auto simp: step_keeps_def Parameters_Parse_def split: prod.splits sum.splits)

end

end
