(* ===== verification/Wire_Messages.thy ===== *)
theory Wire_Messages
  imports Wire_Params
begin

text \<open>
  The control messages of \<open>src/moqt/wire\<close>: one record per message struct, its \<open>Parse\<close> as the
  sequence of field reads of the source, its \<open>GetBytes\<close> in the option monad (\<^const>\<open>None\<close> is the panic of
  \<open>quicvarint.Append\<close>), the interface \<open>MOQTMessage\<close> as a datatype and the dispatcher
  \<open>ParseMOQTMessage\<close>, which drops the error of the message's own \<open>Parse\<close>.

  Shown here: what each encoder writes is read back by the dispatcher, up to what the source does to a message on the way
  (\<open>wire_view\<close>), also for sequences of messages; every message the dispatcher returns can be written again without a panic;
  and what the dispatcher does with the messages that do not survive the trip.
\<close>

section \<open>Message types\<close>

definition SUBSCRIBE :: u64 where "SUBSCRIBE = 0x3"
definition SUBSCRIBE_OK :: u64 where "SUBSCRIBE_OK = 0x4"
definition SUBSCRIBE_ERROR :: u64 where "SUBSCRIBE_ERROR = 0x5"
definition ANNOUNCE :: u64 where "ANNOUNCE = 0x6"
definition ANNOUNCE_OK :: u64 where "ANNOUNCE_OK = 0x7"
definition ANNOUNCE_ERROR :: u64 where "ANNOUNCE_ERROR = 0x8"
definition UNANNOUNCE :: u64 where "UNANNOUNCE = 0x9"
definition UNSUBSCRIBE :: u64 where "UNSUBSCRIBE = 0xA"
definition SUBSCRIBE_DONE :: u64 where "SUBSCRIBE_DONE = 0xB"
definition ANNOUNCE_CANCEL :: u64 where "ANNOUNCE_CANCEL = 0xC"
definition TRACK_STATUS_REQUEST :: u64 where "TRACK_STATUS_REQUEST = 0xD"
definition TRACK_STATUS :: u64 where "TRACK_STATUS = 0xE"
definition GOAWAY :: u64 where "GOAWAY = 0x10"
definition CLIENT_SETUP :: u64 where "CLIENT_SETUP = 0x40"
definition SERVER_SETUP :: u64 where "SERVER_SETUP = 0x41"

lemmas mtype_defs = SUBSCRIBE_def SUBSCRIBE_OK_def SUBSCRIBE_ERROR_def ANNOUNCE_def ANNOUNCE_OK_def
  ANNOUNCE_ERROR_def UNANNOUNCE_def UNSUBSCRIBE_def SUBSCRIBE_DONE_def ANNOUNCE_CANCEL_def
  TRACK_STATUS_REQUEST_def TRACK_STATUS_def GOAWAY_def CLIENT_SETUP_def SERVER_SETUP_def

definition GetMoqMessageString :: "u64 \<Rightarrow> string" where
  "GetMoqMessageString mtype =
    (if mtype = SUBSCRIBE then ''SUBSCRIBE''
     else if mtype = SUBSCRIBE_OK then ''SUBSCRIBE_OK''
     else if mtype = SUBSCRIBE_ERROR then ''SUBSCRIBE_ERROR''
     else if mtype = ANNOUNCE then ''ANNOUNCE''
     else if mtype = ANNOUNCE_OK then ''ANNOUNCE_OK''
     else if mtype = ANNOUNCE_ERROR then ''ANNOUNCE_ERROR''
     else if mtype = UNANNOUNCE then ''UNANNOUNCE''
     else if mtype = UNSUBSCRIBE then ''UNSUBSCRIBE''
     else if mtype = SUBSCRIBE_DONE then ''SUBSCRIBE_DONE''
     else if mtype = ANNOUNCE_CANCEL then ''ANNOUNCE_CANCEL''
     else if mtype = TRACK_STATUS_REQUEST then ''TRACK_STATUS_REQUEST''
     else if mtype = TRACK_STATUS then ''TRACK_STATUS''
     else if mtype = GOAWAY then ''GOAWAY''
     else if mtype = CLIENT_SETUP then ''CLIENT_SETUP''
     else if mtype = SERVER_SETUP then ''SERVER_SETUP''
     else ''UNKNOWN_MESSAGE_TYPE'')"

text \<open>Parameters read into a message, with the error returned or dropped.\<close>

definition params_step :: "quicvarint \<Rightarrow> (Parameters \<Rightarrow> 'm \<Rightarrow> 'm) \<Rightarrow> 'm step" where
  "params_step qv upd m r = (case Parameters_Parse qv [] r of
      None \<Rightarrow> None
    | Some (ps, Some e, r') \<Rightarrow> Some (m, Some e, r')
    | Some (ps, None, r') \<Rightarrow> Some (upd ps m, None, r'))"

definition params_step_unchecked :: "quicvarint \<Rightarrow> (Parameters \<Rightarrow> 'm \<Rightarrow> 'm) \<Rightarrow> 'm step" where
  "params_step_unchecked qv upd m r = (case Parameters_Parse qv [] r of
      None \<Rightarrow> None
    | Some (ps, _, r') \<Rightarrow> Some (upd ps m, None, r'))"

section \<open>CLIENT_SETUP and SERVER_SETUP\<close>

record ClientSetup =
  SupportedVersions :: "u64 list"
  csetup_Params :: Parameters

text \<open>\<open>GetRoleParam\<close>: the outer option is the panic of the type assertion.\<close>

definition GetRoleParam :: "Parameters \<Rightarrow> (goerror + u64) option" where
  "GetRoleParam params = (case Parameters_GetParameter params ROLE_PARAM of
      Some param \<Rightarrow> (case Parameter_Value_uint64 param of None \<Rightarrow> None | Some v \<Rightarrow> Some (Inr v))
    | None \<Rightarrow> Some (Inl (Errorf ''Param not found'')))"

definition ClientSetup_GetRoleParam :: "ClientSetup \<Rightarrow> (goerror + u64) option" where
  "ClientSetup_GetRoleParam setup = GetRoleParam (csetup_Params setup)"

fun append_versions :: "quicvarint \<Rightarrow> u64 list \<Rightarrow> bytes \<Rightarrow> bytes option" where
  "append_versions qv [] data = Some data"
| "append_versions qv (v # vs) data = do {
     data \<leftarrow> qv_Append qv data v;
     append_versions qv vs data }"

definition ClientSetup_GetBytes :: "quicvarint \<Rightarrow> ClientSetup \<Rightarrow> bytes option" where
  "ClientSetup_GetBytes qv setup = do {
     data \<leftarrow> qv_Append qv [] CLIENT_SETUP;
     data \<leftarrow> qv_Append qv data (word_of_nat (length (SupportedVersions setup)));
     data \<leftarrow> append_versions qv (SupportedVersions setup) data;
     data \<leftarrow> qv_Append qv data (word_of_nat (length (csetup_Params setup)));
     append_params qv (csetup_Params setup) data }"

fun versions_loop :: "quicvarint \<Rightarrow> nat \<Rightarrow> ClientSetup step" where
  "versions_loop qv 0 setup r = Some (setup, None, r)"
| "versions_loop qv (Suc n) setup r = (case qv_Read qv r of
      (Inl e, r') \<Rightarrow> Some (setup, Some e, r')
    | (Inr version, r') \<Rightarrow>
        versions_loop qv n (setup\<lparr>SupportedVersions := SupportedVersions setup @ [version]\<rparr>) r')"

definition ClientSetup_Parse :: "quicvarint \<Rightarrow> ClientSetup step" where
  "ClientSetup_Parse qv setup r = (case qv_Read qv r of
      (Inl e, r') \<Rightarrow> Some (setup, Some e, r')
    | (Inr nversions, r') \<Rightarrow> run_steps
        [versions_loop qv (unat nversions),
         params_step_unchecked qv (\<lambda>ps s. s\<lparr>csetup_Params := ps\<rparr>)] setup r')"

fun CheckDraftSupport_loop :: "u64 list \<Rightarrow> bool" where
  "CheckDraftSupport_loop [] = False"
| "CheckDraftSupport_loop (version # vs) = (if version = DRAFT_04 then True else CheckDraftSupport_loop vs)"

definition CheckDraftSupport :: "ClientSetup \<Rightarrow> bool" where
  "CheckDraftSupport setup = CheckDraftSupport_loop (SupportedVersions setup)"

record ServerSetup =
  SelectedVersion :: u64
  ssetup_Params :: Parameters

definition NewServerSetup :: "u64 \<Rightarrow> Parameters \<Rightarrow> ServerSetup" where
  "NewServerSetup version params = \<lparr>SelectedVersion = version, ssetup_Params = params\<rparr>"

definition ServerSetup_GetRoleParam :: "ServerSetup \<Rightarrow> (goerror + u64) option" where
  "ServerSetup_GetRoleParam setup = GetRoleParam (ssetup_Params setup)"

definition ServerSetup_GetBytes :: "quicvarint \<Rightarrow> ServerSetup \<Rightarrow> bytes option" where
  "ServerSetup_GetBytes qv setup = do {
     data \<leftarrow> qv_Append qv [] SERVER_SETUP;
     data \<leftarrow> qv_Append qv data (SelectedVersion setup);
     data \<leftarrow> qv_Append qv data (word_of_nat (length (ssetup_Params setup)));
     append_params qv (ssetup_Params setup) data }"

definition ServerSetup_Parse :: "quicvarint \<Rightarrow> ServerSetup step" where
  "ServerSetup_Parse qv = run_steps
     [varint_step qv (\<lambda>v s. s\<lparr>SelectedVersion := v\<rparr>),
      params_step_unchecked qv (\<lambda>ps s. s\<lparr>ssetup_Params := ps\<rparr>)]"

section \<open>ANNOUNCE and ANNOUNCE_OK\<close>

record Announce =
  ann_TrackNameSpace :: string
  ann_params :: Parameters

definition Announce_Parse :: "quicvarint \<Rightarrow> Announce step" where
  "Announce_Parse qv = run_steps
     [string_step qv (\<lambda>s a. a\<lparr>ann_TrackNameSpace := s\<rparr>),
      params_step qv (\<lambda>ps a. a\<lparr>ann_params := ps\<rparr>)]"

definition Announce_GetBytes :: "quicvarint \<Rightarrow> Announce \<Rightarrow> bytes option" where
  "Announce_GetBytes qv a = do {
     data \<leftarrow> qv_Append qv [] ANNOUNCE;
     data \<leftarrow> qv_Append qv data (word_of_nat (length (bytes_of_string (ann_TrackNameSpace a))));
     ps \<leftarrow> Parameters_GetBytes qv (ann_params a);
     Some (data @ bytes_of_string (ann_TrackNameSpace a) @ ps) }"

record AnnounceOk =
  annok_TrackNameSpace :: string

definition AnnounceOk_Parse :: "quicvarint \<Rightarrow> AnnounceOk step" where
  "AnnounceOk_Parse qv = string_step qv (\<lambda>s m. m\<lparr>annok_TrackNameSpace := s\<rparr>)"

definition AnnounceOk_GetBytes :: "quicvarint \<Rightarrow> AnnounceOk \<Rightarrow> bytes option" where
  "AnnounceOk_GetBytes qv msg = do {
     data \<leftarrow> qv_Append qv [] ANNOUNCE_OK;
     data \<leftarrow> qv_Append qv data (word_of_nat (length (annok_TrackNameSpace msg)));
     Some (data @ bytes_of_string (annok_TrackNameSpace msg)) }"

section \<open>SUBSCRIBE\<close>

definition LatestGroup :: u64 where "LatestGroup = 0x1"
definition LatestObject :: u64 where "LatestObject = 0x2"
definition AbsoluteStart :: u64 where "AbsoluteStart = 0x3"
definition AbsoluteRange :: u64 where "AbsoluteRange = 0x4"

definition GetFilterType :: "u64 \<Rightarrow> string" where
  "GetFilterType ftype =
    (if ftype = LatestGroup then ''LatestGroup''
     else if ftype = LatestObject then ''LatestObject''
     else if ftype = AbsoluteStart then ''AbsoluteStart''
     else if ftype = AbsoluteRange then ''AbsoluteRange''
     else ''UKNOWN FILTER TYPE'')"

record Subscribe =
  sub_SubscribeID :: u64
  sub_TrackAlias :: u64
  sub_TrackNameSpace :: string
  sub_TrackName :: string
  sub_FilterType :: u64
  sub_StartGroup :: u64
  sub_StartObject :: u64
  sub_EndGroup :: u64
  sub_EndObject :: u64
  sub_Params :: Parameters

definition has_start :: "Subscribe \<Rightarrow> bool" where
  "has_start s \<longleftrightarrow> sub_FilterType s = AbsoluteStart \<or> sub_FilterType s = AbsoluteRange"

definition has_end :: "Subscribe \<Rightarrow> bool" where
  "has_end s \<longleftrightarrow> sub_FilterType s = AbsoluteRange"

definition Subscribe_Parse :: "quicvarint \<Rightarrow> Subscribe step" where
  "Subscribe_Parse qv = run_steps
     [varint_step qv (\<lambda>v s. s\<lparr>sub_SubscribeID := v\<rparr>),
      varint_step qv (\<lambda>v s. s\<lparr>sub_TrackAlias := v\<rparr>),
      string_step qv (\<lambda>v s. s\<lparr>sub_TrackNameSpace := v\<rparr>),
      string_step qv (\<lambda>v s. s\<lparr>sub_TrackName := v\<rparr>),
      varint_step qv (\<lambda>v s. s\<lparr>sub_FilterType := v\<rparr>),
      when_step has_start (varint_step qv (\<lambda>v s. s\<lparr>sub_StartGroup := v\<rparr>)),
      when_step has_start (varint_step qv (\<lambda>v s. s\<lparr>sub_StartObject := v\<rparr>)),
      when_step has_end (varint_step qv (\<lambda>v s. s\<lparr>sub_EndGroup := v\<rparr>)),
      when_step has_end (varint_step qv (\<lambda>v s. s\<lparr>sub_EndObject := v\<rparr>)),
      params_step qv (\<lambda>ps s. s\<lparr>sub_Params := ps\<rparr>)]"

definition append_if :: "quicvarint \<Rightarrow> bool \<Rightarrow> bytes \<Rightarrow> u64 \<Rightarrow> bytes option" where
  "append_if qv c data v = (if c then qv_Append qv data v else Some data)"

definition Subscribe_GetBytes :: "quicvarint \<Rightarrow> Subscribe \<Rightarrow> bytes option" where
  "Subscribe_GetBytes qv s = do {
     data \<leftarrow> qv_Append qv [] SUBSCRIBE;
     data \<leftarrow> qv_Append qv data (sub_SubscribeID s);
     data \<leftarrow> qv_Append qv data (sub_TrackAlias s);
     ns \<leftarrow> GetBytesVarIntString qv (sub_TrackNameSpace s);
     name \<leftarrow> GetBytesVarIntString qv (sub_TrackName s);
     data \<leftarrow> qv_Append qv (data @ ns @ name) (sub_FilterType s);
     data \<leftarrow> append_if qv (has_start s) data (sub_StartGroup s);
     data \<leftarrow> append_if qv (has_start s) data (sub_StartObject s);
     data \<leftarrow> append_if qv (has_end s) data (sub_EndGroup s);
     data \<leftarrow> append_if qv (has_end s) data (sub_EndObject s);
     ps \<leftarrow> Parameters_GetBytes qv (sub_Params s);
     Some (data @ ps) }"

definition Subscribe_GetStreamID :: "Subscribe \<Rightarrow> string" where
  "Subscribe_GetStreamID s = sub_TrackNameSpace s @ ''_'' @ sub_TrackName s"

section \<open>SUBSCRIBE_OK, SUBSCRIBE_DONE and UNSUBSCRIBE\<close>

record SubscribeOk =
  subok_SubscribeID :: u64
  subok_Expires :: u64
  subok_ContentExists :: u8
  largestGroupId :: u64
  largestObjectId :: u64

text \<open>Both reads after \<open>ContentExists\<close> go to \<open>largestObjectId\<close>, and the encoder writes the object
  before the group.\<close>

definition SubscribeOk_Parse :: "quicvarint \<Rightarrow> SubscribeOk step" where
  "SubscribeOk_Parse qv = run_steps
     [varint_step qv (\<lambda>v s. s\<lparr>subok_SubscribeID := v\<rparr>),
      varint_step qv (\<lambda>v s. s\<lparr>subok_Expires := v\<rparr>),
      byte_step (\<lambda>v s. s\<lparr>subok_ContentExists := v\<rparr>),
      when_step (\<lambda>s. subok_ContentExists s = 1) (varint_step qv (\<lambda>v s. s\<lparr>largestObjectId := v\<rparr>)),
      when_step (\<lambda>s. subok_ContentExists s = 1) (varint_step qv (\<lambda>v s. s\<lparr>largestObjectId := v\<rparr>))]"

definition SubscribeOk_GetBytes :: "quicvarint \<Rightarrow> SubscribeOk \<Rightarrow> bytes option" where
  "SubscribeOk_GetBytes qv s = do {
     data \<leftarrow> qv_Append qv [] SUBSCRIBE_OK;
     data \<leftarrow> qv_Append qv data (subok_SubscribeID s);
     data \<leftarrow> qv_Append qv data (subok_Expires s);
     let data = data @ [subok_ContentExists s];
     data \<leftarrow> append_if qv (subok_ContentExists s = 1) data (largestObjectId s);
     append_if qv (subok_ContentExists s = 1) data (largestGroupId s) }"

definition GetSubOKMessage :: "u64 \<Rightarrow> SubscribeOk" where
  "GetSubOKMessage sid = \<lparr>subok_SubscribeID = sid, subok_Expires = 0, subok_ContentExists = 1,
     largestGroupId = 0, largestObjectId = 0\<rparr>"

record SubscribeDone =
  done_SubscribeID :: u64
  done_StatusCode :: u64
  done_ReasonPhrase :: string
  done_ContentExists :: u8
  done_FinalGroup :: u64
  done_FinalObject :: u64

definition SubscribeDone_Parse :: "quicvarint \<Rightarrow> SubscribeDone step" where
  "SubscribeDone_Parse qv = run_steps
     [varint_step qv (\<lambda>v m. m\<lparr>done_SubscribeID := v\<rparr>),
      varint_step qv (\<lambda>v m. m\<lparr>done_StatusCode := v\<rparr>),
      string_step qv (\<lambda>v m. m\<lparr>done_ReasonPhrase := v\<rparr>),
      byte_step (\<lambda>v m. m\<lparr>done_ContentExists := v\<rparr>),
      when_step (\<lambda>m. done_ContentExists m = 1) (varint_step qv (\<lambda>v m. m\<lparr>done_FinalGroup := v\<rparr>)),
      when_step (\<lambda>m. done_ContentExists m = 1) (varint_step qv (\<lambda>v m. m\<lparr>done_FinalObject := v\<rparr>))]"

text \<open>The encoder of \<open>SUBSCRIBE_DONE\<close> writes no message type.\<close>

definition SubscribeDone_GetBytes :: "quicvarint \<Rightarrow> SubscribeDone \<Rightarrow> bytes option" where
  "SubscribeDone_GetBytes qv m = do {
     data \<leftarrow> qv_Append qv [] (done_SubscribeID m);
     data \<leftarrow> qv_Append qv data (done_StatusCode m);
     data \<leftarrow> qv_Append qv data (word_of_nat (length (done_ReasonPhrase m)));
     let data = data @ bytes_of_string (done_ReasonPhrase m) @ [done_ContentExists m];
     data \<leftarrow> append_if qv (done_ContentExists m = 1) data (done_FinalGroup m);
     append_if qv (done_ContentExists m = 1) data (done_FinalObject m) }"

record Unsubcribe =
  SubscriptionID :: u64

definition Unsubcribe_Parse :: "quicvarint \<Rightarrow> Unsubcribe step" where
  "Unsubcribe_Parse qv = varint_step qv (\<lambda>v m. m\<lparr>SubscriptionID := v\<rparr>)"

definition Unsubcribe_GetBytes :: "quicvarint \<Rightarrow> Unsubcribe \<Rightarrow> bytes option" where
  "Unsubcribe_GetBytes qv msg = do {
     data \<leftarrow> qv_Append qv [] UNSUBSCRIBE;
     qv_Append qv data (SubscriptionID msg) }"

section \<open>The message interface\<close>

datatype MOQTMessage =
    MsgClientSetup ClientSetup
  | MsgServerSetup ServerSetup
  | MsgAnnounce Announce
  | MsgAnnounceOk AnnounceOk
  | MsgSubscribe Subscribe
  | MsgSubscribeOk SubscribeOk
  | MsgUnsubcribe Unsubcribe
  | MsgSubscribeDone SubscribeDone

definition ClientSetup_Type :: "ClientSetup \<Rightarrow> u64" where
  "ClientSetup_Type msg = CLIENT_SETUP"

definition ServerSetup_Type :: "ServerSetup \<Rightarrow> u64" where
  "ServerSetup_Type msg = SERVER_SETUP"

definition Announce_Type :: "Announce \<Rightarrow> u64" where
  "Announce_Type msg = ANNOUNCE"

definition AnnounceOk_Type :: "AnnounceOk \<Rightarrow> u64" where
  "AnnounceOk_Type msg = ANNOUNCE_OK"

definition Subscribe_Type :: "Subscribe \<Rightarrow> u64" where
  "Subscribe_Type msg = SUBSCRIBE"

definition SubscribeOk_Type :: "SubscribeOk \<Rightarrow> u64" where
  "SubscribeOk_Type msg = SUBSCRIBE_OK"

definition Unsubcribe_Type :: "Unsubcribe \<Rightarrow> u64" where
  "Unsubcribe_Type msg = UNSUBSCRIBE"

definition SubscribeDone_Type :: "SubscribeDone \<Rightarrow> u64" where
  "SubscribeDone_Type msg = SUBSCRIBE_DONE"

lemmas message_Type_defs [simp] = ClientSetup_Type_def ServerSetup_Type_def Announce_Type_def AnnounceOk_Type_def
  Subscribe_Type_def SubscribeOk_Type_def Unsubcribe_Type_def SubscribeDone_Type_def

fun MOQTMessage_Type :: "MOQTMessage \<Rightarrow> u64" where
  "MOQTMessage_Type (MsgClientSetup m) = ClientSetup_Type m"
| "MOQTMessage_Type (MsgServerSetup m) = ServerSetup_Type m"
| "MOQTMessage_Type (MsgAnnounce m) = Announce_Type m"
| "MOQTMessage_Type (MsgAnnounceOk m) = AnnounceOk_Type m"
| "MOQTMessage_Type (MsgSubscribe m) = Subscribe_Type m"
| "MOQTMessage_Type (MsgSubscribeOk m) = SubscribeOk_Type m"
| "MOQTMessage_Type (MsgUnsubcribe m) = Unsubcribe_Type m"
| "MOQTMessage_Type (MsgSubscribeDone m) = SubscribeDone_Type m"

fun MOQTMessage_GetBytes :: "quicvarint \<Rightarrow> MOQTMessage \<Rightarrow> bytes option" where
  "MOQTMessage_GetBytes qv (MsgClientSetup m) = ClientSetup_GetBytes qv m"
| "MOQTMessage_GetBytes qv (MsgServerSetup m) = ServerSetup_GetBytes qv m"
| "MOQTMessage_GetBytes qv (MsgAnnounce m) = Announce_GetBytes qv m"
| "MOQTMessage_GetBytes qv (MsgAnnounceOk m) = AnnounceOk_GetBytes qv m"
| "MOQTMessage_GetBytes qv (MsgSubscribe m) = Subscribe_GetBytes qv m"
| "MOQTMessage_GetBytes qv (MsgSubscribeOk m) = SubscribeOk_GetBytes qv m"
| "MOQTMessage_GetBytes qv (MsgUnsubcribe m) = Unsubcribe_GetBytes qv m"
| "MOQTMessage_GetBytes qv (MsgSubscribeDone m) = SubscribeDone_GetBytes qv m"

text \<open>The zero values \<open>&ClientSetup{}\<close> and so on.\<close>

definition zero_ClientSetup :: ClientSetup where
  "zero_ClientSetup = \<lparr>SupportedVersions = [], csetup_Params = []\<rparr>"
definition zero_ServerSetup :: ServerSetup where
  "zero_ServerSetup = \<lparr>SelectedVersion = 0, ssetup_Params = []\<rparr>"
definition zero_Announce :: Announce where
  "zero_Announce = \<lparr>ann_TrackNameSpace = '''', ann_params = []\<rparr>"
definition zero_AnnounceOk :: AnnounceOk where
  "zero_AnnounceOk = \<lparr>annok_TrackNameSpace = ''''\<rparr>"
definition zero_Subscribe :: Subscribe where
  "zero_Subscribe = \<lparr>sub_SubscribeID = 0, sub_TrackAlias = 0, sub_TrackNameSpace = '''',
     sub_TrackName = '''', sub_FilterType = 0, sub_StartGroup = 0, sub_StartObject = 0,
     sub_EndGroup = 0, sub_EndObject = 0, sub_Params = []\<rparr>"
definition zero_SubscribeOk :: SubscribeOk where
  "zero_SubscribeOk = \<lparr>subok_SubscribeID = 0, subok_Expires = 0, subok_ContentExists = 0,
     largestGroupId = 0, largestObjectId = 0\<rparr>"
definition zero_Unsubcribe :: Unsubcribe where
  "zero_Unsubcribe = \<lparr>SubscriptionID = 0\<rparr>"
definition zero_SubscribeDone :: SubscribeDone where
  "zero_SubscribeDone = \<lparr>done_SubscribeID = 0, done_StatusCode = 0, done_ReasonPhrase = '''',
     done_ContentExists = 0, done_FinalGroup = 0, done_FinalObject = 0\<rparr>"

lemmas zero_defs = zero_ClientSetup_def zero_ServerSetup_def zero_Announce_def zero_AnnounceOk_def
  zero_Subscribe_def zero_SubscribeOk_def zero_Unsubcribe_def zero_SubscribeDone_def

text \<open>\<open>msg.Parse(reader)\<close> with its error dropped.\<close>

definition parse_unchecked ::
  "('m \<Rightarrow> MOQTMessage) \<Rightarrow> 'm step \<Rightarrow> 'm \<Rightarrow> reader \<Rightarrow> ((goerror + MOQTMessage) \<times> reader) option" where
  "parse_unchecked con parse zero r = (case parse zero r of
      None \<Rightarrow> None
    | Some (m, _, r') \<Rightarrow> Some (Inr (con m), r'))"

definition ParseMOQTMessage :: "quicvarint \<Rightarrow> reader \<Rightarrow> ((goerror + MOQTMessage) \<times> reader) option" where
  "ParseMOQTMessage qv r = (case qv_Read qv r of
      (Inl e, r') \<Rightarrow> Some (Inl e, r')
    | (Inr mtype, r') \<Rightarrow>
       if mtype = CLIENT_SETUP then parse_unchecked MsgClientSetup (ClientSetup_Parse qv) zero_ClientSetup r'
       else if mtype = SERVER_SETUP then parse_unchecked MsgServerSetup (ServerSetup_Parse qv) zero_ServerSetup r'
       else if mtype = ANNOUNCE then parse_unchecked MsgAnnounce (Announce_Parse qv) zero_Announce r'
       else if mtype = ANNOUNCE_OK then parse_unchecked MsgAnnounceOk (AnnounceOk_Parse qv) zero_AnnounceOk r'
       else if mtype = SUBSCRIBE then parse_unchecked MsgSubscribe (Subscribe_Parse qv) zero_Subscribe r'
       else if mtype = SUBSCRIBE_OK then parse_unchecked MsgSubscribeOk (SubscribeOk_Parse qv) zero_SubscribeOk r'
       else if mtype = UNSUBSCRIBE then parse_unchecked MsgUnsubcribe (Unsubcribe_Parse qv) zero_Unsubcribe r'
       else if mtype = SUBSCRIBE_DONE then parse_unchecked MsgSubscribeDone (SubscribeDone_Parse qv) zero_SubscribeDone r'
       else Some (Inl (Errorf ''unkown MOQT Message''), r'))"

section \<open>Well-formed messages\<close>

text \<open>Messages whose fields can be written: integers below \<open>2^62\<close>, strings that fit an
  allocation, parameters of the known types.\<close>

fun message_ok :: "MOQTMessage \<Rightarrow> bool" where
  "message_ok (MsgClientSetup m) = (length (SupportedVersions m) < 2 ^ 62 \<and>
     list_all fits62 (SupportedVersions m) \<and> Parameters_ok (csetup_Params m))"
| "message_ok (MsgServerSetup m) = (fits62 (SelectedVersion m) \<and> Parameters_ok (ssetup_Params m))"
| "message_ok (MsgAnnounce m) = (string_ok (ann_TrackNameSpace m) \<and> Parameters_ok (ann_params m))"
| "message_ok (MsgAnnounceOk m) = string_ok (annok_TrackNameSpace m)"
| "message_ok (MsgSubscribe m) = (fits62 (sub_SubscribeID m) \<and> fits62 (sub_TrackAlias m) \<and>
     string_ok (sub_TrackNameSpace m) \<and> string_ok (sub_TrackName m) \<and> fits62 (sub_FilterType m) \<and>
     fits62 (sub_StartGroup m) \<and> fits62 (sub_StartObject m) \<and> fits62 (sub_EndGroup m) \<and>
     fits62 (sub_EndObject m) \<and> Parameters_ok (sub_Params m))"
| "message_ok (MsgSubscribeOk m) = (fits62 (subok_SubscribeID m) \<and> fits62 (subok_Expires m) \<and>
     fits62 (largestGroupId m) \<and> fits62 (largestObjectId m))"
| "message_ok (MsgUnsubcribe m) = fits62 (SubscriptionID m)"
| "message_ok (MsgSubscribeDone m) = (fits62 (done_SubscribeID m) \<and> fits62 (done_StatusCode m) \<and>
     string_ok (done_ReasonPhrase m) \<and> fits62 (done_FinalGroup m) \<and> fits62 (done_FinalObject m))"

text \<open>What a reader sees of a message: the fields that are not on the wire are zero, and the
  two location fields of \<open>SUBSCRIBE_OK\<close> come back mixed up.\<close>

fun wire_view :: "MOQTMessage \<Rightarrow> MOQTMessage" where
  "wire_view (MsgSubscribe m) = MsgSubscribe (m\<lparr>
      sub_StartGroup := (if has_start m then sub_StartGroup m else 0),
      sub_StartObject := (if has_start m then sub_StartObject m else 0),
      sub_EndGroup := (if has_end m then sub_EndGroup m else 0),
      sub_EndObject := (if has_end m then sub_EndObject m else 0)\<rparr>)"
| "wire_view (MsgSubscribeOk m) = MsgSubscribeOk (m\<lparr>
      largestGroupId := 0,
      largestObjectId := (if subok_ContentExists m = 1 then largestGroupId m else 0)\<rparr>)"
| "wire_view m = m"

fun has_type_prefix :: "MOQTMessage \<Rightarrow> bool" where
  "has_type_prefix (MsgSubscribeDone _) = False"
| "has_type_prefix _ = True"

text \<open>The messages that survive the trip unchanged.\<close>

definition faithful :: "MOQTMessage \<Rightarrow> bool" where
  "faithful m \<longleftrightarrow> message_ok m \<and> has_type_prefix m \<and> wire_view m = m"

lemma mtype_fits [simp]:
  "fits62 SUBSCRIBE" "fits62 SUBSCRIBE_OK" "fits62 ANNOUNCE" "fits62 ANNOUNCE_OK"
  "fits62 UNSUBSCRIBE" "fits62 SUBSCRIBE_DONE" "fits62 CLIENT_SETUP" "fits62 SERVER_SETUP"
  by (simp_all add: fits62_def mtype_defs)

lemma mtype_distinct:
  "distinct [CLIENT_SETUP, SERVER_SETUP, ANNOUNCE, ANNOUNCE_OK, SUBSCRIBE, SUBSCRIBE_OK, UNSUBSCRIBE, SUBSCRIBE_DONE]"
  by (simp add: mtype_defs)

lemma mtype_distinct':
  "distinct [SUBSCRIBE_DONE, UNSUBSCRIBE, SUBSCRIBE_OK, SUBSCRIBE, ANNOUNCE_OK, ANNOUNCE, SERVER_SETUP, CLIENT_SETUP]"
  by (simp add: mtype_defs)

lemmas mtype_neq [simp] = mtype_distinct [simplified] mtype_distinct' [simplified]

lemma zero_fits [simp]: "fits62 0"
  by (simp add: fits62_def)

section \<open>Sequences of messages\<close>

text \<open>A wire format: an encoder that may panic and a decoder that reads one value off a stream; \<open>view m\<close> is what it makes of the encoding
  of \<open>m\<close>. What holds for one value is lifted to sequences once and for all.\<close>

fun enc_all :: "('m \<Rightarrow> bytes option) \<Rightarrow> 'm list \<Rightarrow> bytes option" where
  "enc_all enc [] = Some []"
| "enc_all enc (m # ms) = do { b \<leftarrow> enc m; bs \<leftarrow> enc_all enc ms; Some (b @ bs) }"

text \<open>Decode until the first error; the fuel bounds the number of values.\<close>

fun dec_all :: "(reader \<Rightarrow> ((goerror + 'm) \<times> reader) option) \<Rightarrow> nat \<Rightarrow> reader
    \<Rightarrow> ('m list \<times> goerror option \<times> reader) option" where
  "dec_all dec 0 r = Some ([], None, r)"
| "dec_all dec (Suc n) r = (case dec r of
      None \<Rightarrow> None
    | Some (Inl e, r') \<Rightarrow> Some ([], Some e, r')
    | Some (Inr m, r') \<Rightarrow> (case dec_all dec n r' of
          None \<Rightarrow> None
        | Some (ms, e, r'') \<Rightarrow> Some (m # ms, e, r'')))"

locale wire_format =
  fixes enc :: "'m \<Rightarrow> bytes option"
    and dec :: "reader \<Rightarrow> ((goerror + 'm) \<times> reader) option"
    and ok :: "'m \<Rightarrow> bool"
    and view :: "'m \<Rightarrow> 'm"
  assumes enc_total: "ok m \<Longrightarrow> enc m \<noteq> None"
    and dec_enc: "ok m \<Longrightarrow> enc m = Some b \<Longrightarrow>
      dec (r\<lparr>rd_data := b @ rest\<rparr>) = Some (Inr (view m), r\<lparr>rd_data := rest\<rparr>)"
    and dec_at_end: "rd_data r = [] \<Longrightarrow> dec r = Some (Inl (rd_end r), r)"
begin

lemma enc_all_total: "list_all ok ms \<Longrightarrow> enc_all enc ms \<noteq> None"
  by (induction ms) (auto dest: enc_total)

lemma dec_all_enc_all:
  assumes "list_all ok ms" and "enc_all enc ms = Some b" and "length ms < n"
  shows "dec_all dec n (r\<lparr>rd_data := b\<rparr>) = Some (map view ms, Some (rd_end r), r\<lparr>rd_data := []\<rparr>)"
  using assms
proof (induction ms arbitrary: b n)
  case Nil
  then show ?case by (cases n) (auto simp: dec_at_end)
next
  case (Cons m ms)
  then obtain b1 b2 where b: "enc m = Some b1" "enc_all enc ms = Some b2" "b = b1 @ b2"
    by (auto simp: bind_eq_Some_conv)
  moreover obtain n' where "n = Suc n'" "length ms < n'" using Cons.prems by (cases n) auto
  ultimately show ?case using Cons dec_enc [OF _ b(1)] by simp
qed

end

section \<open>Encoders and decoders agree\<close>

context varint_codec
begin

lemma append_if_ok [wire_simps]: "fits62 v \<Longrightarrow> append_if qv c data v = Some (data @ (if c then venc qv v else []))"
  by (simp add: append_if_def Append_fits)

lemma params_step_enc [wire_simps]:
  "Parameters_ok ps \<Longrightarrow> params_step qv upd m (r\<lparr>rd_data := params_enc qv ps @ rest\<rparr>)
     = Some (upd ps m, None, r\<lparr>rd_data := rest\<rparr>)"
  by (simp add: params_step_def Parameters_GetBytes_enc)

lemma params_step_unchecked_enc [wire_simps]:
  "Parameters_ok ps \<Longrightarrow> params_step_unchecked qv upd m (r\<lparr>rd_data := params_enc qv ps @ rest\<rparr>)
     = Some (upd ps m, None, r\<lparr>rd_data := rest\<rparr>)"
  by (simp add: params_step_unchecked_def Parameters_GetBytes_enc)

text \<open>The last field of a message has nothing after it.\<close>

lemma append_params_len [wire_simps]:
  assumes "Parameters_ok ps"
  shows "Option.bind (qv_Append qv data (word_of_nat (length ps))) (append_params qv ps)
    = Some (data @ params_enc qv ps)"
proof -
  have fit: "fits62 (word_of_nat (length ps))"
    using Parameters_ok_length [OF assms] by (intro fits62_small) (simp add: maxAlloc_def)
  from append_params_enc [OF assms] obtain b where
    b: "\<And>data. append_params qv ps data = Some (data @ b)" by blast
  then have "params_enc qv ps = venc qv (word_of_nat (length ps)) @ b"
    using fit by (simp add: params_enc_def Parameters_GetBytes_def Append_fits)
  then show ?thesis using fit b by (simp add: Append_fits)
qed

lemma append_versions_ok:
  "list_all fits62 vs \<Longrightarrow> append_versions qv vs data = Some (data @ concat (map (venc qv) vs))"
  by (induction vs arbitrary: data) (auto simp: Append_fits)

lemma versions_loop_enc:
  "list_all fits62 vs \<Longrightarrow>
     versions_loop qv (length vs) s (r\<lparr>rd_data := concat (map (venc qv) vs) @ rest\<rparr>)
       = Some (s\<lparr>SupportedVersions := SupportedVersions s @ vs\<rparr>, None, r\<lparr>rd_data := rest\<rparr>)"
  by (induction vs arbitrary: s) (auto simp: Read_venc)

lemma fits_length: "n < 2 ^ 62 \<Longrightarrow> fits62 (word_of_nat n) \<and> unat (word_of_nat n :: u64) = n"
  by (simp add: fits62_def unat_of_length)

lemma string_len_fits: "string_ok s \<Longrightarrow> fits62 (word_of_nat (length s))"
  by (simp add: string_ok_def fits62_small)

lemmas enc_simps = Append_fits string_len_fits GetBytesVarIntString_ok append_if_ok
  Parameters_GetBytes_enc(1)

lemmas dec_simps = varint_step_venc string_step_enc byte_step_Cons params_step_enc
  params_step_unchecked_enc

lemma ClientSetup_trip:
  assumes "message_ok (MsgClientSetup m)"
  shows "\<exists>b. ClientSetup_GetBytes qv m = Some (venc qv CLIENT_SETUP @ b) \<and>
    (\<forall>r rest. ClientSetup_Parse qv zero_ClientSetup (r\<lparr>rd_data := b @ rest\<rparr>) = Some (m, None, r\<lparr>rd_data := rest\<rparr>))"
proof -
  let ?vs = "SupportedVersions m"
  have fit: "fits62 (word_of_nat (length ?vs))" "unat (word_of_nat (length ?vs) :: u64) = length ?vs"
    using assms fits_length by auto
  show ?thesis
    using assms fit append_params_len [of "csetup_Params m"]
    by (intro exI [of _ "venc qv (word_of_nat (length ?vs)) @ concat (map (venc qv) ?vs) @ params_enc qv (csetup_Params m)"])
      (simp add: ClientSetup_GetBytes_def ClientSetup_Parse_def Append_fits append_versions_ok
        Read_venc versions_loop_enc params_step_unchecked_enc zero_ClientSetup_def)
qed

lemma ServerSetup_trip:
  assumes "message_ok (MsgServerSetup m)"
  shows "\<exists>b. ServerSetup_GetBytes qv m = Some (venc qv SERVER_SETUP @ b) \<and>
    (\<forall>r rest. ServerSetup_Parse qv zero_ServerSetup (r\<lparr>rd_data := b @ rest\<rparr>) = Some (m, None, r\<lparr>rd_data := rest\<rparr>))"
  using assms append_params_len [of "ssetup_Params m"]
  by (intro exI [of _ "venc qv (SelectedVersion m) @ params_enc qv (ssetup_Params m)"])
    (simp add: ServerSetup_GetBytes_def ServerSetup_Parse_def Append_fits dec_simps zero_ServerSetup_def)

lemma Announce_trip:
  assumes "message_ok (MsgAnnounce m)"
  shows "\<exists>b. Announce_GetBytes qv m = Some (venc qv ANNOUNCE @ b) \<and>
    (\<forall>r rest. Announce_Parse qv zero_Announce (r\<lparr>rd_data := b @ rest\<rparr>) = Some (m, None, r\<lparr>rd_data := rest\<rparr>))"
  using assms
  by (intro exI [of _ "venc qv (word_of_nat (length (ann_TrackNameSpace m))) @
      bytes_of_string (ann_TrackNameSpace m) @ params_enc qv (ann_params m)"])
    (simp add: Announce_GetBytes_def Announce_Parse_def enc_simps dec_simps zero_Announce_def)

lemma AnnounceOk_trip:
  assumes "message_ok (MsgAnnounceOk m)"
  shows "\<exists>b. AnnounceOk_GetBytes qv m = Some (venc qv ANNOUNCE_OK @ b) \<and>
    (\<forall>r rest. AnnounceOk_Parse qv zero_AnnounceOk (r\<lparr>rd_data := b @ rest\<rparr>) = Some (m, None, r\<lparr>rd_data := rest\<rparr>))"
  using assms
  by (intro exI [of _ "venc qv (word_of_nat (length (annok_TrackNameSpace m))) @
      bytes_of_string (annok_TrackNameSpace m)"])
    (simp add: AnnounceOk_GetBytes_def AnnounceOk_Parse_def enc_simps dec_simps zero_AnnounceOk_def)

lemma Subscribe_trip:
  assumes "message_ok (MsgSubscribe m)" and "wire_view (MsgSubscribe m) = MsgSubscribe v"
  shows "\<exists>b. Subscribe_GetBytes qv m = Some (venc qv SUBSCRIBE @ b) \<and>
    (\<forall>r rest. Subscribe_Parse qv zero_Subscribe (r\<lparr>rd_data := b @ rest\<rparr>) = Some (v, None, r\<lparr>rd_data := rest\<rparr>))"
  using assms
  by (intro exI [of _ "venc qv (sub_SubscribeID m) @ venc qv (sub_TrackAlias m) @
        venc qv (word_of_nat (length (sub_TrackNameSpace m))) @ bytes_of_string (sub_TrackNameSpace m) @
        venc qv (word_of_nat (length (sub_TrackName m))) @ bytes_of_string (sub_TrackName m) @
        venc qv (sub_FilterType m) @
        (if has_start m then venc qv (sub_StartGroup m) @ venc qv (sub_StartObject m) else []) @
        (if has_end m then venc qv (sub_EndGroup m) @ venc qv (sub_EndObject m) else []) @
        params_enc qv (sub_Params m)"])
    (auto simp: Subscribe_GetBytes_def Subscribe_Parse_def enc_simps dec_simps zero_Subscribe_def
      has_start_def has_end_def)

lemma SubscribeOk_trip:
  assumes "message_ok (MsgSubscribeOk m)" and "wire_view (MsgSubscribeOk m) = MsgSubscribeOk v"
  shows "\<exists>b. SubscribeOk_GetBytes qv m = Some (venc qv SUBSCRIBE_OK @ b) \<and>
    (\<forall>r rest. SubscribeOk_Parse qv zero_SubscribeOk (r\<lparr>rd_data := b @ rest\<rparr>) = Some (v, None, r\<lparr>rd_data := rest\<rparr>))"
  using assms
  by (intro exI [of _ "venc qv (subok_SubscribeID m) @ venc qv (subok_Expires m) @ [subok_ContentExists m] @
        (if subok_ContentExists m = 1 then venc qv (largestObjectId m) @ venc qv (largestGroupId m) else [])"])
    (auto simp: SubscribeOk_GetBytes_def SubscribeOk_Parse_def enc_simps dec_simps zero_SubscribeOk_def)

lemma Unsubcribe_trip:
  assumes "message_ok (MsgUnsubcribe m)"
  shows "\<exists>b. Unsubcribe_GetBytes qv m = Some (venc qv UNSUBSCRIBE @ b) \<and>
    (\<forall>r rest. Unsubcribe_Parse qv zero_Unsubcribe (r\<lparr>rd_data := b @ rest\<rparr>) = Some (m, None, r\<lparr>rd_data := rest\<rparr>))"
  using assms
  by (intro exI [of _ "venc qv (SubscriptionID m)"])
    (simp add: Unsubcribe_GetBytes_def Unsubcribe_Parse_def enc_simps dec_simps zero_Unsubcribe_def)

lemma parse_unchecked_Some [simp]:
  "parse zero r = Some (m, e, r') \<Longrightarrow> parse_unchecked con parse zero r = Some (Inr (con m), r')"
  by (simp add: parse_unchecked_def)

text \<open>Every message but \<open>SUBSCRIBE_DONE\<close> is encoded without a panic, and the dispatcher reads its
  wire view back and leaves the rest of the stream.\<close>

lemma message_trip:
  assumes "message_ok m" and "has_type_prefix m"
  shows "\<exists>b. MOQTMessage_GetBytes qv m = Some b \<and>
    (\<forall>r rest. ParseMOQTMessage qv (r\<lparr>rd_data := b @ rest\<rparr>) = Some (Inr (wire_view m), r\<lparr>rd_data := rest\<rparr>))"
proof (cases m)
  case (MsgClientSetup x)
  with assms ClientSetup_trip [of x] show ?thesis by (auto simp: ParseMOQTMessage_def Read_venc)
next
  case (MsgServerSetup x)
  with assms ServerSetup_trip [of x] show ?thesis by (auto simp: ParseMOQTMessage_def Read_venc)
next
  case (MsgAnnounce x)
  with assms Announce_trip [of x] show ?thesis by (auto simp: ParseMOQTMessage_def Read_venc)
next
  case (MsgAnnounceOk x)
  with assms AnnounceOk_trip [of x] show ?thesis by (auto simp: ParseMOQTMessage_def Read_venc)
next
  case (MsgSubscribe x)
  then obtain v where v: "wire_view m = MsgSubscribe v" by auto
  with assms MsgSubscribe Subscribe_trip [of x v] show ?thesis by (auto simp: ParseMOQTMessage_def Read_venc)
next
  case (MsgSubscribeOk x)
  then obtain v where v: "wire_view m = MsgSubscribeOk v" by auto
  with assms MsgSubscribeOk SubscribeOk_trip [of x v] show ?thesis by (auto simp: ParseMOQTMessage_def Read_venc)
next
  case (MsgUnsubcribe x)
  with assms Unsubcribe_trip [of x] show ?thesis by (auto simp: ParseMOQTMessage_def Read_venc)
qed (use assms in auto)

text \<open>\<open>SUBSCRIBE_DONE\<close> starts with the subscription where the message type should be.\<close>

lemma SubscribeDone_GetBytes_enc:
  assumes "message_ok (MsgSubscribeDone m)"
  shows "\<exists>b. SubscribeDone_GetBytes qv m = Some (venc qv (done_SubscribeID m) @ b)"
  using assms by (auto simp: SubscribeDone_GetBytes_def enc_simps)

lemma message_GetBytes_total:
  assumes "message_ok m"
  shows "MOQTMessage_GetBytes qv m \<noteq> None"
proof (cases "has_type_prefix m")
  case True
  with message_trip [OF assms] show ?thesis by auto
next
  case False
  then obtain d where "m = MsgSubscribeDone d" by (cases m) auto
  with assms SubscribeDone_GetBytes_enc [of d] show ?thesis by auto
qed

lemma params_step_keeps:
  "(\<And>ps m. P m \<Longrightarrow> Parameters_ok ps \<Longrightarrow> P (upd ps m)) \<Longrightarrow> step_keeps P (params_step qv upd)"
  by (auto simp: step_keeps_def params_step_def split: option.splits prod.splits
      dest!: step_keepsD [OF Parameters_Parse_ok Parameters_ok_Nil])

lemma params_step_unchecked_keeps:
  "(\<And>ps m. P m \<Longrightarrow> Parameters_ok ps \<Longrightarrow> P (upd ps m)) \<Longrightarrow> step_keeps P (params_step_unchecked qv upd)"
  by (auto simp: step_keeps_def params_step_unchecked_def split: option.splits prod.splits
      dest!: step_keepsD [OF Parameters_Parse_ok Parameters_ok_Nil])

lemma versions_loop_ok:
  "versions_loop qv n s r = Some (s', e, r') \<Longrightarrow> list_all fits62 (SupportedVersions s) \<Longrightarrow>
     list_all fits62 (SupportedVersions s') \<and> csetup_Params s' = csetup_Params s \<and>
     length (SupportedVersions s') \<le> length (SupportedVersions s) + n"
proof (induction n arbitrary: s r)
  case (Suc n)
  then show ?case
    by (fastforce split: prod.splits sum.splits dest: Read_fits)
qed simp

lemma ClientSetup_Parse_ok:
  assumes "ClientSetup_Parse qv zero_ClientSetup r = Some (m, e, r')"
  shows "message_ok (MsgClientSetup m)"
proof (cases "qv_Read qv r")
  case (Pair v r1)
  show ?thesis
  proof (cases v)
    case (Inl err)
    with Pair assms show ?thesis by (auto simp: ClientSetup_Parse_def zero_ClientSetup_def)
  next
    case (Inr n)
    with Pair have "unat n < 2 ^ 62" using Read_fits by (auto simp: fits62_def)
    moreover have "step_keeps Parameters_ok (Parameters_Parse qv)" by (rule Parameters_Parse_ok)
    ultimately show ?thesis using Pair Inr assms
      by (auto simp: ClientSetup_Parse_def zero_ClientSetup_def params_step_unchecked_def
          split: option.splits prod.splits
          dest!: versions_loop_ok step_keepsD [OF Parameters_Parse_ok Parameters_ok_Nil])
  qed
qed

lemmas field_keeps = varint_step_keeps string_step_keeps byte_step_keeps when_step_keeps
  params_step_keeps params_step_unchecked_keeps

lemmas Parse_defs = ServerSetup_Parse_def Announce_Parse_def AnnounceOk_Parse_def
  Subscribe_Parse_def SubscribeOk_Parse_def Unsubcribe_Parse_def SubscribeDone_Parse_def

lemma Parse_keeps_ok:
  "step_keeps (\<lambda>m. message_ok (MsgServerSetup m)) (ServerSetup_Parse qv)"
  "step_keeps (\<lambda>m. message_ok (MsgAnnounce m)) (Announce_Parse qv)"
  "step_keeps (\<lambda>m. message_ok (MsgAnnounceOk m)) (AnnounceOk_Parse qv)"
  "step_keeps (\<lambda>m. message_ok (MsgSubscribe m)) (Subscribe_Parse qv)"
  "step_keeps (\<lambda>m. message_ok (MsgSubscribeOk m)) (SubscribeOk_Parse qv)"
  "step_keeps (\<lambda>m. message_ok (MsgUnsubcribe m)) (Unsubcribe_Parse qv)"
  "step_keeps (\<lambda>m. message_ok (MsgSubscribeDone m)) (SubscribeDone_Parse qv)"
  by (auto simp: Parse_defs intro!: run_steps_keeps field_keeps)

lemma zero_message_ok:
  "message_ok (MsgServerSetup zero_ServerSetup)" "message_ok (MsgAnnounce zero_Announce)"
  "message_ok (MsgAnnounceOk zero_AnnounceOk)" "message_ok (MsgSubscribe zero_Subscribe)"
  "message_ok (MsgSubscribeOk zero_SubscribeOk)" "message_ok (MsgUnsubcribe zero_Unsubcribe)"
  "message_ok (MsgSubscribeDone zero_SubscribeDone)"
  by (simp_all add: zero_defs string_ok_def)

lemma parse_unchecked_ok:
  assumes "parse_unchecked con parse zero r = Some (Inr m, r')"
    and "step_keeps (\<lambda>m. message_ok (con m)) parse" and "message_ok (con zero)"
  shows "message_ok m"
  using assms by (auto simp: parse_unchecked_def split: option.splits prod.splits dest: step_keepsD)

lemma ParseMOQTMessage_ok:
  assumes "ParseMOQTMessage qv r = Some (Inr m, r')"
  shows "message_ok m"
  using assms
  by (auto simp: ParseMOQTMessage_def split: prod.split_asm sum.split_asm if_split_asm
      elim!: parse_unchecked_ok [OF _ Parse_keeps_ok(1) zero_message_ok(1)]
        parse_unchecked_ok [OF _ Parse_keeps_ok(2) zero_message_ok(2)]
        parse_unchecked_ok [OF _ Parse_keeps_ok(3) zero_message_ok(3)]
        parse_unchecked_ok [OF _ Parse_keeps_ok(4) zero_message_ok(4)]
        parse_unchecked_ok [OF _ Parse_keeps_ok(5) zero_message_ok(5)]
        parse_unchecked_ok [OF _ Parse_keeps_ok(6) zero_message_ok(6)]
        parse_unchecked_ok [OF _ Parse_keeps_ok(7) zero_message_ok(7)])
    (auto simp: parse_unchecked_def split: option.splits prod.splits dest!: ClientSetup_Parse_ok
      simp del: message_ok.simps)

lemma ParseMOQTMessage_at_end: "rd_data r = [] \<Longrightarrow> ParseMOQTMessage qv r = Some (Inl (rd_end r), r)"
  by (simp add: ParseMOQTMessage_def Read_at_end)

end

text \<open>The messages that are written with their type.\<close>

definition typed_ok :: "MOQTMessage \<Rightarrow> bool" where
  "typed_ok m \<longleftrightarrow> message_ok m \<and> has_type_prefix m"

sublocale varint_codec \<subseteq> msgs: wire_format "MOQTMessage_GetBytes qv" "ParseMOQTMessage qv" typed_ok wire_view
proof unfold_locales
  show "MOQTMessage_GetBytes qv m \<noteq> None" if "typed_ok m" for m using that message_GetBytes_total by (simp add: typed_ok_def)
  show "ParseMOQTMessage qv (r\<lparr>rd_data := b @ rest\<rparr>) = Some (Inr (wire_view m), r\<lparr>rd_data := rest\<rparr>)"
    if "typed_ok m" "MOQTMessage_GetBytes qv m = Some b" for m b r rest
    using that message_trip [of m] by (auto simp: typed_ok_def)
qed (rule ParseMOQTMessage_at_end)

context varint_codec
begin

text \<open>The messages that survive the trip unchanged.\<close>

lemma faithful_trip:
  assumes "faithful m" and "MOQTMessage_GetBytes qv m = Some b"
  shows "ParseMOQTMessage qv (r\<lparr>rd_data := b @ rest\<rparr>) = Some (Inr m, r\<lparr>rd_data := rest\<rparr>)"
  using assms msgs.dec_enc [where m = m and b = b] by (simp add: faithful_def typed_ok_def)

lemma message_stream_trip:
  assumes "list_all typed_ok ms"
  shows "\<exists>b. enc_all (MOQTMessage_GetBytes qv) ms = Some b \<and>
    (\<forall>r. dec_all (ParseMOQTMessage qv) (Suc (length ms)) (r\<lparr>rd_data := b\<rparr>)
       = Some (map wire_view ms, Some (rd_end r), r\<lparr>rd_data := []\<rparr>))"
  using msgs.enc_all_total [OF assms] msgs.dec_all_enc_all [OF assms, where n = "Suc (length ms)"]
  by fastforce

end

section \<open>Properties\<close>

definition message_types :: "u64 set" where
  "message_types = {CLIENT_SETUP, SERVER_SETUP, ANNOUNCE, ANNOUNCE_OK, SUBSCRIBE, SUBSCRIBE_OK, UNSUBSCRIBE, SUBSCRIBE_DONE}"

text \<open>\<open>SUBSCRIBE_DONE\<close> is written without its type. The first integer of an encoded
  \<open>SUBSCRIBE_DONE\<close> is its subscription, and the dispatcher takes it for the message type: with a
  subscription number that is not a known type the message is refused as unknown.\<close>

lemma subscribe_done_unreadable:
  assumes "varint_codec qv" and "message_ok (MsgSubscribeDone m)" and "done_SubscribeID m \<notin> message_types"
  shows "\<exists>b. MOQTMessage_GetBytes qv (MsgSubscribeDone m) = Some b \<and>
    (\<forall>r rest. \<exists>r'. ParseMOQTMessage qv (r\<lparr>rd_data := b @ rest\<rparr>)
       = Some (Inl (Errorf ''unkown MOQT Message''), r'))"
  using varint_codec.SubscribeDone_GetBytes_enc [OF assms(1,2)] assms
  by (auto simp: message_types_def ParseMOQTMessage_def varint_codec.Read_venc)

text \<open>Property C12 (round trip of a control message). Every well-formed control message is encoded without a panic. For each kind but
  SUBSCRIBE_DONE, \<open>ParseMOQTMessage\<close> gives back the message, up to what the source does to it (\<open>wire_view\<close>), and leaves
  whatever follows it on the stream untouched: the start and the end of the range of a SUBSCRIBE come back as zero if its filter type leaves them out;
  the largest group of a SUBSCRIBE_OK with content comes back as its largest object, and the group as zero; every other field of every message is what was
  written. A SUBSCRIBE_DONE, which is written without its type, is refused unless its subscription happens to be the number of a message type.\<close>

theorem message_roundtrip:
  assumes "varint_codec qv" and "message_ok m"
  shows "\<exists>b. MOQTMessage_GetBytes qv m = Some b \<and> (\<forall>r rest. case m of
      MsgSubscribeDone d \<Rightarrow> done_SubscribeID d \<notin> message_types \<longrightarrow>
        (\<exists>r'. ParseMOQTMessage qv (r\<lparr>rd_data := b @ rest\<rparr>) = Some (Inl (Errorf ''unkown MOQT Message''), r'))
    | _ \<Rightarrow> ParseMOQTMessage qv (r\<lparr>rd_data := b @ rest\<rparr>) = Some (Inr (wire_view m), r\<lparr>rd_data := rest\<rparr>))"
proof (cases "has_type_prefix m")
  case True
  with varint_codec.message_trip [OF assms] show ?thesis by (cases m) auto
next
  case False
  then obtain d where d: "m = MsgSubscribeDone d" by (cases m) auto
  then show ?thesis
    using subscribe_done_unreadable [OF assms(1), of d] varint_codec.message_GetBytes_total [OF assms] assms(2)
    by (cases "done_SubscribeID d \<in> message_types") auto
qed

definition sample_subscribe :: Subscribe where
  "sample_subscribe = \<lparr>sub_SubscribeID = 77, sub_TrackAlias = 0, sub_TrackNameSpace = ''bbb'',
     sub_TrackName = ''dumeel'', sub_FilterType = LatestGroup, sub_StartGroup = 0, sub_StartObject = 0,
     sub_EndGroup = 0, sub_EndObject = 0, sub_Params = []\<rparr>"

lemma sample_subscribe_faithful: "faithful (MsgSubscribe sample_subscribe)"
  by (simp add: faithful_def sample_subscribe_def string_ok_def maxAlloc_def fits62_def
      has_start_def has_end_def LatestGroup_def AbsoluteStart_def AbsoluteRange_def)

text \<open>A SUBSCRIBE with a range that its filter type leaves out.\<close>

theorem message_roundtrip_witness:
  "\<exists>b. MOQTMessage_GetBytes rfc9000 (MsgSubscribe (sample_subscribe\<lparr>sub_StartGroup := 5\<rparr>)) = Some b \<and>
    (\<forall>r rest. ParseMOQTMessage rfc9000 (r\<lparr>rd_data := b @ rest\<rparr>)
       = Some (Inr (MsgSubscribe sample_subscribe), r\<lparr>rd_data := rest\<rparr>))"
proof -
  have ok: "message_ok (MsgSubscribe (sample_subscribe\<lparr>sub_StartGroup := 5\<rparr>))"
    using sample_subscribe_faithful by (simp add: faithful_def fits62_def)
  have "wire_view (MsgSubscribe (sample_subscribe\<lparr>sub_StartGroup := 5\<rparr>)) = MsgSubscribe sample_subscribe"
    by (simp add: sample_subscribe_def has_start_def has_end_def LatestGroup_def AbsoluteStart_def AbsoluteRange_def)
  with message_roundtrip [OF rfc9000_codec ok] show ?thesis by simp
qed

text \<open>Property C25 (a received message can be forwarded). Whatever message the dispatcher returns, even
  from a damaged stream, has all its integers below \<open>2^62\<close> and strings of a bounded length, so writing it
  again does not panic.\<close>

theorem parsed_message_can_be_written:
  assumes "varint_codec qv" and "ParseMOQTMessage qv r = Some (Inr m, r')"
  shows "message_ok m \<and> (\<exists>b. MOQTMessage_GetBytes qv m = Some b)"
  using varint_codec.ParseMOQTMessage_ok [OF assms] varint_codec.message_GetBytes_total [OF assms(1), of m]
  by blast

theorem parsed_message_can_be_written_witness:
  "ParseMOQTMessage rfc9000 \<lparr>rd_data = [10, 7], rd_end = EOF\<rparr>
     = Some (Inr (MsgUnsubcribe \<lparr>SubscriptionID = 7\<rparr>), \<lparr>rd_data = [], rd_end = EOF\<rparr>) \<and>
   message_ok (MsgUnsubcribe \<lparr>SubscriptionID = 7\<rparr>) \<and>
   (\<exists>b. MOQTMessage_GetBytes rfc9000 (MsgUnsubcribe \<lparr>SubscriptionID = 7\<rparr>) = Some b)"
proof -
  have p: "ParseMOQTMessage rfc9000 \<lparr>rd_data = [10, 7], rd_end = EOF\<rparr>
     = Some (Inr (MsgUnsubcribe \<lparr>SubscriptionID = 7\<rparr>), \<lparr>rd_data = [], rd_end = EOF\<rparr>)"
    by (simp add: ParseMOQTMessage_def rfc9000_eval mtype_defs parse_unchecked_def Unsubcribe_Parse_def
        varint_step_def zero_defs)
  from parsed_message_can_be_written [OF rfc9000_codec p] p show ?thesis by blast
qed

text \<open>Errors inside a message are dropped. Once a known message type has been read, the
  dispatcher never reports an error: whatever the rest of the stream is, it returns a message of that
  type (with the fields it could not read at their zero values) unless an allocation panics.\<close>

lemma message_body_errors_dropped:
  assumes "qv_Read qv r = (Inr t, r')"
    and "t \<in> {CLIENT_SETUP, SERVER_SETUP, ANNOUNCE, ANNOUNCE_OK, SUBSCRIBE, SUBSCRIBE_OK, UNSUBSCRIBE, SUBSCRIBE_DONE}"
  shows "ParseMOQTMessage qv r = None \<or>
    (\<exists>m r''. ParseMOQTMessage qv r = Some (Inr m, r'') \<and> MOQTMessage_Type m = t)"
  using assms by (auto simp: ParseMOQTMessage_def parse_unchecked_def split: option.split)

text \<open>A \<open>SUBSCRIBE\<close> of which only the type arrived is handed on as a \<open>SUBSCRIBE\<close> with all fields zero.\<close>

theorem message_body_errors_dropped_witness:
  "ParseMOQTMessage rfc9000 \<lparr>rd_data = [3], rd_end = EOF\<rparr>
     = Some (Inr (MsgSubscribe zero_Subscribe), \<lparr>rd_data = [], rd_end = EOF\<rparr>) \<and>
   (ParseMOQTMessage rfc9000 \<lparr>rd_data = [3], rd_end = EOF\<rparr> = None \<or>
    (\<exists>m r''. ParseMOQTMessage rfc9000 \<lparr>rd_data = [3], rd_end = EOF\<rparr> = Some (Inr m, r'') \<and>
       MOQTMessage_Type m = SUBSCRIBE))"
proof -
  have r: "qv_Read rfc9000 \<lparr>rd_data = [3], rd_end = EOF\<rparr> = (Inr SUBSCRIBE, \<lparr>rd_data = [], rd_end = EOF\<rparr>)"
    by (simp add: rfc9000_eval mtype_defs)
  have "ParseMOQTMessage rfc9000 \<lparr>rd_data = [3], rd_end = EOF\<rparr>
     = Some (Inr (MsgSubscribe zero_Subscribe), \<lparr>rd_data = [], rd_end = EOF\<rparr>)"
    by (simp add: ParseMOQTMessage_def r parse_unchecked_def Subscribe_Parse_def varint_step_def)
      (simp add: rfc9000_eval)
  with message_body_errors_dropped [OF r] show ?thesis by simp
qed

text \<open>\<open>SUBSCRIBE_OK\<close> with content. When content exists, the largest group is what the
  reader stores as the largest object, the largest object is lost and the largest group reads as zero.\<close>

lemma subscribe_ok_location_mixed_up:
  assumes "varint_codec qv" and "message_ok (MsgSubscribeOk m)" and "subok_ContentExists m = 1"
  shows "\<exists>b. MOQTMessage_GetBytes qv (MsgSubscribeOk m) = Some b \<and>
    (\<forall>r rest. ParseMOQTMessage qv (r\<lparr>rd_data := b @ rest\<rparr>) =
      Some (Inr (MsgSubscribeOk (m\<lparr>largestGroupId := 0, largestObjectId := largestGroupId m\<rparr>)),
            r\<lparr>rd_data := rest\<rparr>))"
  using varint_codec.message_trip [OF assms(1,2)] assms(3) by simp

definition sample_ok :: SubscribeOk where
  "sample_ok = \<lparr>subok_SubscribeID = 7, subok_Expires = 0, subok_ContentExists = 1,
     largestGroupId = 5, largestObjectId = 9\<rparr>"

theorem subscribe_ok_location_mixed_up_witness:
  "message_ok (MsgSubscribeOk sample_ok) \<and> subok_ContentExists sample_ok = 1 \<and>
   (\<exists>b. MOQTMessage_GetBytes rfc9000 (MsgSubscribeOk sample_ok) = Some b \<and>
    (\<forall>r rest. ParseMOQTMessage rfc9000 (r\<lparr>rd_data := b @ rest\<rparr>) =
      Some (Inr (MsgSubscribeOk (sample_ok\<lparr>largestGroupId := 0, largestObjectId := 5\<rparr>)), r\<lparr>rd_data := rest\<rparr>)))"
proof -
  have ok: "message_ok (MsgSubscribeOk sample_ok)" and c: "subok_ContentExists sample_ok = 1"
    and g: "largestGroupId sample_ok = 5"
    by (simp_all add: sample_ok_def fits62_def)
  from subscribe_ok_location_mixed_up [OF rfc9000_codec ok c] ok c g show ?thesis by simp
qed

text \<open>A SUBSCRIBE_DONE for the subscription 77.\<close>

theorem subscribe_done_unreadable_witness:
  "\<exists>b. MOQTMessage_GetBytes rfc9000 (MsgSubscribeDone (zero_SubscribeDone\<lparr>done_SubscribeID := 77\<rparr>)) = Some b \<and>
    (\<forall>r rest. \<exists>r'. ParseMOQTMessage rfc9000 (r\<lparr>rd_data := b @ rest\<rparr>)
       = Some (Inl (Errorf ''unkown MOQT Message''), r'))"
  by (rule subscribe_done_unreadable)
    (simp_all add: message_types_def zero_defs string_ok_def fits62_def mtype_defs)

text \<open>A length from the wire can end the process. An \<open>ANNOUNCE\<close> that declares a namespace
  longer than the runtime can allocate makes \<open>make([]byte, len)\<close> panic, whatever follows.\<close>

lemma announce_length_panics:
  assumes "varint_codec qv" and "fits62 len" and "maxAlloc < unat len"
  shows "ParseMOQTMessage qv (r\<lparr>rd_data := venc qv ANNOUNCE @ venc qv len @ rest\<rparr>) = None"
  using assms
  by (simp add: ParseMOQTMessage_def varint_codec.Read_venc parse_unchecked_def Announce_Parse_def
      string_step_def ParseVarIntString_def make_ReadFull_def make_ok_def)

theorem announce_length_panics_witness:
  "ParseMOQTMessage rfc9000 \<lparr>rd_data = venc rfc9000 ANNOUNCE @ venc rfc9000 (2 ^ 61) @ [], rd_end = EOF\<rparr> = None"
proof -
  have "fits62 (2 ^ 61)" and "maxAlloc < unat (2 ^ 61 :: u64)"
    by (simp_all add: fits62_def maxAlloc_def)
  from announce_length_panics [OF rfc9000_codec this, where r = "\<lparr>rd_data = [], rd_end = EOF\<rparr>" and rest = "[]"]
  show ?thesis by simp
qed

end
