(* ===== verification/H3_Frames.thy ===== *)
theory H3_Frames
  imports Wire_Messages
begin

text \<open>
  The HTTP/3 frames of \<open>src/h3\<close>: \<open>frame.go\<close>, \<open>settingsframe.go\<close>, \<open>dataframe.go\<close> and \<open>headerframe.go\<close>. The package
  \<open>github.com/quic-go/qpack\<close> is a parameter: a record with what \<open>Decode\<close> returns call by call (the fields up to the first
  error, and that error), what is in the buffer after \<open>WriteField\<close> was called on each field, and \<open>IsPseudo\<close>. The code
  relies on one law, that decoding gives back what was encoded (locale \<open>h3_codec\<close>); QPACK's own literal representation
  without Huffman coding and without the dynamic table is an instance.

  The loop of \<open>SettingsFrame.Parse\<close> counts a 64-bit number down by the length that each setting should have had, and
  may never meet zero. It is a partial function: \<^const>\<open>None\<close> is a loop that does not end, so in the results of the
  parsers \<^const>\<open>None\<close> stands for a call that does not return, because of a panic or of this loop.

  Shown here: every frame is read back as it was written, also in sequences; a settings frame with a payload of one byte
  makes the parser loop for ever; what \<open>WrapRequest\<close> makes of the fields of a header frame.
\<close>

section \<open>Frame types and settings\<close>

definition FRAME_DATA :: u64 where "FRAME_DATA = 0x00"
definition FRAME_HEADERS :: u64 where "FRAME_HEADERS = 0x01"
definition FRAME_SETTINGS :: u64 where "FRAME_SETTINGS = 0x04"
definition FRAME_WEBTRANSPORT_UNI_STREAM :: u64 where "FRAME_WEBTRANSPORT_UNI_STREAM = 0x54"
definition FRAME_WEBTRANSPORT_BI_STREAM :: u64 where "FRAME_WEBTRANSPORT_BI_STREAM = 0x41"

lemmas frame_type_defs = FRAME_DATA_def FRAME_HEADERS_def FRAME_SETTINGS_def FRAME_WEBTRANSPORT_UNI_STREAM_def
  FRAME_WEBTRANSPORT_BI_STREAM_def

definition H3_DATAGRAM_05 :: u64 where "H3_DATAGRAM_05 = 0xffd277"
definition ENABLE_WEBTRANSPORT :: u64 where "ENABLE_WEBTRANSPORT = 0x2b603742"
definition WEBTRANSPORT_MAX_SESSIONS :: u64 where "WEBTRANSPORT_MAX_SESSIONS = 0xc671706a"
definition SETTINGS_H3_DATAGRAM :: u64 where "SETTINGS_H3_DATAGRAM = 0x33"
definition SETTINGS_ENABLE_CONNECT_PROTOCOL :: u64 where "SETTINGS_ENABLE_CONNECT_PROTOCOL = 0x08"
definition SETTINGS_QPACK_MAX_TABLE_CAPACITY :: u64 where "SETTINGS_QPACK_MAX_TABLE_CAPACITY = 0x1"
definition SETTINGS_QPACK_BLOCKED_STREAMS :: u64 where "SETTINGS_QPACK_BLOCKED_STREAMS = 0x07"

lemmas setting_key_defs = H3_DATAGRAM_05_def ENABLE_WEBTRANSPORT_def WEBTRANSPORT_MAX_SESSIONS_def
  SETTINGS_H3_DATAGRAM_def SETTINGS_ENABLE_CONNECT_PROTOCOL_def SETTINGS_QPACK_MAX_TABLE_CAPACITY_def
  SETTINGS_QPACK_BLOCKED_STREAMS_def

record Setting =
  set_Key :: u64
  set_Value :: u64

definition zero_Setting :: Setting where
  "zero_Setting = \<lparr>set_Key = 0, set_Value = 0\<rparr>"

text \<open>The two fields are set together, when both reads have succeeded.\<close>

definition Setting_Parse :: "quicvarint \<Rightarrow> Setting \<Rightarrow> reader \<Rightarrow> Setting \<times> goerror option \<times> reader" where
  "Setting_Parse qv setting r = (case qv_Read qv r of
      (Inl err, r) \<Rightarrow> (setting, Some err, r)
    | (Inr key, r) \<Rightarrow> (case qv_Read qv r of
          (Inl err, r) \<Rightarrow> (setting, Some err, r)
        | (Inr v, r) \<Rightarrow> (setting\<lparr>set_Key := key, set_Value := v\<rparr>, None, r)))"

definition Setting_GetBytes :: "quicvarint \<Rightarrow> Setting \<Rightarrow> bytes option" where
  "Setting_GetBytes qv setting = do {
     data \<leftarrow> qv_Append qv [] (set_Key setting);
     qv_Append qv data (set_Value setting) }"

definition Setting_GetLength :: "quicvarint \<Rightarrow> Setting \<Rightarrow> u64" where
  "Setting_GetLength qv setting = word_of_nat (qv_Len qv (set_Key setting) + qv_Len qv (set_Value setting))"

record SettingsFrame =
  sf_Settings :: "Setting list"

text \<open>The loop \<open>for dlength > 0\<close>: the error of \<open>setting.Parse\<close> is dropped and the subtraction wraps.\<close>

partial_function (option) settings_loop ::
  "quicvarint \<Rightarrow> reader \<Rightarrow> u64 \<Rightarrow> Setting list \<Rightarrow> Setting list option" where
  "settings_loop qv r dlength settings =
    (if dlength = 0 then Some settings
     else (case Setting_Parse qv zero_Setting r of (setting, _, r') \<Rightarrow>
       settings_loop qv r' (dlength - Setting_GetLength qv setting) (settings @ [setting])))"

definition SettingsFrame_Parse :: "quicvarint \<Rightarrow> SettingsFrame step" where
  "SettingsFrame_Parse qv sframe r = (case qv_Read qv r of
      (Inl err, r) \<Rightarrow> Some (sframe, Some err, r)
    | (Inr len, r) \<Rightarrow> (case make_ReadFull len r of
          None \<Rightarrow> None
        | Some ((data, n, Some err), r) \<Rightarrow> Some (sframe, Some err, r)
        | Some ((data, n, None), r) \<Rightarrow>
            (case settings_loop qv \<lparr>rd_data = data, rd_end = EOF\<rparr> len (sf_Settings sframe) of
               None \<Rightarrow> None
             | Some settings \<Rightarrow> Some (sframe\<lparr>sf_Settings := settings\<rparr>, None, r))))"

fun append_settings :: "quicvarint \<Rightarrow> Setting list \<Rightarrow> bytes \<Rightarrow> bytes option" where
  "append_settings qv [] data = Some data"
| "append_settings qv (setting # settings) data = do {
     b \<leftarrow> Setting_GetBytes qv setting;
     append_settings qv settings (data @ b) }"

definition SettingsFrame_GetBytes :: "quicvarint \<Rightarrow> SettingsFrame \<Rightarrow> bytes option" where
  "SettingsFrame_GetBytes qv sframe = do {
     data \<leftarrow> qv_Append qv [] FRAME_SETTINGS;
     let len = foldl (\<lambda>len setting. len + Setting_GetLength qv setting) 0 (sf_Settings sframe);
     data \<leftarrow> qv_Append qv data len;
     append_settings qv (sf_Settings sframe) data }"

section \<open>Data and header frames\<close>

record DataFrame =
  df_data :: bytes

text \<open>The error of \<open>io.ReadFull\<close> is dropped here and in the header frame.\<close>

definition DataFrame_Parse :: "quicvarint \<Rightarrow> DataFrame step" where
  "DataFrame_Parse qv dframe r = (case qv_Read qv r of
      (Inl err, r) \<Rightarrow> Some (dframe, Some err, r)
    | (Inr len, r) \<Rightarrow> (case make_ReadFull len r of
          None \<Rightarrow> None
        | Some ((data, _, _), r) \<Rightarrow> Some (dframe\<lparr>df_data := data\<rparr>, None, r)))"

definition DataFrame_GetBytes :: "quicvarint \<Rightarrow> DataFrame \<Rightarrow> bytes option" where
  "DataFrame_GetBytes qv dframe = do {
     data \<leftarrow> qv_Append qv [] FRAME_DATA;
     data \<leftarrow> qv_Append qv data (word_of_nat (length (df_data dframe)));
     Some (data @ df_data dframe) }"

record HeaderField =
  hf_Name :: string
  hf_Value :: string

record qpack =
  qp_Decode :: "bytes \<Rightarrow> HeaderField list \<times> goerror"
  qp_Encode :: "HeaderField list \<Rightarrow> bytes"
  qp_IsPseudo :: "HeaderField \<Rightarrow> bool"

record HeaderFrame =
  hfr_hfs :: "HeaderField list"

definition HeaderFrame_Parse :: "quicvarint \<Rightarrow> qpack \<Rightarrow> HeaderFrame step" where
  "HeaderFrame_Parse qv qp hframe r = (case qv_Read qv r of
      (Inl err, r) \<Rightarrow> Some (hframe, Some err, r)
    | (Inr len, r) \<Rightarrow> (case make_ReadFull len r of
          None \<Rightarrow> None
        | Some ((data, _, _), r) \<Rightarrow> (case qp_Decode qp data of (hfs, err) \<Rightarrow>
            if err = EOF then Some (hframe\<lparr>hfr_hfs := hfs\<rparr>, None, r)
            else Some (hframe, Some err, r))))"

definition HeaderFrame_GetBytes :: "quicvarint \<Rightarrow> qpack \<Rightarrow> HeaderFrame \<Rightarrow> bytes option" where
  "HeaderFrame_GetBytes qv qp hframe = do {
     data \<leftarrow> qv_Append qv [] FRAME_HEADERS;
     let headerbytes = qp_Encode qp (hfr_hfs hframe);
     data \<leftarrow> qv_Append qv data (word_of_nat (length headerbytes));
     Some (data @ headerbytes) }"

section \<open>The frame parser\<close>

datatype Frame = FSettings SettingsFrame | FHeaders HeaderFrame | FData DataFrame

fun Frame_GetBytes :: "quicvarint \<Rightarrow> qpack \<Rightarrow> Frame \<Rightarrow> bytes option" where
  "Frame_GetBytes qv qp (FSettings f) = SettingsFrame_GetBytes qv f"
| "Frame_GetBytes qv qp (FHeaders f) = HeaderFrame_GetBytes qv qp f"
| "Frame_GetBytes qv qp (FData f) = DataFrame_GetBytes qv f"

text \<open>The three results of \<open>ParseFrame\<close>: the type, and a frame or an error.\<close>

definition parse_frame_body :: "u64 \<Rightarrow> ('f \<Rightarrow> Frame) \<Rightarrow> ('f \<times> goerror option \<times> reader) option
    \<Rightarrow> ((u64 \<times> (goerror + Frame)) \<times> reader) option" where
  "parse_frame_body ftype con res = (case res of
      None \<Rightarrow> None
    | Some (_, Some err, r) \<Rightarrow> Some ((ftype, Inl err), r)
    | Some (f, None, r) \<Rightarrow> Some ((ftype, Inr (con f)), r))"

definition ParseFrame :: "quicvarint \<Rightarrow> qpack \<Rightarrow> reader \<Rightarrow> ((u64 \<times> (goerror + Frame)) \<times> reader) option" where
  "ParseFrame qv qp r = (case qv_Read qv r of
      (Inl err, r) \<Rightarrow> Some ((0, Inl err), r)
    | (Inr ftype, r) \<Rightarrow>
        if ftype = FRAME_SETTINGS then
          parse_frame_body ftype FSettings (SettingsFrame_Parse qv \<lparr>sf_Settings = []\<rparr> r)
        else if ftype = FRAME_HEADERS then
          parse_frame_body ftype FHeaders (HeaderFrame_Parse qv qp \<lparr>hfr_hfs = []\<rparr> r)
        else if ftype = FRAME_DATA \<or> ftype = FRAME_WEBTRANSPORT_BI_STREAM \<or> ftype = FRAME_WEBTRANSPORT_UNI_STREAM then
          parse_frame_body ftype FData (DataFrame_Parse qv \<lparr>df_data = []\<rparr> r)
        else (case qv_Read qv r of
            (Inl err, r) \<Rightarrow> Some ((ftype, Inl err), r)
          | (Inr len, r) \<Rightarrow> (case make_ReadFull len r of
                None \<Rightarrow> None
              | Some (_, r) \<Rightarrow> Some ((ftype, Inl (Errorf ''[Unkown Frame]'')), r))))"

section \<open>Frames are read back\<close>

definition setting_ok :: "Setting \<Rightarrow> bool" where
  "setting_ok s \<longleftrightarrow> fits62 (set_Key s) \<and> fits62 (set_Value s)"

definition setting_enc :: "quicvarint \<Rightarrow> Setting \<Rightarrow> bytes" where
  "setting_enc qv s = venc qv (set_Key s) @ venc qv (set_Value s)"

definition settings_enc :: "quicvarint \<Rightarrow> Setting list \<Rightarrow> bytes" where
  "settings_enc qv ss = concat (map (setting_enc qv) ss)"

lemma settings_enc_simps [simp]:
  "settings_enc qv [] = []"
  "settings_enc qv (s # ss) = setting_enc qv s @ settings_enc qv ss"
  by (simp_all add: settings_enc_def)

text \<open>The frames that can be written and whose payload the reader can allocate.\<close>

fun frame_ok :: "qpack \<Rightarrow> Frame \<Rightarrow> bool" where
  "frame_ok qp (FSettings f) \<longleftrightarrow> list_all setting_ok (sf_Settings f) \<and> 16 * length (sf_Settings f) \<le> maxAlloc"
| "frame_ok qp (FHeaders f) \<longleftrightarrow> length (qp_Encode qp (hfr_hfs f)) \<le> maxAlloc"
| "frame_ok qp (FData f) \<longleftrightarrow> length (df_data f) \<le> maxAlloc"

fun frame_type :: "Frame \<Rightarrow> u64" where
  "frame_type (FSettings f) = FRAME_SETTINGS"
| "frame_type (FHeaders f) = FRAME_HEADERS"
| "frame_type (FData f) = FRAME_DATA"

lemma frame_type_fits [simp]: "fits62 FRAME_SETTINGS" "fits62 FRAME_HEADERS" "fits62 FRAME_DATA"
  by (simp_all add: frame_type_defs fits62_def)

lemma frame_type_neq [simp]:
  "FRAME_HEADERS \<noteq> FRAME_SETTINGS" "FRAME_DATA \<noteq> FRAME_SETTINGS" "FRAME_DATA \<noteq> FRAME_HEADERS"
  by (simp_all add: frame_type_defs)

lemma make_ok_small: "n \<le> maxAlloc \<Longrightarrow> make_ok (word_of_nat n)"
  by (simp add: make_ok_def unat_small)

lemma word_of_nat_eq_0: "n < 2 ^ 64 \<Longrightarrow> (word_of_nat n :: u64) = 0 \<longleftrightarrow> n = 0"
  using unat_of_length [of n] by (auto simp flip: unat_eq_zero)

context varint_codec
begin

lemma Setting_GetLength_enc: "setting_ok s \<Longrightarrow> Setting_GetLength qv s = word_of_nat (length (setting_enc qv s))"
  by (simp add: setting_ok_def Setting_GetLength_def setting_enc_def Len_venc)

lemma setting_enc_length: "setting_ok s \<Longrightarrow> 0 < length (setting_enc qv s) \<and> length (setting_enc qv s) \<le> 16"
  using Len_max [of "set_Key s"] Len_max [of "set_Value s"] venc_ne [of "set_Key s"]
  by (auto simp: setting_ok_def setting_enc_def Len_venc)

lemma settings_enc_length: "list_all setting_ok ss \<Longrightarrow> length (settings_enc qv ss) \<le> 16 * length ss"
  by (induction ss) (auto dest: setting_enc_length)

lemma Setting_Parse_enc:
  "setting_ok s \<Longrightarrow> Setting_Parse qv zero_Setting (r\<lparr>rd_data := setting_enc qv s @ bs\<rparr>) = (s, None, r\<lparr>rd_data := bs\<rparr>)"
  by (simp add: Setting_Parse_def setting_ok_def setting_enc_def Read_venc zero_Setting_def)

lemma settings_loop_enc:
  assumes "list_all setting_ok ss" and "length (settings_enc qv ss) < 2 ^ 64"
  shows "settings_loop qv (r\<lparr>rd_data := settings_enc qv ss\<rparr>) (word_of_nat (length (settings_enc qv ss))) acc = Some (acc @ ss)"
  using assms
proof (induction ss arbitrary: acc)
  case Nil
  show ?case by (subst settings_loop.simps) simp
next
  case (Cons s ss)
  have s: "setting_ok s" using Cons.prems by simp
  then have "0 < length (settings_enc qv (s # ss))" using setting_enc_length [OF s] by simp
  then have ne: "(word_of_nat (length (settings_enc qv (s # ss))) :: u64) \<noteq> 0"
    using Cons.prems(2) by (simp only: word_of_nat_eq_0)
  have d: "word_of_nat (length (settings_enc qv (s # ss))) - Setting_GetLength qv s
      = (word_of_nat (length (settings_enc qv ss)) :: u64)"
    using s by (simp add: Setting_GetLength_enc)
  have "settings_loop qv (r\<lparr>rd_data := settings_enc qv ss\<rparr>) (word_of_nat (length (settings_enc qv ss))) (acc @ [s])
      = Some ((acc @ [s]) @ ss)"
    using Cons.prems by (intro Cons.IH) simp_all
  then show ?case using ne d s by (subst settings_loop.simps) (simp add: Setting_Parse_enc)
qed

lemma append_settings_enc: "list_all setting_ok ss \<Longrightarrow> append_settings qv ss data = Some (data @ settings_enc qv ss)"
  by (induction ss arbitrary: data) (auto simp: Setting_GetBytes_def setting_ok_def setting_enc_def Append_fits)

lemma settings_length_sum:
  "list_all setting_ok ss \<Longrightarrow> foldl (\<lambda>len setting. len + Setting_GetLength qv setting) x ss
     = x + word_of_nat (length (settings_enc qv ss))"
  by (induction ss arbitrary: x) (auto simp: Setting_GetLength_enc)

lemma settings_frame_trip:
  assumes "list_all setting_ok (sf_Settings f)" and "16 * length (sf_Settings f) \<le> maxAlloc"
  shows "SettingsFrame_GetBytes qv f = Some (venc qv FRAME_SETTINGS
      @ venc qv (word_of_nat (length (settings_enc qv (sf_Settings f)))) @ settings_enc qv (sf_Settings f))"
    and "SettingsFrame_Parse qv \<lparr>sf_Settings = []\<rparr> (r\<lparr>rd_data :=
      venc qv (word_of_nat (length (settings_enc qv (sf_Settings f)))) @ settings_enc qv (sf_Settings f) @ rest\<rparr>)
      = Some (f, None, r\<lparr>rd_data := rest\<rparr>)"
proof -
  let ?n = "length (settings_enc qv (sf_Settings f))"
  have n: "?n \<le> maxAlloc" using settings_enc_length [OF assms(1)] assms(2) by linarith
  then have l: "?n < 2 ^ 64" by (simp add: maxAlloc_def)
  show "SettingsFrame_GetBytes qv f = Some (venc qv FRAME_SETTINGS @ venc qv (word_of_nat ?n) @ settings_enc qv (sf_Settings f))"
    using assms settings_length_sum [OF assms(1), of 0] n
    by (simp add: SettingsFrame_GetBytes_def Append_fits fits62_small append_settings_enc)
  have "settings_loop qv \<lparr>rd_data = settings_enc qv (sf_Settings f), rd_end = EOF\<rparr> (word_of_nat ?n) [] = Some (sf_Settings f)"
    using settings_loop_enc [OF assms(1) l, of "\<lparr>rd_data = [], rd_end = EOF\<rparr>" "[]"] by simp
  then show "SettingsFrame_Parse qv \<lparr>sf_Settings = []\<rparr> (r\<lparr>rd_data := venc qv (word_of_nat ?n) @ settings_enc qv (sf_Settings f) @ rest\<rparr>)
      = Some (f, None, r\<lparr>rd_data := rest\<rparr>)"
    using n by (simp add: SettingsFrame_Parse_def Read_venc fits62_small make_ReadFull_exact make_ok_small unat_small)
qed

end

text \<open>The contract of QPACK: the decoder gives back the fields that were encoded, and then \<open>io.EOF\<close>.\<close>

locale h3_codec = varint_codec +
  fixes qp :: qpack
  assumes Decode_Encode: "qp_Decode qp (qp_Encode qp hfs) = (hfs, EOF)"
begin

lemma header_frame_trip:
  assumes "length (qp_Encode qp (hfr_hfs f)) \<le> maxAlloc"
  shows "HeaderFrame_GetBytes qv qp f = Some (venc qv FRAME_HEADERS
      @ venc qv (word_of_nat (length (qp_Encode qp (hfr_hfs f)))) @ qp_Encode qp (hfr_hfs f))"
    and "HeaderFrame_Parse qv qp \<lparr>hfr_hfs = []\<rparr> (r\<lparr>rd_data :=
      venc qv (word_of_nat (length (qp_Encode qp (hfr_hfs f)))) @ qp_Encode qp (hfr_hfs f) @ rest\<rparr>)
      = Some (f, None, r\<lparr>rd_data := rest\<rparr>)"
  using assms
  by (simp_all add: HeaderFrame_GetBytes_def HeaderFrame_Parse_def Append_fits Read_venc fits62_small
      make_ReadFull_exact make_ok_small unat_small Decode_Encode Let_def)

lemma data_frame_trip:
  assumes "length (df_data f) \<le> maxAlloc"
  shows "DataFrame_GetBytes qv f = Some (venc qv FRAME_DATA @ venc qv (word_of_nat (length (df_data f))) @ df_data f)"
    and "DataFrame_Parse qv \<lparr>df_data = []\<rparr> (r\<lparr>rd_data := venc qv (word_of_nat (length (df_data f))) @ df_data f @ rest\<rparr>)
      = Some (f, None, r\<lparr>rd_data := rest\<rparr>)"
  using assms
  by (simp_all add: DataFrame_GetBytes_def DataFrame_Parse_def Append_fits Read_venc fits62_small
      make_ReadFull_exact make_ok_small unat_small)

lemma frame_trip:
  assumes "frame_ok qp f"
  shows "\<exists>b. Frame_GetBytes qv qp f = Some b
    \<and> (\<forall>r rest. ParseFrame qv qp (r\<lparr>rd_data := b @ rest\<rparr>) = Some ((frame_type f, Inr f), r\<lparr>rd_data := rest\<rparr>))"
proof (cases f)
  case (FSettings sf)
  then show ?thesis using assms
    by (simp add: settings_frame_trip ParseFrame_def Read_venc parse_frame_body_def)
next
  case (FHeaders hf)
  then show ?thesis using assms
    by (simp add: header_frame_trip ParseFrame_def Read_venc parse_frame_body_def)
next
  case (FData df)
  then show ?thesis using assms
    by (simp add: data_frame_trip ParseFrame_def Read_venc parse_frame_body_def)
qed

end

text \<open>A connection's sequence of frames is a wire format.\<close>

definition read_frame :: "quicvarint \<Rightarrow> qpack \<Rightarrow> reader \<Rightarrow> ((goerror + Frame) \<times> reader) option" where
  "read_frame qv qp r = map_option (map_prod snd id) (ParseFrame qv qp r)"

sublocale h3_codec \<subseteq> frames: wire_format "Frame_GetBytes qv qp" "read_frame qv qp" "frame_ok qp" "\<lambda>f. f"
proof
  fix m
  assume m: "frame_ok qp m"
  show "Frame_GetBytes qv qp m \<noteq> None" using frame_trip [OF m] by auto
  fix b r rest
  assume "Frame_GetBytes qv qp m = Some b"
  then show "read_frame qv qp (r\<lparr>rd_data := b @ rest\<rparr>) = Some (Inr m, r\<lparr>rd_data := rest\<rparr>)"
    using frame_trip [OF m] by (auto simp: read_frame_def)
next
  fix r
  show "rd_data r = [] \<Longrightarrow> read_frame qv qp r = Some (Inl (rd_end r), r)"
    by (simp add: read_frame_def ParseFrame_def Read_at_end)
qed

section \<open>The literal representation of QPACK\<close>

text \<open>RFC 9204, 4.5.6: the prefix of a field section that does not refer to the dynamic table is two zero bytes; a field is a
  literal name (pattern \<open>0010 0\<close>, length in 3 bits) and a value (length in 7 bits), with the integers of RFC 7541, 5.1.\<close>

function int_tail :: "nat \<Rightarrow> bytes" where
  "int_tail n = (if n < 128 then [word_of_nat n] else word_of_nat (128 + n mod 128) # int_tail (n div 128))"
  by auto
termination by (relation "measure id") auto

fun int_untail :: "bytes \<Rightarrow> (nat \<times> bytes) option" where
  "int_untail [] = None"
| "int_untail (b # bs) = (if unat b < 128 then Some (unat b, bs)
     else (case int_untail bs of None \<Rightarrow> None | Some (n, rest) \<Rightarrow> Some (unat b - 128 + 128 * n, rest)))"

definition prefix_int :: "nat \<Rightarrow> nat \<Rightarrow> nat \<Rightarrow> bytes" where
  "prefix_int pattern k n = (if n < 2 ^ k - 1 then [word_of_nat (pattern + n)]
     else word_of_nat (pattern + (2 ^ k - 1)) # int_tail (n - (2 ^ k - 1)))"

definition prefix_unint :: "nat \<Rightarrow> nat \<Rightarrow> bytes \<Rightarrow> (nat \<times> bytes) option" where
  "prefix_unint pattern k bs = (case bs of [] \<Rightarrow> None
    | b # bs \<Rightarrow> if unat b div 2 ^ k \<noteq> pattern div 2 ^ k then None
        else if unat b mod 2 ^ k < 2 ^ k - 1 then Some (unat b mod 2 ^ k, bs)
        else (case int_untail bs of None \<Rightarrow> None | Some (n, rest) \<Rightarrow> Some (n + (2 ^ k - 1), rest)))"

definition field_enc :: "HeaderField \<Rightarrow> bytes" where
  "field_enc hf = prefix_int 32 3 (length (hf_Name hf)) @ bytes_of_string (hf_Name hf)
     @ prefix_int 0 7 (length (hf_Value hf)) @ bytes_of_string (hf_Value hf)"

definition take_string :: "nat \<Rightarrow> bytes \<Rightarrow> (string \<times> bytes) option" where
  "take_string n bs = (if length bs < n then None else Some (string_of_bytes (take n bs), drop n bs))"

definition field_dec :: "bytes \<Rightarrow> (HeaderField \<times> bytes) option" where
  "field_dec bs = do {
     (n, bs) \<leftarrow> prefix_unint 32 3 bs;
     (name, bs) \<leftarrow> take_string n bs;
     (n, bs) \<leftarrow> prefix_unint 0 7 bs;
     (v, bs) \<leftarrow> take_string n bs;
     Some (\<lparr>hf_Name = name, hf_Value = v\<rparr>, bs) }"

fun fields_dec :: "nat \<Rightarrow> bytes \<Rightarrow> HeaderField list \<times> goerror" where
  "fields_dec 0 bs = ([], if bs = [] then EOF else ErrUnexpectedEOF)"
| "fields_dec (Suc n) bs = (if bs = [] then ([], EOF) else (case field_dec bs of
      None \<Rightarrow> ([], ErrUnexpectedEOF)
    | Some (hf, bs) \<Rightarrow> (case fields_dec n bs of (hfs, err) \<Rightarrow> (hf # hfs, err))))"

definition qpack_literal :: qpack where
  "qpack_literal = \<lparr>
     qp_Decode = (\<lambda>bs. if take 2 bs = [0, 0] then fields_dec (length bs) (drop 2 bs) else ([], ErrUnexpectedEOF)),
     qp_Encode = (\<lambda>hfs. [0, 0] @ concat (map field_enc hfs)),
     qp_IsPseudo = (\<lambda>hf. prefix '':'' (hf_Name hf))\<rparr>"

declare int_tail.simps [simp del]

lemma int_untail_tail: "int_untail (int_tail n @ bs) = Some (n, bs)"
proof (induction n rule: int_tail.induct)
  case (1 n)
  have b: "unat (word_of_nat (128 + n mod 128) :: byte) = 128 + n mod 128" by (rule unat_byte_of_nat) (simp add: algebra_simps)
  show ?case
  proof (cases "n < 128")
    case True
    then show ?thesis by (subst int_tail.simps) (simp add: unat_byte_of_nat)
  next
    case False
    then show ?thesis using 1 b by (subst int_tail.simps) (simp del: of_nat_add)
  qed
qed

lemma prefix_unint_int:
  assumes "2 ^ k dvd pattern" and "pattern + 2 ^ k \<le> 256"
  shows "prefix_unint pattern k (prefix_int pattern k n @ bs) = Some (n, bs)"
proof -
  define t :: nat where "t = 2 ^ k - 1"
  have t: "t < 2 ^ k" by (simp add: t_def)
  have head: "unat (word_of_nat (pattern + m) :: byte) = pattern + m"
    and "(pattern + m) div 2 ^ k = pattern div 2 ^ k" and "(pattern + m) mod 2 ^ k = m" if "m \<le> t" for m
  proof -
    have m: "m < 2 ^ k" using that t by simp
    show "unat (word_of_nat (pattern + m) :: byte) = pattern + m"
      using assms(2) m by (intro unat_byte_of_nat) linarith
    show "(pattern + m) div 2 ^ k = pattern div 2 ^ k" and "(pattern + m) mod 2 ^ k = m"
      using assms(1) m by (auto simp: dvd_def)
  qed
  then show ?thesis
    unfolding prefix_int_def prefix_unint_def t_def [symmetric] by (simp add: int_untail_tail del: of_nat_add)
qed

lemma field_dec_enc: "field_dec (field_enc hf @ bs) = Some (hf, bs)"
  by (simp add: field_dec_def field_enc_def prefix_unint_int take_string_def)

lemma field_enc_ne: "field_enc hf \<noteq> []"
  by (simp add: field_enc_def prefix_int_def)

lemma fields_dec_enc: "length hfs \<le> n \<Longrightarrow> fields_dec n (concat (map field_enc hfs)) = (hfs, EOF)"
proof (induction hfs arbitrary: n)
  case Nil
  then show ?case by (cases n) auto
next
  case (Cons hf hfs)
  then show ?case by (cases n) (auto simp: field_dec_enc field_enc_ne)
qed

lemma length_fields: "length hfs \<le> length (concat (map field_enc hfs))"
proof (induction hfs)
  case (Cons hf hfs)
  moreover have "0 < length (field_enc hf)" using field_enc_ne by simp
  ultimately show ?case by (simp del: length_greater_0_conv)
qed simp

interpretation h3: h3_codec rfc9000 qpack_literal
proof unfold_locales
  fix hfs
  have "length hfs \<le> Suc (Suc (length (concat (map field_enc hfs))))" using length_fields [of hfs] by linarith
  then show "qp_Decode qpack_literal (qp_Encode qpack_literal hfs) = (hfs, EOF)"
    by (simp add: qpack_literal_def fields_dec_enc del: fields_dec.simps length_concat)
qed

lemma qpack_literal_codec [simp]: "h3_codec rfc9000 qpack_literal"
  by (rule h3.h3_codec_axioms)

section \<open>A settings frame that is never parsed\<close>

context varint_codec
begin

text \<open>One byte is at most one number, never a key and a value.\<close>

lemma Setting_Parse_short:
  assumes "length (rd_data r) \<le> 1"
  shows "\<exists>err r'. Setting_Parse qv s r = (s, Some err, r') \<and> length (rd_data r') \<le> 1"
proof (cases "qv_Read qv r")
  case (Pair v r1)
  then have r1: "length (rd_data r1) \<le> 1" using Read_rest [OF Pair] assms by (auto dest: suffix_length_le)
  show ?thesis
  proof (cases v)
    case (Inl e)
    then show ?thesis using Pair r1 by (simp add: Setting_Parse_def)
  next
    case (Inr x)
    then have "length (rd_data r1) < length (rd_data r)" using Pair by (intro Read_progress) simp
    then have "rd_data r1 = []" using assms by (simp flip: length_0_conv)
    then show ?thesis using Pair Inr by (simp add: Setting_Parse_def Read_at_end)
  qed
qed

lemma zero_length_even: "even (d - Setting_GetLength qv zero_Setting) \<longleftrightarrow> even d"
proof -
  have "Setting_GetLength qv zero_Setting = 2 * word_of_nat (qv_Len qv 0)"
    by (simp add: Setting_GetLength_def zero_Setting_def)
  then have "even (- Setting_GetLength qv zero_Setting)" by simp
  from dvd_add_left_iff [OF this, of d] show ?thesis by simp
qed

text \<open>Every round appends a zero setting and takes an even number off the odd counter.\<close>

lemma settings_loop_even:
  assumes "settings_loop qv r d acc = Some ss" and "length (rd_data r) \<le> 1"
  shows "even d"
proof -
  have "qv = qv \<longrightarrow> length (rd_data r) \<le> 1 \<longrightarrow> even d"
  proof (rule settings_loop.raw_induct [where P = "\<lambda>q r d acc ss. q = qv \<longrightarrow> length (rd_data r) \<le> 1 \<longrightarrow> even d",
        OF _ assms(1)], intro impI)
    fix f q r d acc ss
    assume IH: "\<And>q r d acc ss. f q r d acc = Some ss \<Longrightarrow> q = qv \<longrightarrow> length (rd_data r) \<le> 1 \<longrightarrow> even d"
      and body: "(if d = 0 then Some acc else (case Setting_Parse q zero_Setting r of (setting, _, r') \<Rightarrow>
         f q r' (d - Setting_GetLength q setting) (acc @ [setting]))) = Some ss"
      and q: "q = qv" and r: "length (rd_data r) \<le> 1"
    obtain err r' where p: "Setting_Parse qv zero_Setting r = (zero_Setting, Some err, r')" "length (rd_data r') \<le> 1"
      using Setting_Parse_short [OF r] by blast
    show "even d"
    proof (cases "d = 0")
      case False
      then have "f q r' (d - Setting_GetLength qv zero_Setting) (acc @ [zero_Setting]) = Some ss" using body p q by simp
      from IH [OF this] q p(2) have "even (d - Setting_GetLength qv zero_Setting)" by blast
      then show ?thesis by (simp only: zero_length_even)
    qed simp
  qed
  then show ?thesis using assms(2) by simp
qed

lemma short_settings_frame:
  "SettingsFrame_Parse qv f (r\<lparr>rd_data := venc qv 1 @ b # rest\<rparr>) = None"
proof -
  have "settings_loop qv \<lparr>rd_data = [b], rd_end = EOF\<rparr> 1 acc = None" for acc
    using settings_loop_even [where r = "\<lparr>rd_data = [b], rd_end = EOF\<rparr>" and d = 1 and acc = acc]
    by (cases "settings_loop qv \<lparr>rd_data = [b], rd_end = EOF\<rparr> 1 acc") auto
  moreover have "make_ReadFull 1 (r\<lparr>rd_data := b # rest\<rparr>) = Some (([b], 1, None), r\<lparr>rd_data := rest\<rparr>)"
    using make_ReadFull_exact [where n = 1 and bs = "[b]" and r = r and rest = rest] by (simp add: make_ok_def maxAlloc_def)
  moreover have "fits62 1" by (simp add: fits62_def)
  ultimately show ?thesis by (simp add: SettingsFrame_Parse_def Read_venc)
qed

end

section \<open>Properties\<close>

text \<open>Property C35 (round trip of a frame). Every settings, header or data frame whose payload can be allocated is
  written without a panic, and \<open>ParseFrame\<close> reads it back with its type and leaves what follows it on the stream.\<close>

theorem frame_roundtrip:
  assumes "h3_codec qv qp" and "frame_ok qp f"
  shows "\<exists>b. Frame_GetBytes qv qp f = Some b \<and>
    (\<forall>r rest. ParseFrame qv qp (r\<lparr>rd_data := b @ rest\<rparr>) = Some ((frame_type f, Inr f), r\<lparr>rd_data := rest\<rparr>))"
  using assms by (rule h3_codec.frame_trip)

definition sample_settings :: Frame where
  "sample_settings = FSettings \<lparr>sf_Settings = [\<lparr>set_Key = ENABLE_WEBTRANSPORT, set_Value = 1\<rparr>,
     \<lparr>set_Key = WEBTRANSPORT_MAX_SESSIONS, set_Value = 1\<rparr>]\<rparr>"

theorem frame_roundtrip_witness:
  "frame_ok qpack_literal sample_settings \<and>
   (\<exists>b. Frame_GetBytes rfc9000 qpack_literal sample_settings = Some b \<and>
     ParseFrame rfc9000 qpack_literal \<lparr>rd_data = b @ [1, 2], rd_end = EOF\<rparr>
       = Some ((FRAME_SETTINGS, Inr sample_settings), \<lparr>rd_data = [1, 2], rd_end = EOF\<rparr>))"
proof -
  have ok: "frame_ok qpack_literal sample_settings" "frame_type sample_settings = FRAME_SETTINGS"
    by (simp_all add: sample_settings_def setting_ok_def setting_key_defs fits62_def maxAlloc_def)
  obtain b where "Frame_GetBytes rfc9000 qpack_literal sample_settings = Some b"
    "ParseFrame rfc9000 qpack_literal (\<lparr>rd_data = [], rd_end = EOF\<rparr>\<lparr>rd_data := b @ [1, 2]\<rparr>)
       = Some ((FRAME_SETTINGS, Inr sample_settings), \<lparr>rd_data = [], rd_end = EOF\<rparr>\<lparr>rd_data := [1, 2]\<rparr>)"
    using frame_roundtrip [OF qpack_literal_codec ok(1)] ok(2) by metis
  then show ?thesis using ok(1) by simp
qed

text \<open>A settings frame can hang the parser. \<open>ParseFrame\<close> never returns on a settings frame with a payload
  of one byte, whatever the byte is and whatever follows: no setting can be read, each round of the loop takes the length of a
  zero setting, an even number, off the remaining length, and an odd 64-bit number that wraps around stays odd.\<close>

lemma settings_frame_never_ends:
  assumes "varint_codec qv"
  shows "ParseFrame qv qp (r\<lparr>rd_data := venc qv FRAME_SETTINGS @ venc qv 1 @ b # rest\<rparr>) = None"
  using varint_codec.short_settings_frame [OF assms] varint_codec.Read_venc [OF assms frame_type_fits(1)]
  by (simp add: ParseFrame_def parse_frame_body_def)

theorem settings_frame_never_ends_witness:
  "ParseFrame rfc9000 qpack_literal \<lparr>rd_data = [4, 1, 0], rd_end = EOF\<rparr> = None"
  using settings_frame_never_ends [OF rfc9000_codec, where qp = qpack_literal and b = 0 and rest = "[]"
      and r = "\<lparr>rd_data = [], rd_end = EOF\<rparr>"]
  by (simp add: rfc9000_eval frame_type_defs)

end
