(* ===== verification/H3_Requests.thy ===== *)
theory H3_Requests
  imports H3_Frames
begin

text \<open>
  Requests and responses: \<open>WrapRequest\<close> of \<open>src/h3/headerframe.go\<close> and the response writer of \<open>src/h3/responsewriter.go\<close>.
  \<open>http.Header\<close> is a Go map from canonical names to lists of values; \<open>Add\<close> and \<open>Set\<close> canonicalise the name as
  \<open>textproto.CanonicalMIMEHeaderKey\<close> does. \<open>strconv.ParseInt\<close> and \<open>strconv.Itoa\<close> are written out for base 10.
  \<open>url.ParseRequestURI\<close> is the argument \<open>parse_uri\<close>: the code only passes its result on, and what is shown holds for every
  such function. The fields of \<open>http.Request\<close> that are constants (protocol version, empty body and TLS state) are left out.

  Shown here: which field decides which part of the request, that header values keep their order and cookies are joined, when a
  request is refused; and that a client reads the status and the header that the response writer writes.
\<close>

section \<open>Go's library\<close>

abbreviation code :: "char \<Rightarrow> nat" where
  "code c \<equiv> of_char c"

definition is_digit :: "char \<Rightarrow> bool" where
  "is_digit c \<longleftrightarrow> 48 \<le> code c \<and> code c \<le> 57"

definition is_lower :: "char \<Rightarrow> bool" where
  "is_lower c \<longleftrightarrow> 97 \<le> code c \<and> code c \<le> 122"

definition is_upper :: "char \<Rightarrow> bool" where
  "is_upper c \<longleftrightarrow> 65 \<le> code c \<and> code c \<le> 90"

definition to_lower :: "char \<Rightarrow> char" where
  "to_lower c = (if is_upper c then char_of (code c + 32) else c)"

definition to_upper :: "char \<Rightarrow> char" where
  "to_upper c = (if is_lower c then char_of (code c - 32) else c)"

text \<open>\<open>strings.ToLower\<close> on the names of header fields, which are ASCII.\<close>

definition ToLower :: "string \<Rightarrow> string" where
  "ToLower s = map to_lower s"

definition token_char :: "char \<Rightarrow> bool" where
  "token_char c \<longleftrightarrow> is_digit c \<or> is_lower c \<or> is_upper c \<or> c \<in> set ''!#$%&*+-.^_|~'' \<or> code c \<in> {39, 96}"

fun canonical_chars :: "bool \<Rightarrow> string \<Rightarrow> string" where
  "canonical_chars upper [] = []"
| "canonical_chars upper (c # s) = (if upper then to_upper c else to_lower c) # canonical_chars (c = CHR ''-'') s"

definition CanonicalHeaderKey :: "string \<Rightarrow> string" where
  "CanonicalHeaderKey s = (if list_all token_char s then canonical_chars True s else s)"

fun strings_Join :: "string list \<Rightarrow> string \<Rightarrow> string" where
  "strings_Join [] sep = []"
| "strings_Join [s] sep = s"
| "strings_Join (s # ss) sep = s @ sep @ strings_Join ss sep"

fun digits_value :: "nat \<Rightarrow> string \<Rightarrow> nat option" where
  "digits_value n [] = Some n"
| "digits_value n (c # s) = (if is_digit c then digits_value (10 * n + (code c - 48)) s else None)"

text \<open>\<open>strconv.ParseInt(s, 10, 64)\<close>: an optional sign, at least one digit, and a value within 64 bits.\<close>

definition ParseInt :: "string \<Rightarrow> goerror + int" where
  "ParseInt s =
    (let neg = prefix ''-'' s; ds = (if prefix ''-'' s \<or> prefix ''+'' s then tl s else s)
     in if ds = [] then Inl (Errorf ''invalid syntax'')
        else (case digits_value 0 ds of
            None \<Rightarrow> Inl (Errorf ''invalid syntax'')
          | Some n \<Rightarrow> if neg then (if n \<le> 2 ^ 63 then Inr (- int n) else Inl (Errorf ''value out of range''))
              else (if n < 2 ^ 63 then Inr (int n) else Inl (Errorf ''value out of range''))))"

fun nat_digits :: "nat \<Rightarrow> string" where
  "nat_digits n = (if n < 10 then [char_of (48 + n)] else nat_digits (n div 10) @ [char_of (48 + n mod 10)])"

declare nat_digits.simps [simp del]

definition Itoa :: "int \<Rightarrow> string" where
  "Itoa n = (if n < 0 then CHR ''-'' # nat_digits (nat (- n)) else nat_digits (nat n))"

type_synonym http_Header = "(string, string list) gomap"

definition Header_values :: "http_Header \<Rightarrow> string \<Rightarrow> string list" where
  "Header_values h k = (case gomap_get h k of None \<Rightarrow> [] | Some vs \<Rightarrow> vs)"

definition Header_Add :: "string \<Rightarrow> string \<Rightarrow> http_Header \<Rightarrow> http_Header" where
  "Header_Add k v h = gomap_set (CanonicalHeaderKey k) (Header_values h (CanonicalHeaderKey k) @ [v]) h"

definition Header_Set :: "string \<Rightarrow> string \<Rightarrow> http_Header \<Rightarrow> http_Header" where
  "Header_Set k v h = gomap_set (CanonicalHeaderKey k) [v] h"

section \<open>Requests\<close>

record 'u Request =
  rq_Method :: string
  rq_URL :: 'u
  rq_Header :: http_Header
  rq_ContentLength :: int
  rq_Host :: string
  rq_RequestURI :: string

text \<open>The local variables of the loop in \<open>WrapRequest\<close>.\<close>

record wrap_vars =
  wv_path :: string
  wv_authority :: string
  wv_method :: string
  wv_contentLengthStr :: string
  wv_protocol :: string
  wv_httpHeaders :: http_Header

definition zero_wrap :: wrap_vars where
  "zero_wrap = \<lparr>wv_path = [], wv_authority = [], wv_method = [], wv_contentLengthStr = [], wv_protocol = [],
     wv_httpHeaders = []\<rparr>"

definition wrap_field :: "qpack \<Rightarrow> wrap_vars \<Rightarrow> HeaderField \<Rightarrow> wrap_vars" where
  "wrap_field qp v h =
    (if hf_Name h = '':path'' then v\<lparr>wv_path := hf_Value h\<rparr>
     else if hf_Name h = '':method'' then v\<lparr>wv_method := hf_Value h\<rparr>
     else if hf_Name h = '':authority'' then v\<lparr>wv_authority := hf_Value h\<rparr>
     else if hf_Name h = '':protocol'' then v\<lparr>wv_protocol := hf_Value h\<rparr>
     else if hf_Name h = ''content-length'' then v\<lparr>wv_contentLengthStr := hf_Value h\<rparr>
     else if \<not> qp_IsPseudo qp h then v\<lparr>wv_httpHeaders := Header_Add (hf_Name h) (hf_Value h) (wv_httpHeaders v)\<rparr>
     else v)"

definition join_cookies :: "http_Header \<Rightarrow> http_Header" where
  "join_cookies h = (if Header_values h ''Cookie'' \<noteq> []
     then Header_Set ''Cookie'' (strings_Join (Header_values h ''Cookie'') ''; '') h else h)"

definition WrapRequest :: "qpack \<Rightarrow> (string \<Rightarrow> goerror + 'u) \<Rightarrow> HeaderFrame \<Rightarrow> goerror + 'u Request \<times> string" where
  "WrapRequest qp parse_uri hframe =
    (let v = foldl (wrap_field qp) zero_wrap (hfr_hfs hframe);
         httpHeaders = join_cookies (wv_httpHeaders v)
     in case (if wv_contentLengthStr v \<noteq> [] then ParseInt (wv_contentLengthStr v) else Inr 0) of
          Inl err \<Rightarrow> Inl err
        | Inr contentLength \<Rightarrow>
           (case parse_uri (if wv_method v = ''CONNECT'' then ''https://'' @ wv_authority v @ wv_path v else wv_path v) of
              Inl err \<Rightarrow> Inl err
            | Inr u \<Rightarrow> Inr (\<lparr>rq_Method = wv_method v, rq_URL = u, rq_Header = httpHeaders,
                rq_ContentLength = contentLength, rq_Host = wv_authority v, rq_RequestURI = wv_path v\<rparr>, wv_protocol v)))"

section \<open>Responses\<close>

text \<open>\<open>rw_written\<close> is what has been flushed to the stream.\<close>

record ResponseWriter =
  rw_header :: http_Header
  rw_written :: bytes

definition NewResponseWriter :: ResponseWriter where
  "NewResponseWriter = \<lparr>rw_header = [], rw_written = []\<rparr>"

definition ResponseWriter_Header :: "ResponseWriter \<Rightarrow> http_Header" where
  "ResponseWriter_Header w = rw_header w"

declare ResponseWriter_Header_def [simp]

fun response_fields :: "http_Header \<Rightarrow> HeaderField list" where
  "response_fields [] = []"
| "response_fields ((k, v) # h) = map (\<lambda>x. \<lparr>hf_Name = ToLower k, hf_Value = x\<rparr>) v @ response_fields h"

definition ResponseWriter_WriteHeader :: "quicvarint \<Rightarrow> qpack \<Rightarrow> int \<Rightarrow> ResponseWriter \<Rightarrow> ResponseWriter option" where
  "ResponseWriter_WriteHeader qv qp status w = do {
     let hfs = \<lparr>hf_Name = '':status'', hf_Value = Itoa status\<rparr> # response_fields (rw_header w);
     b \<leftarrow> HeaderFrame_GetBytes qv qp \<lparr>hfr_hfs = hfs\<rparr>;
     Some (w\<lparr>rw_written := rw_written w @ b\<rparr>) }"

text \<open>The result is that of \<open>bufferedStream.Write\<close>, the number of bytes of the whole frame.\<close>

definition ResponseWriter_Write :: "quicvarint \<Rightarrow> bytes \<Rightarrow> ResponseWriter \<Rightarrow> (nat \<times> ResponseWriter) option" where
  "ResponseWriter_Write qv data w = do {
     b \<leftarrow> DataFrame_GetBytes qv \<lparr>df_data = data\<rparr>;
     Some (length b, w\<lparr>rw_written := rw_written w @ b\<rparr>) }"

section \<open>What a request is made of\<close>

definition last_value :: "string \<Rightarrow> HeaderField list \<Rightarrow> string" where
  "last_value name hfs = (case rev (filter (\<lambda>h. hf_Name h = name) hfs) of [] \<Rightarrow> [] | h # _ \<Rightarrow> hf_Value h)"

definition regular_field :: "qpack \<Rightarrow> HeaderField \<Rightarrow> bool" where
  "regular_field qp h \<longleftrightarrow> \<not> qp_IsPseudo qp h \<and>
     hf_Name h \<notin> {'':path'', '':method'', '':authority'', '':protocol'', ''content-length''}"

definition field_values :: "qpack \<Rightarrow> string \<Rightarrow> HeaderField list \<Rightarrow> string list" where
  "field_values qp k hfs = map hf_Value (filter (\<lambda>h. regular_field qp h \<and> CanonicalHeaderKey (hf_Name h) = k) hfs)"

lemma Header_values_Add:
  "Header_values (Header_Add k v h) k' = (if k' = CanonicalHeaderKey k then Header_values h k' @ [v] else Header_values h k')"
  by (simp add: Header_values_def Header_Add_def gomap_simps)

lemma Header_values_Set:
  "Header_values (Header_Set k v h) k' = (if k' = CanonicalHeaderKey k then [v] else Header_values h k')"
  by (simp add: Header_values_def Header_Set_def gomap_simps)

lemma canonical_cookie: "CanonicalHeaderKey ''Cookie'' = ''Cookie''"
  by (simp add: CanonicalHeaderKey_def token_char_def to_lower_def to_upper_def is_lower_def is_upper_def is_digit_def)

lemma wrap_fields:
  fixes hfs qp
  defines "v \<equiv> foldl (wrap_field qp) zero_wrap hfs"
  shows "wv_path v = last_value '':path'' hfs" and "wv_method v = last_value '':method'' hfs"
    and "wv_authority v = last_value '':authority'' hfs" and "wv_protocol v = last_value '':protocol'' hfs"
    and "wv_contentLengthStr v = last_value ''content-length'' hfs"
    and "Header_values (wv_httpHeaders v) k = field_values qp k hfs"
  unfolding v_def
  by (induction hfs rule: rev_induct)
    (simp_all add: last_value_def zero_wrap_def Header_values_def field_values_def, simp_all add: wrap_field_def
      regular_field_def Header_values_def [symmetric] Header_values_Add)

lemma join_cookies_values:
  "Header_values (join_cookies h) k =
    (if k = ''Cookie'' \<and> Header_values h k \<noteq> [] then [strings_Join (Header_values h k) ''; ''] else Header_values h k)"
  by (auto simp: join_cookies_def Header_values_Set canonical_cookie)

lemma WrapRequest_result:
  fixes hfs :: "HeaderField list" and parse_uri :: "string \<Rightarrow> goerror + 'u"
  shows "\<exists>header.
    (\<forall>k. Header_values header k = (if k = ''Cookie'' \<and> field_values qp k hfs \<noteq> []
       then [strings_Join (field_values qp k hfs) ''; ''] else field_values qp k hfs)) \<and>
    WrapRequest qp parse_uri \<lparr>hfr_hfs = hfs\<rparr> =
      (case (if last_value ''content-length'' hfs = [] then Inr 0 else ParseInt (last_value ''content-length'' hfs)) of
         Inl err \<Rightarrow> Inl err
       | Inr n \<Rightarrow> (case parse_uri (if last_value '':method'' hfs = ''CONNECT''
             then ''https://'' @ last_value '':authority'' hfs @ last_value '':path'' hfs else last_value '':path'' hfs) of
           Inl err \<Rightarrow> Inl err
         | Inr u \<Rightarrow> Inr (\<lparr>rq_Method = last_value '':method'' hfs, rq_URL = u, rq_Header = header, rq_ContentLength = n,
             rq_Host = last_value '':authority'' hfs, rq_RequestURI = last_value '':path'' hfs\<rparr>,
             last_value '':protocol'' hfs)))"
proof -
  let ?v = "foldl (wrap_field qp) zero_wrap hfs"
  have "\<forall>k. Header_values (join_cookies (wv_httpHeaders ?v)) k = (if k = ''Cookie'' \<and> field_values qp k hfs \<noteq> []
       then [strings_Join (field_values qp k hfs) ''; ''] else field_values qp k hfs)"
    by (simp add: join_cookies_values wrap_fields)
  then show ?thesis
    by (intro exI [of _ "join_cookies (wv_httpHeaders ?v)"] conjI) (simp_all add: WrapRequest_def Let_def wrap_fields cong: sum.case_cong)
qed

text \<open>Property C36 (a request from its header fields). In the request that \<open>WrapRequest\<close> makes, method, host, URI and
  protocol are the values of the last fields with the names of the pseudo-headers, an absent one being empty; every other
  header has, under its canonical name, the values of all its fields in their order, and the cookies are joined into one. The
  request is refused exactly when the content length is given and is not a 64-bit number, with the error of its parser, or else
  when the URI, with the authority in front for CONNECT, does not parse.\<close>

theorem wrap_request_fields:
  fixes hfs :: "HeaderField list" and parse_uri :: "string \<Rightarrow> goerror + 'u"
  shows "\<exists>header.
    (\<forall>k. Header_values header k = (if k = ''Cookie'' \<and> field_values qp k hfs \<noteq> []
       then [strings_Join (field_values qp k hfs) ''; ''] else field_values qp k hfs)) \<and>
    WrapRequest qp parse_uri \<lparr>hfr_hfs = hfs\<rparr> =
      (case (if last_value ''content-length'' hfs = [] then Inr 0 else ParseInt (last_value ''content-length'' hfs)) of
         Inl err \<Rightarrow> Inl err
       | Inr n \<Rightarrow> (case parse_uri (if last_value '':method'' hfs = ''CONNECT''
             then ''https://'' @ last_value '':authority'' hfs @ last_value '':path'' hfs else last_value '':path'' hfs) of
           Inl err \<Rightarrow> Inl err
         | Inr u \<Rightarrow> Inr (\<lparr>rq_Method = last_value '':method'' hfs, rq_URL = u, rq_Header = header, rq_ContentLength = n,
             rq_Host = last_value '':authority'' hfs, rq_RequestURI = last_value '':path'' hfs\<rparr>,
             last_value '':protocol'' hfs)))"
  by (rule WrapRequest_result)

section \<open>Numbers in headers\<close>

lemma is_digit_char: "d < 10 \<Longrightarrow> is_digit (char_of (48 + d))" "d < 10 \<Longrightarrow> code (char_of (48 + d)) = 48 + d"
  by (simp_all add: is_digit_def)

lemma digits_value_append:
  "digits_value n (s @ t) = Option.bind (digits_value n s) (\<lambda>m. digits_value m t)"
  by (induction n s rule: digits_value.induct) auto

lemma digits_value_nat_digits: "digits_value 0 (nat_digits n) = Some n"
proof (induction n rule: nat_digits.induct)
  case (1 n)
  have m: "n mod 10 < 10" by simp
  show ?case
  proof (cases "n < 10")
    case True
    then show ?thesis by (subst nat_digits.simps) (simp add: is_digit_char)
  next
    case False
    then show ?thesis using 1 is_digit_char [OF m]
      by (subst nat_digits.simps) (simp add: digits_value_append)
  qed
qed

lemma nat_digits_digits: "list_all is_digit (nat_digits n) \<and> nat_digits n \<noteq> []"
proof (induction n rule: nat_digits.induct)
  case (1 n)
  have m: "n mod 10 < 10" by simp
  then show ?case using 1 is_digit_char(1) [OF m] is_digit_char(1) [of n] by (subst (1 2) nat_digits.simps) simp
qed

lemma nat_digits_no_sign: "\<not> prefix ''-'' (nat_digits n)" "\<not> prefix ''+'' (nat_digits n)"
  using nat_digits_digits [of n] by (cases "nat_digits n"; auto simp: is_digit_def)+

lemma ParseInt_Itoa: "- (2 ^ 63) \<le> n \<Longrightarrow> n < 2 ^ 63 \<Longrightarrow> ParseInt (Itoa n) = Inr n"
  using nat_digits_no_sign [of "nat n"] nat_digits_digits [of "nat n"] nat_digits_digits [of "nat (- n)"]
  by (auto simp: ParseInt_def Itoa_def Let_def digits_value_nat_digits nat_less_iff nat_le_iff)

lemma ParseInt_range: "ParseInt s = Inr n \<Longrightarrow> - (2 ^ 63) \<le> n \<and> n < 2 ^ 63"
  by (auto simp: ParseInt_def Let_def split: if_splits option.splits)

section \<open>What a client reads of a response\<close>

definition response_hfs :: "int \<Rightarrow> http_Header \<Rightarrow> HeaderField list" where
  "response_hfs status h = \<lparr>hf_Name = '':status'', hf_Value = Itoa status\<rparr> # response_fields h"

context h3_codec
begin

lemma WriteHeader_frame:
  assumes "length (qp_Encode qp (response_hfs status (rw_header w))) \<le> maxAlloc"
  shows "\<exists>b. ResponseWriter_WriteHeader qv qp status w = Some (w\<lparr>rw_written := rw_written w @ b\<rparr>) \<and>
    (\<forall>r rest. ParseFrame qv qp (r\<lparr>rd_data := b @ rest\<rparr>) =
       Some ((FRAME_HEADERS, Inr (FHeaders \<lparr>hfr_hfs = response_hfs status (rw_header w)\<rparr>)), r\<lparr>rd_data := rest\<rparr>))"
  using frame_trip [of "FHeaders \<lparr>hfr_hfs = response_hfs status (rw_header w)\<rparr>"] assms
  by (auto simp: ResponseWriter_WriteHeader_def response_hfs_def Let_def)

lemma Write_frame:
  assumes "length data \<le> maxAlloc"
  shows "\<exists>b. ResponseWriter_Write qv data w = Some (length b, w\<lparr>rw_written := rw_written w @ b\<rparr>) \<and> length data < length b \<and>
    (\<forall>r rest. ParseFrame qv qp (r\<lparr>rd_data := b @ rest\<rparr>) =
       Some ((FRAME_DATA, Inr (FData \<lparr>df_data = data\<rparr>)), r\<lparr>rd_data := rest\<rparr>))"
proof -
  let ?b = "venc qv FRAME_DATA @ venc qv (word_of_nat (length data)) @ data"
  have b: "DataFrame_GetBytes qv \<lparr>df_data = data\<rparr> = Some ?b" using data_frame_trip(1) [of "\<lparr>df_data = data\<rparr>"] assms by simp
  have "length data < length ?b" using venc_ne [of FRAME_DATA] by simp
  with b show ?thesis using frame_trip [of "FData \<lparr>df_data = data\<rparr>"] assms
    by (intro exI [of _ ?b]) (simp add: ResponseWriter_Write_def)
qed

end

text \<open>Property C37 (a response is read back, and the length that \<open>Write\<close> returns). A client that reads what the response
  writer has written for a status, a header and a body finds a header frame with the status first and then every header
  value under its lower-case name, and a data frame with the body. \<open>Write\<close> returns the length of the frame, always more than
  the length of the data it was given.\<close>

theorem response_parsed:
  assumes "h3_codec qv qp" and "length (qp_Encode qp (response_hfs status (rw_header w))) \<le> maxAlloc"
    and "length data \<le> maxAlloc" and "rw_written w = []"
  shows "\<exists>w1 n w2. ResponseWriter_WriteHeader qv qp status w = Some w1 \<and> ResponseWriter_Write qv data w1 = Some (n, w2) \<and>
    length data < n \<and>
    (\<exists>mid. ParseFrame qv qp \<lparr>rd_data = rw_written w2, rd_end = EOF\<rparr> =
       Some ((FRAME_HEADERS, Inr (FHeaders \<lparr>hfr_hfs = response_hfs status (rw_header w)\<rparr>)), mid) \<and>
     ParseFrame qv qp mid = Some ((FRAME_DATA, Inr (FData \<lparr>df_data = data\<rparr>)), \<lparr>rd_data = [], rd_end = EOF\<rparr>))"
proof -
  obtain b where b: "ResponseWriter_WriteHeader qv qp status w = Some (w\<lparr>rw_written := b\<rparr>)"
    "\<And>r rest. ParseFrame qv qp (r\<lparr>rd_data := b @ rest\<rparr>) =
       Some ((FRAME_HEADERS, Inr (FHeaders \<lparr>hfr_hfs = response_hfs status (rw_header w)\<rparr>)), r\<lparr>rd_data := rest\<rparr>)"
    using h3_codec.WriteHeader_frame [OF assms(1,2)] assms(4) by auto
  obtain c where c: "ResponseWriter_Write qv data (w\<lparr>rw_written := b\<rparr>) = Some (length c, w\<lparr>rw_written := b @ c\<rparr>)"
    "length data < length c"
    "\<And>r rest. ParseFrame qv qp (r\<lparr>rd_data := c @ rest\<rparr>) = Some ((FRAME_DATA, Inr (FData \<lparr>df_data = data\<rparr>)), r\<lparr>rd_data := rest\<rparr>)"
    using h3_codec.Write_frame [OF assms(1,3), of "w\<lparr>rw_written := b\<rparr>"] by auto
  show ?thesis using b(1) c(1,2) b(2) [where r = "\<lparr>rd_data = [], rd_end = EOF\<rparr>" and rest = c]
      c(3) [where r = "\<lparr>rd_data = [], rd_end = EOF\<rparr>" and rest = "[]"]
    by auto
qed

theorem response_parsed_witness:
  "\<exists>w1 n w2 mid. ResponseWriter_WriteHeader rfc9000 qpack_literal 404 NewResponseWriter = Some w1 \<and>
    ResponseWriter_Write rfc9000 [1, 2, 3] w1 = Some (n, w2) \<and> 3 < n \<and>
    ParseFrame rfc9000 qpack_literal \<lparr>rd_data = rw_written w2, rd_end = EOF\<rparr> =
       Some ((FRAME_HEADERS, Inr (FHeaders \<lparr>hfr_hfs = [\<lparr>hf_Name = '':status'', hf_Value = ''404''\<rparr>]\<rparr>)), mid)"
proof -
  have i: "Itoa 404 = ''404''" by (simp add: Itoa_def nat_digits.simps char_of_def bit_iff_odd)
  have r: "response_hfs 404 (rw_header NewResponseWriter) = [\<lparr>hf_Name = '':status'', hf_Value = ''404''\<rparr>]"
    by (simp add: response_hfs_def NewResponseWriter_def i)
  have "length (qp_Encode qpack_literal (response_hfs 404 (rw_header NewResponseWriter))) \<le> maxAlloc"
    unfolding r by (simp add: qpack_literal_def field_enc_def prefix_int_def int_tail.simps maxAlloc_def)
  from response_parsed [OF qpack_literal_codec this, of "[1, 2, 3]"] show ?thesis
    unfolding r by (auto simp: maxAlloc_def NewResponseWriter_def)
qed

end
