(* ===== verification/Web_Transport.thy ===== *)
theory Web_Transport
  imports H3_Requests
begin

text \<open>
  WebTransport sessions: \<open>src/wt/header.go\<close> and \<open>src/wt/wtsession.go\<close>. The results of the QUIC connection are arguments: the
  error of an open call, and for an accepted stream its reader or an error. What is written to a stream is a result. A
  stream that is handed on is the reader after what was read of it (the reader of \<open>quicvarint\<close> does not read ahead).

  The streams that \<open>ProcesUniStreams\<close> accepts are a list of events, one per call of \<open>AcceptUniStream\<close>; the channel is the
  list of the streams sent to it. A header that does not arrive within the deadline ends with \<^const>\<open>NetTimeout\<close>.
  As in \<open>H3_Frames\<close>, \<^const>\<open>None\<close> is a call that does not return.

  Shown here: a client that sends its settings and an extended CONNECT request is accepted, receives the server's settings
  and the status 200; streams opened on one side arrive in order on the other, without their headers; and the header of a
  bidirectional stream, which is written without the session ID that the reader expects.
\<close>

section \<open>Stream headers\<close>

definition STREAM_CONTROL :: u64 where "STREAM_CONTROL = 0x00"
definition STREAM_PUSH :: u64 where "STREAM_PUSH = 0x01"
definition STREAM_QPACK_ENCODER :: u64 where "STREAM_QPACK_ENCODER = 0x02"
definition STREAM_QPACK_DECODER :: u64 where "STREAM_QPACK_DECODER = 0x03"
definition STREAM_WEBTRANSPORT_UNI_STREAM :: u64 where "STREAM_WEBTRANSPORT_UNI_STREAM = 0x54"
definition STREAM_WEBTRANSPORT_BI_STREAM :: u64 where "STREAM_WEBTRANSPORT_BI_STREAM = 0x41"

lemmas stream_type_defs = STREAM_CONTROL_def STREAM_PUSH_def STREAM_QPACK_ENCODER_def STREAM_QPACK_DECODER_def
  STREAM_WEBTRANSPORT_UNI_STREAM_def STREAM_WEBTRANSPORT_BI_STREAM_def

record StreamHeader =
  sh_Type :: u64
  sh_ID :: u64

definition zero_StreamHeader :: StreamHeader where
  "zero_StreamHeader = \<lparr>sh_Type = 0, sh_ID = 0\<rparr>"

definition StreamHeader_Read :: "quicvarint \<Rightarrow> StreamHeader \<Rightarrow> reader \<Rightarrow> StreamHeader \<times> goerror option \<times> reader" where
  "StreamHeader_Read qv sh r = (case qv_Read qv r of
      (Inl err, r) \<Rightarrow> (sh, Some err, r)
    | (Inr htype, r) \<Rightarrow>
       (let sh = sh\<lparr>sh_Type := htype\<rparr> in
        if htype \<in> {STREAM_CONTROL, STREAM_QPACK_ENCODER, STREAM_QPACK_DECODER} then (sh, None, r)
        else if htype \<in> {STREAM_PUSH, STREAM_WEBTRANSPORT_UNI_STREAM, STREAM_WEBTRANSPORT_BI_STREAM} then
          (case qv_Read qv r of
             (Inl err, r) \<Rightarrow> (sh, Some err, r)
           | (Inr i, r) \<Rightarrow> (sh\<lparr>sh_ID := i\<rparr>, None, r))
        else (sh, Some (Errorf ''[Error Parsing Stream Header][Unknown Type]''), r)))"

text \<open>There is no case for \<open>STREAM_WEBTRANSPORT_BI_STREAM\<close>.\<close>

definition StreamHeader_GetBytes :: "quicvarint \<Rightarrow> StreamHeader \<Rightarrow> bytes option" where
  "StreamHeader_GetBytes qv sh = do {
     data \<leftarrow> qv_Append qv [] (sh_Type sh);
     if sh_Type sh \<in> {STREAM_PUSH, STREAM_WEBTRANSPORT_UNI_STREAM} then qv_Append qv data (sh_ID sh) else Some data }"

section \<open>The upgrade\<close>

definition DEFAULT_SETTINGS :: "Setting list" where
  "DEFAULT_SETTINGS = [
     \<lparr>set_Key = ENABLE_WEBTRANSPORT, set_Value = 1\<rparr>,
     \<lparr>set_Key = SETTINGS_H3_DATAGRAM, set_Value = 1\<rparr>,
     \<lparr>set_Key = WEBTRANSPORT_MAX_SESSIONS, set_Value = 1\<rparr>,
     \<lparr>set_Key = SETTINGS_ENABLE_CONNECT_PROTOCOL, set_Value = 1\<rparr>,
     \<lparr>set_Key = H3_DATAGRAM_05, set_Value = 1\<rparr>,
     \<lparr>set_Key = SETTINGS_QPACK_MAX_TABLE_CAPACITY, set_Value = 0\<rparr>,
     \<lparr>set_Key = SETTINGS_QPACK_BLOCKED_STREAMS, set_Value = 0\<rparr>]"

text \<open>\<open>wts_uniLoops\<close> counts the goroutines of \<open>ProcesUniStreams\<close> that were started; what such a goroutine does is \<open>uni_step\<close> in \<open>WT_Streams\<close>.\<close>

record WTSession =
  wts_ResponseWriter :: ResponseWriter
  wts_uniStreamsChan :: "reader list"
  wts_uniLoops :: nat

text \<open>The part of \<open>UpgradeWTS\<close> on the client's request stream.\<close>

definition upgrade_request :: "quicvarint \<Rightarrow> qpack \<Rightarrow> (string \<Rightarrow> goerror + 'u) \<Rightarrow> goerror + reader
    \<Rightarrow> (goerror + WTSession \<times> 'u Request) option" where
  "upgrade_request qv qp parse_uri rrStream = (case rrStream of
      Inl err \<Rightarrow> Some (Inl err)
    | Inr rreader \<Rightarrow> (case ParseFrame qv qp rreader of
          None \<Rightarrow> None
        | Some ((ftype, Inl err), _) \<Rightarrow> Some (Inl err)
        | Some ((ftype, Inr frame), _) \<Rightarrow>
            if ftype \<noteq> FRAME_HEADERS then Some (Inl (Errorf ''[Error Processing WT conn][Received Wrong Headers]''))
            else (case frame of
                FHeaders headerFrame \<Rightarrow> (case WrapRequest qp parse_uri headerFrame of
                    Inl err \<Rightarrow> Some (Inl err)
                  | Inr (req, protocol) \<Rightarrow>
                      if protocol \<noteq> ''webtransport'' then Some (Inl (Errorf ''[Protocol Mismatch]''))
                      else Some (Inr (\<lparr>wts_ResponseWriter = NewResponseWriter\<lparr>rw_header :=
                          Header_Add ''Sec-Webtransport-Http3-Draft'' ''draft02'' (ResponseWriter_Header NewResponseWriter)\<rparr>,
                        wts_uniStreamsChan = [], wts_uniLoops = 0\<rparr>, req)))
              | _ \<Rightarrow> None)))"

text \<open>The part on the client's control stream; the error of \<open>controlHeader.Read\<close> is dropped.\<close>

definition upgrade_settings :: "quicvarint \<Rightarrow> qpack \<Rightarrow> goerror + reader \<Rightarrow> (goerror + SettingsFrame) option" where
  "upgrade_settings qv qp clientstream = (case clientstream of
      Inl err \<Rightarrow> Some (Inl err)
    | Inr clientreader \<Rightarrow> (case StreamHeader_Read qv zero_StreamHeader clientreader of (controlHeader, _, clientreader) \<Rightarrow>
        if sh_Type controlHeader \<noteq> STREAM_CONTROL then Some (Inl (Errorf ''[Client Control Header Type Mismatch]''))
        else (case ParseFrame qv qp clientreader of
            None \<Rightarrow> None
          | Some ((ftype, Inl err), _) \<Rightarrow> Some (Inl err)
          | Some ((ftype, Inr frame), _) \<Rightarrow>
              if ftype \<noteq> FRAME_SETTINGS then Some (Inl (Errorf ''[Error Receiving Settings from client][Type Mismatch]''))
              else (case frame of FSettings sFrame \<Rightarrow> Some (Inr sFrame) | _ \<Rightarrow> None))))"

text \<open>The first result is what is written to the server's control stream.\<close>

definition UpgradeWTS :: "quicvarint \<Rightarrow> qpack \<Rightarrow> (string \<Rightarrow> goerror + 'u) \<Rightarrow> goerror option \<Rightarrow> goerror + reader \<Rightarrow> goerror + reader
    \<Rightarrow> (bytes \<times> (goerror + WTSession \<times> 'u Request)) option" where
  "UpgradeWTS qv qp parse_uri opened clientstream rrStream = (case opened of
      Some err \<Rightarrow> Some ([], Inl err)
    | None \<Rightarrow> do {
        h \<leftarrow> StreamHeader_GetBytes qv (zero_StreamHeader\<lparr>sh_Type := STREAM_CONTROL\<rparr>);
        b \<leftarrow> SettingsFrame_GetBytes qv \<lparr>sf_Settings = DEFAULT_SETTINGS\<rparr>;
        settings \<leftarrow> upgrade_settings qv qp clientstream;
        (case settings of
           Inl err \<Rightarrow> Some (h @ b, Inl err)
         | Inr _ \<Rightarrow> do {
             res \<leftarrow> upgrade_request qv qp parse_uri rrStream;
             Some (h @ b, res) }) })"

section \<open>Sessions\<close>

definition WTSession_AcceptSession :: "quicvarint \<Rightarrow> qpack \<Rightarrow> WTSession \<Rightarrow> WTSession option" where
  "WTSession_AcceptSession qv qp wts = do {
     w \<leftarrow> ResponseWriter_WriteHeader qv qp 200 (wts_ResponseWriter wts);
     Some (wts\<lparr>wts_ResponseWriter := w, wts_uniLoops := Suc (wts_uniLoops wts)\<rparr>) }"

text \<open>The error that is checked after \<open>header.Read\<close> is the one of \<open>AcceptStream\<close>, which is nil.\<close>

definition WTSession_AcceptStream :: "quicvarint \<Rightarrow> goerror + reader \<Rightarrow> goerror + reader" where
  "WTSession_AcceptStream qv accepted = (case accepted of
      Inl err \<Rightarrow> Inl err
    | Inr stream \<Rightarrow> (case StreamHeader_Read qv zero_StreamHeader stream of (header, _, stream) \<Rightarrow>
        if sh_Type header \<noteq> STREAM_WEBTRANSPORT_BI_STREAM then Inl (Errorf ''[Stream Header Mismatch]'')
        else Inr stream))"

datatype uni_loop = UniRuns | UniAcceptError | UniHeaderError

fun ProcesUniStreams :: "quicvarint \<Rightarrow> (goerror + reader) list \<Rightarrow> WTSession \<Rightarrow> uni_loop \<times> WTSession" where
  "ProcesUniStreams qv [] wts = (UniRuns, wts)"
| "ProcesUniStreams qv (Inl err # es) wts = (UniAcceptError, wts)"
| "ProcesUniStreams qv (Inr stream # es) wts = (case StreamHeader_Read qv zero_StreamHeader stream of
      (_, Some NetTimeout, _) \<Rightarrow> ProcesUniStreams qv es wts
    | (_, Some _, _) \<Rightarrow> (UniHeaderError, wts)
    | (_, None, stream) \<Rightarrow> ProcesUniStreams qv es (wts\<lparr>wts_uniStreamsChan := wts_uniStreamsChan wts @ [stream]\<rparr>))"

text \<open>Opening a stream: the error, or what was written to the new stream.\<close>

definition open_with_header :: "quicvarint \<Rightarrow> u64 \<Rightarrow> goerror option \<Rightarrow> (goerror + bytes) option" where
  "open_with_header qv htype opened = (case opened of
      Some err \<Rightarrow> Some (Inl err)
    | None \<Rightarrow> do {
        b \<leftarrow> StreamHeader_GetBytes qv (zero_StreamHeader\<lparr>sh_Type := htype, sh_ID := 0\<rparr>);
        Some (Inr b) })"

definition WTSession_OpenUniStreamSync :: "quicvarint \<Rightarrow> goerror option \<Rightarrow> (goerror + bytes) option" where
  "WTSession_OpenUniStreamSync qv opened = open_with_header qv STREAM_WEBTRANSPORT_UNI_STREAM opened"

definition WTSession_OpenStream :: "quicvarint \<Rightarrow> goerror option \<Rightarrow> (goerror + bytes) option" where
  "WTSession_OpenStream qv opened = open_with_header qv STREAM_WEBTRANSPORT_BI_STREAM opened"

definition WTSession_OpenUniStream :: "quicvarint \<Rightarrow> goerror option \<Rightarrow> (goerror + bytes) option" where
  "WTSession_OpenUniStream qv opened = open_with_header qv STREAM_WEBTRANSPORT_UNI_STREAM opened"

text \<open>\<open>return <-wts.uniStreamsChan, nil\<close>: \<^const>\<open>None\<close> while the channel is empty, which blocks.\<close>

definition WTSession_AcceptUniStream :: "WTSession \<Rightarrow> (reader \<times> WTSession) option" where
  "WTSession_AcceptUniStream wts = (case wts_uniStreamsChan wts of
      [] \<Rightarrow> None
    | stream # rest \<Rightarrow> Some (stream, wts\<lparr>wts_uniStreamsChan := rest\<rparr>))"

text \<open>\<open>quicConn_close\<close> is \<open>CloseWithError\<close> of the QUIC connection.\<close>

definition WTSession_CloseWithError :: "(u64 \<Rightarrow> string \<Rightarrow> goerror option) \<Rightarrow> u64 \<Rightarrow> string \<Rightarrow> goerror option" where
  "WTSession_CloseWithError quicConn_close errcode phrase = quicConn_close errcode phrase"

section \<open>Headers are read back\<close>

lemma stream_type_fits [simp]:
  "fits62 STREAM_CONTROL" "fits62 STREAM_WEBTRANSPORT_UNI_STREAM" "fits62 STREAM_WEBTRANSPORT_BI_STREAM"
  by (simp_all add: stream_type_defs fits62_def)

lemma stream_type_neq [simp]:
  "STREAM_WEBTRANSPORT_UNI_STREAM \<notin> {STREAM_CONTROL, STREAM_QPACK_ENCODER, STREAM_QPACK_DECODER}"
  "STREAM_WEBTRANSPORT_BI_STREAM \<notin> {STREAM_CONTROL, STREAM_QPACK_ENCODER, STREAM_QPACK_DECODER, STREAM_PUSH,
     STREAM_WEBTRANSPORT_UNI_STREAM}"
  "STREAM_CONTROL \<notin> {STREAM_PUSH, STREAM_WEBTRANSPORT_UNI_STREAM}"
  by (simp_all add: stream_type_defs)

definition settings_ok :: "Setting list \<Rightarrow> bool" where
  "settings_ok ss \<longleftrightarrow> list_all setting_ok ss \<and> 16 * length ss \<le> maxAlloc"

lemma DEFAULT_SETTINGS_ok: "settings_ok DEFAULT_SETTINGS"
  by (simp add: settings_ok_def DEFAULT_SETTINGS_def setting_ok_def setting_key_defs fits62_def maxAlloc_def)

text \<open>An incoming stream: a payload behind its header, or nothing before the deadline.\<close>

definition uni_event :: "quicvarint \<Rightarrow> reader option \<Rightarrow> goerror + reader" where
  "uni_event qv ev = (case ev of
      Some r \<Rightarrow> Inr (r\<lparr>rd_data := venc qv STREAM_WEBTRANSPORT_UNI_STREAM @ venc qv 0 @ rd_data r\<rparr>)
    | None \<Rightarrow> Inr \<lparr>rd_data = [], rd_end = NetTimeout\<rparr>)"

context varint_codec
begin

lemma control_header_trip:
  "StreamHeader_GetBytes qv (zero_StreamHeader\<lparr>sh_Type := STREAM_CONTROL\<rparr>) = Some (venc qv STREAM_CONTROL)"
  "StreamHeader_Read qv zero_StreamHeader (r\<lparr>rd_data := venc qv STREAM_CONTROL @ rest\<rparr>)
     = (zero_StreamHeader\<lparr>sh_Type := STREAM_CONTROL\<rparr>, None, r\<lparr>rd_data := rest\<rparr>)"
  using stream_type_neq(3)
  by (simp_all add: StreamHeader_GetBytes_def StreamHeader_Read_def zero_StreamHeader_def Append_fits Read_venc)

lemma uni_header_trip:
  "WTSession_OpenUniStream qv None = Some (Inr (venc qv STREAM_WEBTRANSPORT_UNI_STREAM @ venc qv 0))"
  "StreamHeader_Read qv zero_StreamHeader (r\<lparr>rd_data := venc qv STREAM_WEBTRANSPORT_UNI_STREAM @ venc qv 0 @ rest\<rparr>)
     = (\<lparr>sh_Type = STREAM_WEBTRANSPORT_UNI_STREAM, sh_ID = 0\<rparr>, None, r\<lparr>rd_data := rest\<rparr>)"
  using stream_type_neq(1)
  by (simp_all add: WTSession_OpenUniStream_def open_with_header_def StreamHeader_GetBytes_def StreamHeader_Read_def
      zero_StreamHeader_def Append_fits Read_venc)

lemma bi_header_swallows:
  assumes "fits62 x"
  shows "WTSession_OpenStream qv None = Some (Inr (venc qv STREAM_WEBTRANSPORT_BI_STREAM))"
    and "WTSession_AcceptStream qv (Inr (r\<lparr>rd_data := venc qv STREAM_WEBTRANSPORT_BI_STREAM @ venc qv x @ rest\<rparr>))
      = Inr (r\<lparr>rd_data := rest\<rparr>)"
  using stream_type_neq(2) assms
  by (simp_all add: WTSession_OpenStream_def open_with_header_def StreamHeader_GetBytes_def WTSession_AcceptStream_def
      StreamHeader_Read_def zero_StreamHeader_def Append_fits Read_venc)

lemma ProcesUniStreams_events:
  "ProcesUniStreams qv (map (uni_event qv) evs @ es) wts
     = ProcesUniStreams qv es (wts\<lparr>wts_uniStreamsChan := wts_uniStreamsChan wts @ map the (filter (\<lambda>e. e \<noteq> None) evs)\<rparr>)"
proof (induction evs arbitrary: wts)
  case (Cons ev evs)
  show ?case
  proof (cases ev)
    case None
    then show ?thesis using Cons by (simp add: uni_event_def StreamHeader_Read_def Read_at_end)
  next
    case (Some r)
    have "StreamHeader_Read qv zero_StreamHeader (r\<lparr>rd_data := venc qv STREAM_WEBTRANSPORT_UNI_STREAM @ venc qv 0 @ rd_data r\<rparr>)
        = (\<lparr>sh_Type = STREAM_WEBTRANSPORT_UNI_STREAM, sh_ID = 0\<rparr>, None, r)"
      using uni_header_trip(2) [where r = r and rest = "rd_data r"] by simp
    then show ?thesis using Cons Some by (simp add: uni_event_def)
  qed
qed simp

lemma ProcesUniStreams_stops:
  assumes "err \<noteq> NetTimeout"
  shows "ProcesUniStreams qv (Inr \<lparr>rd_data = [], rd_end = err\<rparr> # es) wts = (UniHeaderError, wts)"
  using assms by (cases err) (simp_all add: StreamHeader_Read_def Read_at_end)

end

context h3_codec
begin

lemma upgrade_settings_ok:
  assumes "settings_ok ss" and "SettingsFrame_GetBytes qv \<lparr>sf_Settings = ss\<rparr> = Some b"
  shows "upgrade_settings qv qp (Inr (r\<lparr>rd_data := venc qv STREAM_CONTROL @ b @ rest\<rparr>)) = Some (Inr \<lparr>sf_Settings = ss\<rparr>)"
  using frame_trip [of "FSettings \<lparr>sf_Settings = ss\<rparr>"] assms
  by (auto simp: upgrade_settings_def control_header_trip settings_ok_def)

lemma server_control_stream:
  "\<exists>b. SettingsFrame_GetBytes qv \<lparr>sf_Settings = DEFAULT_SETTINGS\<rparr> = Some b \<and>
    upgrade_settings qv qp (Inr (r\<lparr>rd_data := venc qv STREAM_CONTROL @ b\<rparr>)) = Some (Inr \<lparr>sf_Settings = DEFAULT_SETTINGS\<rparr>)"
  using upgrade_settings_ok [OF DEFAULT_SETTINGS_ok, where rest = "[]"] settings_frame_trip(1) [of "\<lparr>sf_Settings = DEFAULT_SETTINGS\<rparr>"]
    DEFAULT_SETTINGS_ok by (auto simp: settings_ok_def)

end

text \<open>The response header of an accepted session.\<close>

definition accepted_fields :: "HeaderField list" where
  "accepted_fields = [\<lparr>hf_Name = '':status'', hf_Value = ''200''\<rparr>,
     \<lparr>hf_Name = ''sec-webtransport-http3-draft'', hf_Value = ''draft02''\<rparr>]"

definition new_WTSession :: WTSession where
  "new_WTSession = \<lparr>wts_ResponseWriter = NewResponseWriter\<lparr>rw_header :=
      Header_Add ''Sec-Webtransport-Http3-Draft'' ''draft02'' (rw_header NewResponseWriter)\<rparr>, wts_uniStreamsChan = [], wts_uniLoops = 0\<rparr>"

lemma accepted_response: "response_hfs 200 (rw_header (wts_ResponseWriter new_WTSession)) = accepted_fields"
  by (simp add: response_hfs_def new_WTSession_def accepted_fields_def Header_Add_def Header_values_def NewResponseWriter_def
      gomap_set_def CanonicalHeaderKey_def token_char_def ToLower_def to_lower_def to_upper_def is_lower_def is_upper_def
      is_digit_def Itoa_def nat_digits.simps char_of_def bit_iff_odd)

context h3_codec
begin

lemma upgrade_request_ok:
  assumes "WrapRequest qp parse_uri \<lparr>hfr_hfs = hfs\<rparr> = Inr (req, ''webtransport'')"
    and "HeaderFrame_GetBytes qv qp \<lparr>hfr_hfs = hfs\<rparr> = Some b" and "length (qp_Encode qp hfs) \<le> maxAlloc"
  shows "upgrade_request qv qp parse_uri (Inr (r\<lparr>rd_data := b @ rest\<rparr>)) = Some (Inr (new_WTSession, req))"
  using frame_trip [of "FHeaders \<lparr>hfr_hfs = hfs\<rparr>"] assms
  by (auto simp: upgrade_request_def new_WTSession_def)

lemma AcceptSession_response:
  assumes "length (qp_Encode qp accepted_fields) \<le> maxAlloc"
  shows "\<exists>wts'. WTSession_AcceptSession qv qp new_WTSession = Some wts' \<and> wts_uniLoops wts' = 1 \<and>
    ParseFrame qv qp \<lparr>rd_data = rw_written (wts_ResponseWriter wts'), rd_end = EOF\<rparr> =
      Some ((FRAME_HEADERS, Inr (FHeaders \<lparr>hfr_hfs = accepted_fields\<rparr>)), \<lparr>rd_data = [], rd_end = EOF\<rparr>)"
proof -
  have n: "rw_written (wts_ResponseWriter new_WTSession) = []" by (simp add: new_WTSession_def NewResponseWriter_def)
  obtain b where b: "ResponseWriter_WriteHeader qv qp 200 (wts_ResponseWriter new_WTSession)
      = Some ((wts_ResponseWriter new_WTSession)\<lparr>rw_written := b\<rparr>)"
    "\<And>r rest. ParseFrame qv qp (r\<lparr>rd_data := b @ rest\<rparr>)
      = Some ((FRAME_HEADERS, Inr (FHeaders \<lparr>hfr_hfs = accepted_fields\<rparr>)), r\<lparr>rd_data := rest\<rparr>)"
    using WriteHeader_frame [of 200 "wts_ResponseWriter new_WTSession"] assms n unfolding accepted_response by auto
  then show ?thesis using b(2) [where r = "\<lparr>rd_data = [], rd_end = EOF\<rparr>" and rest = "[]"]
    by (simp add: WTSession_AcceptSession_def new_WTSession_def)
qed

end

section \<open>Properties\<close>

text \<open>Property C34 (the upgrade to WebTransport). Let a client open its control stream with its settings, and send an extended
  CONNECT request for the protocol webtransport whose URI parses. Then \<open>UpgradeWTS\<close> returns a session with that request. The
  client, on its side, reads from the server's control stream the seven default settings, and after \<open>AcceptSession\<close> reads a
  header frame with status 200 and the draft of the protocol; the session then has one goroutine for its incoming unidirectional streams.\<close>

theorem webtransport_upgrade:
  assumes "h3_codec qv qp" and "settings_ok ss" and "SettingsFrame_GetBytes qv \<lparr>sf_Settings = ss\<rparr> = Some sb"
    and "HeaderFrame_GetBytes qv qp \<lparr>hfr_hfs = hfs\<rparr> = Some hb" and "length (qp_Encode qp hfs) \<le> maxAlloc"
    and "last_value '':method'' hfs = ''CONNECT''" and "last_value '':protocol'' hfs = ''webtransport''"
    and "last_value ''content-length'' hfs = []"
    and "parse_uri (''https://'' @ last_value '':authority'' hfs @ last_value '':path'' hfs) = Inr u"
    and "length (qp_Encode qp accepted_fields) \<le> maxAlloc"
  shows "\<exists>out wts req wts'.
    UpgradeWTS qv qp parse_uri None (Inr (r\<lparr>rd_data := venc qv STREAM_CONTROL @ sb @ rest\<rparr>)) (Inr (r'\<lparr>rd_data := hb @ rest'\<rparr>))
      = Some (out, Inr (wts, req)) \<and>
    rq_URL req = u \<and> rq_Host req = last_value '':authority'' hfs \<and> rq_RequestURI req = last_value '':path'' hfs \<and>
    upgrade_settings qv qp (Inr \<lparr>rd_data = out, rd_end = EOF\<rparr>) = Some (Inr \<lparr>sf_Settings = DEFAULT_SETTINGS\<rparr>) \<and>
    WTSession_AcceptSession qv qp wts = Some wts' \<and> wts_uniLoops wts' = 1 \<and>
    ParseFrame qv qp \<lparr>rd_data = rw_written (wts_ResponseWriter wts'), rd_end = EOF\<rparr> =
      Some ((FRAME_HEADERS, Inr (FHeaders \<lparr>hfr_hfs = accepted_fields\<rparr>)), \<lparr>rd_data = [], rd_end = EOF\<rparr>)"
proof -
  have vc: "varint_codec qv" using assms(1) by (simp add: h3_codec_def)
  obtain req where req: "WrapRequest qp parse_uri \<lparr>hfr_hfs = hfs\<rparr> = Inr (req, ''webtransport'')"
    "rq_URL req = u" "rq_Host req = last_value '':authority'' hfs" "rq_RequestURI req = last_value '':path'' hfs"
    using WrapRequest_result [of qp hfs parse_uri] assms(6-9) by auto
  obtain b where b: "SettingsFrame_GetBytes qv \<lparr>sf_Settings = DEFAULT_SETTINGS\<rparr> = Some b"
    "upgrade_settings qv qp (Inr \<lparr>rd_data = venc qv STREAM_CONTROL @ b, rd_end = EOF\<rparr>) = Some (Inr \<lparr>sf_Settings = DEFAULT_SETTINGS\<rparr>)"
    using h3_codec.server_control_stream [OF assms(1), of "\<lparr>rd_data = [], rd_end = EOF\<rparr>"] by auto
  have up: "UpgradeWTS qv qp parse_uri None (Inr (r\<lparr>rd_data := venc qv STREAM_CONTROL @ sb @ rest\<rparr>)) (Inr (r'\<lparr>rd_data := hb @ rest'\<rparr>))
      = Some (venc qv STREAM_CONTROL @ b, Inr (new_WTSession, req))"
    using h3_codec.upgrade_settings_ok [OF assms(1-3)] h3_codec.upgrade_request_ok [OF assms(1) req(1) assms(4,5)]
    by (simp add: UpgradeWTS_def varint_codec.control_header_trip(1) [OF vc] b(1))
  from up req(2-4) b(2) h3_codec.AcceptSession_response [OF assms(1,10)] show ?thesis by blast
qed

definition sample_connect :: "HeaderField list" where
  "sample_connect = [\<lparr>hf_Name = '':method'', hf_Value = ''CONNECT''\<rparr>, \<lparr>hf_Name = '':protocol'', hf_Value = ''webtransport''\<rparr>,
     \<lparr>hf_Name = '':authority'', hf_Value = ''relay:4443''\<rparr>, \<lparr>hf_Name = '':path'', hf_Value = ''/moqt''\<rparr>]"

theorem webtransport_upgrade_witness:
  "\<exists>sb hb out wts req. SettingsFrame_GetBytes rfc9000 \<lparr>sf_Settings = DEFAULT_SETTINGS\<rparr> = Some sb \<and>
    HeaderFrame_GetBytes rfc9000 qpack_literal \<lparr>hfr_hfs = sample_connect\<rparr> = Some hb \<and>
    UpgradeWTS rfc9000 qpack_literal (Inr :: string \<Rightarrow> goerror + string) None
      (Inr \<lparr>rd_data = venc rfc9000 STREAM_CONTROL @ sb, rd_end = EOF\<rparr>) (Inr \<lparr>rd_data = hb, rd_end = EOF\<rparr>)
      = Some (out, Inr (wts, req)) \<and> rq_URL req = ''https://relay:4443/moqt''"
proof -
  have l: "length (qp_Encode qpack_literal sample_connect) \<le> maxAlloc" "length (qp_Encode qpack_literal accepted_fields) \<le> maxAlloc"
    by (simp_all add: qpack_literal_def sample_connect_def accepted_fields_def field_enc_def prefix_int_def int_tail.simps maxAlloc_def)
  obtain hb where hb: "HeaderFrame_GetBytes rfc9000 qpack_literal \<lparr>hfr_hfs = sample_connect\<rparr> = Some hb"
    using h3.header_frame_trip(1) [of "\<lparr>hfr_hfs = sample_connect\<rparr>"] l(1) by simp
  obtain sb where sb: "SettingsFrame_GetBytes rfc9000 \<lparr>sf_Settings = DEFAULT_SETTINGS\<rparr> = Some sb"
    using h3.server_control_stream by blast
  have v: "last_value '':method'' sample_connect = ''CONNECT''" "last_value '':protocol'' sample_connect = ''webtransport''"
    "last_value ''content-length'' sample_connect = []"
    "(Inr :: string \<Rightarrow> goerror + string) (''https://'' @ last_value '':authority'' sample_connect @ last_value '':path'' sample_connect)
      = Inr ''https://relay:4443/moqt''"
    by (simp_all add: last_value_def sample_connect_def)
  show ?thesis
    using webtransport_upgrade [where parse_uri = "Inr :: string \<Rightarrow> goerror + string"
        and r = "\<lparr>rd_data = [], rd_end = EOF\<rparr>" and rest = "[]" and r' = "\<lparr>rd_data = [], rd_end = EOF\<rparr>" and rest' = "[]",
        OF qpack_literal_codec DEFAULT_SETTINGS_ok sb hb l(1) v l(2)] sb hb
    by auto
qed

text \<open>Incoming WebTransport streams. What \<open>OpenUniStream\<close> writes is a header after which the receiving side finds
  exactly the payload: the accept loop passes on all such streams, in their order, and skips the ones whose header does
  not come in time. A stream that ends before its header ends the loop: what comes later is never passed on.\<close>

lemma uni_streams_delivered:
  assumes "varint_codec qv" and "err \<noteq> NetTimeout"
  shows "WTSession_OpenUniStream qv None = Some (Inr (venc qv STREAM_WEBTRANSPORT_UNI_STREAM @ venc qv 0)) \<and>
    ProcesUniStreams qv (map (uni_event qv) evs) wts
      = (UniRuns, wts\<lparr>wts_uniStreamsChan := wts_uniStreamsChan wts @ map the (filter (\<lambda>e. e \<noteq> None) evs)\<rparr>) \<and>
    ProcesUniStreams qv (map (uni_event qv) evs @ Inr \<lparr>rd_data = [], rd_end = err\<rparr> # es) wts
      = (UniHeaderError, wts\<lparr>wts_uniStreamsChan := wts_uniStreamsChan wts @ map the (filter (\<lambda>e. e \<noteq> None) evs)\<rparr>)"
  using varint_codec.uni_header_trip(1) [OF assms(1)] varint_codec.ProcesUniStreams_stops [OF assms]
    varint_codec.ProcesUniStreams_events [OF assms(1), where es = "[]"]
    varint_codec.ProcesUniStreams_events [OF assms(1), where es = "Inr \<lparr>rd_data = [], rd_end = err\<rparr> # es"]
  by simp

theorem uni_streams_delivered_witness:
  "snd (ProcesUniStreams rfc9000 [uni_event rfc9000 (Some \<lparr>rd_data = [9, 8], rd_end = EOF\<rparr>), uni_event rfc9000 None,
      uni_event rfc9000 (Some \<lparr>rd_data = [7], rd_end = EOF\<rparr>)] new_WTSession)
    = new_WTSession\<lparr>wts_uniStreamsChan := [\<lparr>rd_data = [9, 8], rd_end = EOF\<rparr>, \<lparr>rd_data = [7], rd_end = EOF\<rparr>]\<rparr>"
  using uni_streams_delivered [OF rfc9000_codec, of EOF
      "[Some \<lparr>rd_data = [9, 8], rd_end = EOF\<rparr>, None, Some \<lparr>rd_data = [7], rd_end = EOF\<rparr>]" new_WTSession]
  by (simp add: new_WTSession_def)

text \<open>Bidirectional WebTransport streams lose a number. \<open>OpenStream\<close> writes the stream type without the session
  ID, and \<open>AcceptStream\<close> reads an ID: the first number of what the opener writes on the stream is swallowed, for a control
  stream the type of its first message.\<close>

lemma bi_stream_loses_number:
  assumes "varint_codec qv" and "fits62 x"
  shows "\<exists>h. WTSession_OpenStream qv None = Some (Inr h) \<and>
    (\<forall>r rest. WTSession_AcceptStream qv (Inr (r\<lparr>rd_data := h @ venc qv x @ rest\<rparr>)) = Inr (r\<lparr>rd_data := rest\<rparr>))"
  using varint_codec.bi_header_swallows [OF assms] by blast

theorem bi_stream_loses_number_witness:
  "\<exists>h. WTSession_OpenStream rfc9000 None = Some (Inr h) \<and>
    WTSession_AcceptStream rfc9000 (Inr \<lparr>rd_data = h @ venc rfc9000 CLIENT_SETUP @ [1, 2], rd_end = EOF\<rparr>)
      = Inr \<lparr>rd_data = [1, 2], rd_end = EOF\<rparr>"
proof -
  obtain h where h: "WTSession_OpenStream rfc9000 None = Some (Inr h)"
    "\<And>r rest. WTSession_AcceptStream rfc9000 (Inr (r\<lparr>rd_data := h @ venc rfc9000 CLIENT_SETUP @ rest\<rparr>)) = Inr (r\<lparr>rd_data := rest\<rparr>)"
    using bi_stream_loses_number [OF rfc9000_codec mtype_fits(7)] by blast
  from h(1) h(2) [where r = "\<lparr>rd_data = [], rd_end = EOF\<rparr>" and rest = "[1, 2]"] show ?thesis by auto
qed

end
