(* ===== verification/Streams_Map.thy ===== *)
theory Streams_Map
  imports Go_Prelude
begin

text \<open>
  \<open>StreamsMap[T ObjectStream]\<close> of \<open>src/moqt/streamsmap.go\<close>: the streams of a session by subscribe ID, with a
  search by stream ID. The two methods of the \<open>ObjectStream\<close> interface are the arguments \<open>getStreamID\<close> and
  \<open>getSubID\<close>: for the relay the elements are pointers and the methods read the heap. The lock makes
  every method one atomic step (\<open>DeleteStream\<close> is two: the search, then the deletion). The session that the struct
  embeds is used for logging only.

  A search that has several candidates returns the first that \<open>range\<close> visits, here the first of the list; the
  lemmas say what holds of every candidate, and when there is only one.

  Shown here: the methods keep the laws of a table (\<open>stream_table\<close>, interpreted on them); a stream that was
  added is found under its ID, under the only ID if it is the only one; \<open>DeleteStream\<close> removes exactly the stream
  with the given ID when every stream is stored under its own subscribe ID, and does not otherwise.
\<close>

section \<open>The operations\<close>

record 't StreamsMap =
  streams :: "(u64, 't) gomap"

definition NewStreamsMap :: "'t StreamsMap" where
  "NewStreamsMap = \<lparr>streams = []\<rparr>"

fun find_streamid :: "('t \<Rightarrow> string) \<Rightarrow> string \<Rightarrow> (u64, 't) gomap \<Rightarrow> (u64 \<times> 't) option" where
  "find_streamid getStreamID streamid [] = None"
| "find_streamid getStreamID streamid ((subid, stream) # m) =
    (if getStreamID stream = streamid then Some (subid, stream) else find_streamid getStreamID streamid m)"

definition GetSubID :: "('t \<Rightarrow> string) \<Rightarrow> 't StreamsMap \<Rightarrow> string \<Rightarrow> goerror + u64" where
  "GetSubID getStreamID s streamid = (case find_streamid getStreamID streamid (streams s) of
      Some (subid, _) \<Rightarrow> Inr subid
    | None \<Rightarrow> Inl (Errorf ''[SubID not found]''))"

definition StreamIDGetStream :: "('t \<Rightarrow> string) \<Rightarrow> 't StreamsMap \<Rightarrow> string \<Rightarrow> 't option" where
  "StreamIDGetStream getStreamID s streamid = (case find_streamid getStreamID streamid (streams s) of
      Some (_, stream) \<Rightarrow> Some stream
    | None \<Rightarrow> None)"

definition SubIDGetStream :: "'t StreamsMap \<Rightarrow> u64 \<Rightarrow> 't option" where
  "SubIDGetStream s subid = gomap_get (streams s) subid"

definition AddStream :: "u64 \<Rightarrow> 't \<Rightarrow> 't StreamsMap \<Rightarrow> 't StreamsMap" where
  "AddStream subid os s = s\<lparr>streams := gomap_set subid os (streams s)\<rparr>"

text \<open>\<open>DeleteStream\<close> deletes the key \<open>stream.GetSubID()\<close>, not the key the stream was found under.\<close>

definition DeleteStream :: "('t \<Rightarrow> string) \<Rightarrow> ('t \<Rightarrow> u64) \<Rightarrow> string \<Rightarrow> 't StreamsMap \<Rightarrow> 't StreamsMap" where
  "DeleteStream getStreamID getSubID streamid s = (case StreamIDGetStream getStreamID s streamid of
      Some stream \<Rightarrow> s\<lparr>streams := gomap_del (getSubID stream) (streams s)\<rparr>
    | None \<Rightarrow> s)"

section \<open>The table contract\<close>

text \<open>What the handlers rely on: a lookup by subscribe ID that sees the last \<open>AddStream\<close>, and a search by
  stream ID that finds an entry exactly if there is one.\<close>

locale stream_table =
  fixes sid :: "'t \<Rightarrow> string"
    and ok :: "'m \<Rightarrow> bool"
    and add :: "u64 \<Rightarrow> 't \<Rightarrow> 'm \<Rightarrow> 'm"
    and lookup :: "'m \<Rightarrow> u64 \<Rightarrow> 't option"
    and subid_of :: "'m \<Rightarrow> string \<Rightarrow> goerror + u64"
    and stream_of :: "'m \<Rightarrow> string \<Rightarrow> 't option"
  assumes ok_add: "ok m \<Longrightarrow> ok (add k v m)"
    and lookup_add: "lookup (add k v m) k' = (if k' = k then Some v else lookup m k')"
    and subid_of_sound: "ok m \<Longrightarrow> subid_of m s = Inr k \<Longrightarrow> \<exists>v. lookup m k = Some v \<and> sid v = s"
    and subid_of_complete: "subid_of m s = Inl e \<Longrightarrow> lookup m k = Some v \<Longrightarrow> sid v \<noteq> s"
    and stream_of_sound: "ok m \<Longrightarrow> stream_of m s = Some v \<Longrightarrow> sid v = s \<and> (\<exists>k. lookup m k = Some v)"
    and stream_of_complete: "stream_of m s = None \<Longrightarrow> lookup m k = Some v \<Longrightarrow> sid v \<noteq> s"
begin

lemma added_has_subid:
  assumes "ok m" and "sid v = s"
  shows "\<exists>k' w. subid_of (add k v m) s = Inr k' \<and> lookup (add k v m) k' = Some w \<and> sid w = s"
proof (cases "subid_of (add k v m) s")
  case (Inl e)
  with subid_of_complete [of "add k v m" s e k v] assms(2) show ?thesis by (simp add: lookup_add)
next
  case (Inr k')
  with subid_of_sound [OF ok_add [OF assms(1)] Inr] show ?thesis by blast
qed

lemma only_subid:
  assumes "ok m" and "lookup m k = Some v" and "sid v = s"
    and "\<And>k' w. lookup m k' = Some w \<Longrightarrow> sid w = s \<Longrightarrow> k' = k"
  shows "subid_of m s = Inr k"
proof (cases "subid_of m s")
  case (Inl e)
  with subid_of_complete assms(2,3) show ?thesis by blast
next
  case (Inr k')
  with subid_of_sound [OF assms(1) Inr] assms(4) show ?thesis by blast
qed

lemma only_stream:
  assumes "ok m" and "lookup m k = Some v" and "sid v = s"
    and "\<And>k' w. lookup m k' = Some w \<Longrightarrow> sid w = s \<Longrightarrow> k' = k"
  shows "stream_of m s = Some v"
proof (cases "stream_of m s")
  case None
  with stream_of_complete assms(2,3) show ?thesis by blast
next
  case (Some w)
  with stream_of_sound [OF assms(1) Some] assms(2,4) show ?thesis by fastforce
qed

lemma found_agrees: "ok m \<Longrightarrow> (\<exists>v. stream_of m s = Some v) \<longleftrightarrow> (\<exists>k. subid_of m s = Inr k)"
  by (metis sum.exhaust stream_of_complete stream_of_sound subid_of_complete subid_of_sound not_Some_eq)

end

section \<open>The methods meet the contract\<close>

definition StreamsMap_ok :: "'t StreamsMap \<Rightarrow> bool" where
  "StreamsMap_ok s \<longleftrightarrow> gomap_ok (streams s)"

lemma find_streamid_Some:
  "find_streamid f s m = Some (k, v) \<Longrightarrow> (k, v) \<in> set m \<and> f v = s"
  by (induction f s m rule: find_streamid.induct) (auto split: if_splits)

lemma find_streamid_None: "find_streamid f s m = None \<Longrightarrow> (k, v) \<in> set m \<Longrightarrow> f v \<noteq> s"
  by (induction f s m rule: find_streamid.induct) (auto split: if_splits)

lemma NewStreamsMap_ok [simp]: "StreamsMap_ok NewStreamsMap"
  by (simp add: StreamsMap_ok_def NewStreamsMap_def)

lemma AddStream_ok [simp]: "StreamsMap_ok s \<Longrightarrow> StreamsMap_ok (AddStream k v s)"
  by (simp add: StreamsMap_ok_def AddStream_def)

lemma DeleteStream_ok [simp]: "StreamsMap_ok s \<Longrightarrow> StreamsMap_ok (DeleteStream f g sid s)"
  by (simp add: StreamsMap_ok_def DeleteStream_def split: option.split)

lemma SubIDGetStream_Add [gomap_simps]:
  "SubIDGetStream (AddStream k v s) k' = (if k' = k then Some v else SubIDGetStream s k')"
  by (simp add: SubIDGetStream_def AddStream_def gomap_simps)

lemma SubIDGetStream_New [simp]: "SubIDGetStream NewStreamsMap k = None"
  by (simp add: SubIDGetStream_def NewStreamsMap_def)

lemma SubIDGetStream_in: "StreamsMap_ok s \<Longrightarrow> (k, v) \<in> set (streams s) \<Longrightarrow> SubIDGetStream s k = Some v"
  by (simp add: StreamsMap_ok_def SubIDGetStream_def gomap_ok_def)

interpretation smap: stream_table f StreamsMap_ok AddStream SubIDGetStream "GetSubID f" "StreamIDGetStream f"
  for f :: "'t \<Rightarrow> string"
proof unfold_locales
  fix m :: "'t StreamsMap" and s k e v
  show "\<exists>v. SubIDGetStream m k = Some v \<and> f v = s" if "StreamsMap_ok m" "GetSubID f m s = Inr k"
    using that by (auto simp: GetSubID_def split: option.splits dest!: find_streamid_Some intro: SubIDGetStream_in)
  show "f v \<noteq> s" if "GetSubID f m s = Inl e" "SubIDGetStream m k = Some v"
    using that by (auto simp: GetSubID_def SubIDGetStream_def split: option.splits
        dest: find_streamid_None [OF _ map_of_SomeD])
  show "f v = s \<and> (\<exists>k. SubIDGetStream m k = Some v)" if "StreamsMap_ok m" "StreamIDGetStream f m s = Some v"
    using that by (auto simp: StreamIDGetStream_def split: option.splits dest!: find_streamid_Some intro: SubIDGetStream_in)
  show "f v \<noteq> s" if "StreamIDGetStream f m s = None" "SubIDGetStream m k = Some v"
    using that by (auto simp: StreamIDGetStream_def SubIDGetStream_def split: option.splits
        dest: find_streamid_None [OF _ map_of_SomeD])
qed (simp_all add: gomap_simps)

text \<open>A stream's subscribe ID and stream ID say where it is stored.\<close>

definition own_keys :: "('t \<Rightarrow> u64) \<Rightarrow> 't StreamsMap \<Rightarrow> bool" where
  "own_keys getSubID s \<longleftrightarrow> (\<forall>(k, v) \<in> set (streams s). getSubID v = k)"

definition one_stream_per_id :: "('t \<Rightarrow> string) \<Rightarrow> 't StreamsMap \<Rightarrow> bool" where
  "one_stream_per_id getStreamID s \<longleftrightarrow> distinct (map (getStreamID \<circ> snd) (streams s))"

lemma one_stream_per_idD:
  assumes "one_stream_per_id f s" and "SubIDGetStream s k = Some v" and "SubIDGetStream s k' = Some w"
    and "f v = f w"
  shows "k' = k"
proof -
  have "(k, v) \<in> set (streams s)" "(k', w) \<in> set (streams s)"
    using assms(2,3) by (auto simp: SubIDGetStream_def dest: map_of_SomeD)
  moreover have "inj_on (f \<circ> snd) (set (streams s))"
    using assms(1) by (simp add: one_stream_per_id_def distinct_map)
  ultimately have "(k', w) = (k, v)" using assms(4) by (elim inj_onD) simp_all
  then show ?thesis by simp
qed

section \<open>Properties\<close>

text \<open>Deleting a stream. In a table whose streams are stored under their own subscribe IDs
  and have different stream IDs, \<open>DeleteStream\<close> removes the stream with the given ID and nothing else: no lookup
  finds it afterwards, and every lookup of another stream is as before.\<close>

lemma delete_stream_removes_exactly:
  assumes "StreamsMap_ok s" and "own_keys getSubID s" and "one_stream_per_id getStreamID s"
  shows "SubIDGetStream (DeleteStream getStreamID getSubID streamid s) k
    = (case SubIDGetStream s k of
         Some v \<Rightarrow> if getStreamID v = streamid then None else Some v
       | None \<Rightarrow> None)"
proof (cases "StreamIDGetStream getStreamID s streamid")
  case None
  then show ?thesis
    using smap.stream_of_complete [OF None] by (auto simp: DeleteStream_def split: option.splits)
next
  case (Some v)
  then obtain k' where v: "getStreamID v = streamid" "SubIDGetStream s k' = Some v"
    using smap.stream_of_sound [OF assms(1) Some] by blast
  then have "getSubID v = k'"
    using assms(2) by (auto simp: own_keys_def SubIDGetStream_def dest: map_of_SomeD)
  then have "SubIDGetStream (DeleteStream getStreamID getSubID streamid s) k = (if k = k' then None else SubIDGetStream s k)"
    using Some by (simp add: DeleteStream_def SubIDGetStream_def gomap_simps)
  moreover have "k = k'" if "SubIDGetStream s k = Some w" "getStreamID w = streamid" for w
    using one_stream_per_idD [OF assms(3) v(2) that(1)] that(2) v(1) by simp
  ultimately show ?thesis using v by (cases "SubIDGetStream s k") auto
qed

definition two_streams :: "(u64 \<times> string) StreamsMap" where
  "two_streams = AddStream 2 (2, ''b'') (AddStream 1 (1, ''a'') NewStreamsMap)"

theorem delete_stream_removes_exactly_witness:
  "StreamsMap_ok two_streams \<and> own_keys fst two_streams \<and> one_stream_per_id snd two_streams \<and>
   SubIDGetStream (DeleteStream snd fst ''a'' two_streams) 1 = None"
proof -
  have s: "streams two_streams = [(1, (1, ''a'')), (2, (2, ''b''))]"
    by (simp add: two_streams_def AddStream_def NewStreamsMap_def gomap_set_def)
  have "StreamsMap_ok two_streams" "own_keys fst two_streams" "one_stream_per_id snd two_streams"
    by (simp_all add: StreamsMap_ok_def gomap_ok_def own_keys_def one_stream_per_id_def s)
  with delete_stream_removes_exactly [OF this, of "''a''" 1]
  show ?thesis by (simp add: SubIDGetStream_def s)
qed

text \<open>A relay stores a subscriber's stream under the subscriber's
  subscribe ID, while the stream carries the ID of the subscription to the publisher. When these differ, deleting the
  stream leaves it in the table.\<close>

lemma delete_stream_misses_foreign_key:
  assumes "SubIDGetStream s k = Some v" and "StreamIDGetStream getStreamID s streamid = Some v" and "getSubID v \<noteq> k"
  shows "SubIDGetStream (DeleteStream getStreamID getSubID streamid s) k = Some v"
  using assms by (simp add: DeleteStream_def SubIDGetStream_def gomap_simps)

lemma delete_stream_misses_foreign_key_witness:
  "SubIDGetStream (AddStream 7 (99::u64, ''a'') NewStreamsMap) 7 = Some (99, ''a'') \<and>
   SubIDGetStream (DeleteStream snd fst ''a'' (AddStream 7 (99::u64, ''a'') NewStreamsMap)) 7 = Some (99, ''a'')"
proof -
  let ?s = "AddStream 7 (99::u64, ''a'') NewStreamsMap"
  have "SubIDGetStream ?s 7 = Some (99, ''a'')" by (simp add: gomap_simps)
  moreover have "StreamIDGetStream snd ?s ''a'' = Some (99, ''a'')"
    by (simp add: StreamIDGetStream_def AddStream_def NewStreamsMap_def gomap_set_def)
  ultimately show ?thesis using delete_stream_misses_foreign_key [of ?s 7 "(99, ''a'')" snd "''a''" fst] by simp
qed

end
