(* ===== verification/Wire_Streams.thy ===== *)
theory Wire_Streams
  imports Wire_Messages
begin

text \<open>
  Object streams: \<open>src/moqt/wire/object.go\<close>, \<open>groupstream.go\<close>, \<open>trackstream.go\<close> and \<open>stream.go\<close>. A
  \<open>GroupStream\<close> or \<open>TrackStream\<close> is a record of the fields of the struct; its \<open>reader\<close> is the byte
  stream it was parsed from (\<^const>\<open>None\<close> for the nil reader of a stream made by a publisher), and \<open>wg\<close>
  is the counter of its wait group, whose \<open>Done\<close> panics below zero. The mutex and the condition
  variable belong to the theory of the interleavings (\<open>Pipe_Concurrency\<close>).

  Shown here: headers and objects are read back as they were written; reading a whole stream of
  objects terminates and returns them in order; and what happens to a stream that is cut short.
\<close>

section \<open>Objects\<close>

definition STREAM_HEADER_GROUP :: u64 where "STREAM_HEADER_GROUP = 0x51"
definition STREAM_HEADER_TRACK :: u64 where "STREAM_HEADER_TRACK = 0x50"

record Object =
  obj_GroupID :: u64
  obj_ID :: u64
  obj_Payload :: bytes

definition zero_Object :: Object where
  "zero_Object = \<lparr>obj_GroupID = 0, obj_ID = 0, obj_Payload = []\<rparr>"

text \<open>The error of \<open>io.ReadFull\<close> on the payload is dropped.\<close>

definition Object_Parse :: "quicvarint \<Rightarrow> Object step" where
  "Object_Parse qv obj r = (case varint_step qv (\<lambda>v ob. ob\<lparr>obj_ID := v\<rparr>) obj r of
      None \<Rightarrow> None
    | Some (obj, Some e, r) \<Rightarrow> Some (obj, Some e, r)
    | Some (obj, None, r) \<Rightarrow> (case qv_Read qv r of
          (Inl e, r) \<Rightarrow> Some (obj, Some e, r)
        | (Inr len, r) \<Rightarrow> (case make_ReadFull len r of
              None \<Rightarrow> None
            | Some ((payload, _, _), r) \<Rightarrow> Some (obj\<lparr>obj_Payload := payload\<rparr>, None, r))))"

definition Object_GetBytes :: "quicvarint \<Rightarrow> Object \<Rightarrow> bytes option" where
  "Object_GetBytes qv ob = do {
     data \<leftarrow> qv_Append qv [] (obj_ID ob);
     data \<leftarrow> qv_Append qv data (word_of_nat (length (obj_Payload ob)));
     Some (data @ obj_Payload ob) }"

section \<open>Group streams\<close>

record GroupStream =
  gs_SubID :: u64
  gs_TrackAlias :: u64
  gs_StreamID :: string
  gs_GroupID :: u64
  gs_SendOrder :: u64
  gs_ObjectsArr :: "Object list"
  gs_IsEOF :: bool
  gs_wg :: nat
  gs_reader :: "reader option"

definition zero_GroupStream :: GroupStream where
  "zero_GroupStream = \<lparr>gs_SubID = 0, gs_TrackAlias = 0, gs_StreamID = '''', gs_GroupID = 0,
     gs_SendOrder = 0, gs_ObjectsArr = [], gs_IsEOF = False, gs_wg = 0, gs_reader = None\<rparr>"

definition NewGroupStream :: "u64 \<Rightarrow> u64 \<Rightarrow> u64 \<Rightarrow> GroupStream" where
  "NewGroupStream subid grouid alias = zero_GroupStream\<lparr>gs_SubID := subid, gs_TrackAlias := alias,
     gs_SendOrder := 0, gs_GroupID := grouid, gs_IsEOF := False, gs_wg := 0, gs_ObjectsArr := []\<rparr>"

text \<open>\<open>Parse\<close> keeps the reader in the stream; what is left of it after the header is what
  \<open>ReadObject\<close> reads from.\<close>

definition GroupStream_Parse :: "quicvarint \<Rightarrow> u64 \<Rightarrow> GroupStream \<Rightarrow> reader \<Rightarrow> (GroupStream \<times> goerror option) option" where
  "GroupStream_Parse qv subid gs r =
    (case run_steps
       [varint_step qv (\<lambda>v gs. gs\<lparr>gs_TrackAlias := v\<rparr>),
        varint_step qv (\<lambda>v gs. gs\<lparr>gs_GroupID := v\<rparr>),
        varint_step qv (\<lambda>v gs. gs\<lparr>gs_SendOrder := v\<rparr>)]
       (gs\<lparr>gs_SubID := subid, gs_IsEOF := False, gs_wg := 0, gs_ObjectsArr := []\<rparr>) r of
       None \<Rightarrow> None
     | Some (gs, err, r') \<Rightarrow> Some (gs\<lparr>gs_reader := Some r'\<rparr>, err))"

definition GroupStream_GetHeaderSubIDBytes :: "quicvarint \<Rightarrow> GroupStream \<Rightarrow> u64 \<Rightarrow> bytes option" where
  "GroupStream_GetHeaderSubIDBytes qv gs subid = do {
     data \<leftarrow> qv_Append qv [] STREAM_HEADER_GROUP;
     data \<leftarrow> qv_Append qv data subid;
     data \<leftarrow> qv_Append qv data (gs_TrackAlias gs);
     data \<leftarrow> qv_Append qv data (gs_GroupID gs);
     qv_Append qv data (gs_SendOrder gs) }"

definition GroupStream_GetHeaderBytes :: "quicvarint \<Rightarrow> GroupStream \<Rightarrow> bytes option" where
  "GroupStream_GetHeaderBytes qv gs = do {
     data \<leftarrow> qv_Append qv [] STREAM_HEADER_GROUP;
     data \<leftarrow> qv_Append qv data (gs_SubID gs);
     data \<leftarrow> qv_Append qv data (gs_TrackAlias gs);
     data \<leftarrow> qv_Append qv data (gs_GroupID gs);
     qv_Append qv data (gs_SendOrder gs) }"

definition GroupStream_WgAdd :: "GroupStream \<Rightarrow> GroupStream" where
  "GroupStream_WgAdd gs = gs\<lparr>gs_wg := Suc (gs_wg gs)\<rparr>"

definition GroupStream_WgDone :: "GroupStream \<Rightarrow> GroupStream option" where
  "GroupStream_WgDone gs = (if gs_wg gs = 0 then None else Some (gs\<lparr>gs_wg := gs_wg gs - 1\<rparr>))"

definition GroupStream_SetStreamID :: "string \<Rightarrow> GroupStream \<Rightarrow> GroupStream" where
  "GroupStream_SetStreamID sid gs = gs\<lparr>gs_StreamID := sid\<rparr>"

definition GroupStream_SetReader :: "reader \<Rightarrow> GroupStream \<Rightarrow> GroupStream" where
  "GroupStream_SetReader r gs = gs\<lparr>gs_reader := Some r\<rparr>"

definition GroupStream_Close :: "GroupStream \<Rightarrow> GroupStream" where
  "GroupStream_Close gs = gs\<lparr>gs_IsEOF := True\<rparr>"

definition GroupStream_WriteObject :: "Object \<Rightarrow> GroupStream \<Rightarrow> GroupStream" where
  "GroupStream_WriteObject obj gs = gs\<lparr>gs_ObjectsArr := gs_ObjectsArr gs @ [obj]\<rparr>"

text \<open>\<open>ReadObject\<close> returns the group of the stream and the object (whose own \<open>GroupID\<close> it leaves
  zero), or an error; at \<open>io.EOF\<close> the stream is closed.\<close>

definition GroupStream_ReadObject ::
  "quicvarint \<Rightarrow> GroupStream \<Rightarrow> ((goerror + u64 \<times> Object) \<times> GroupStream) option" where
  "GroupStream_ReadObject qv gs = (case gs_reader gs of
      None \<Rightarrow> Some (Inl (Errorf ''Reader is nil''), gs)
    | Some r \<Rightarrow> (case Object_Parse qv zero_Object r of
          None \<Rightarrow> None
        | Some (object, Some err, r') \<Rightarrow>
            (let gs = gs\<lparr>gs_reader := Some r'\<rparr>
             in if err = EOF then Some (Inl err, GroupStream_Close gs) else Some (Inl err, gs))
        | Some (object, None, r') \<Rightarrow>
            (let gs = gs\<lparr>gs_reader := Some r'\<rparr>
             in Some (Inr (gs_GroupID gs, object), GroupStream_WriteObject object gs))))"

text \<open>The part of \<open>Pipe\<close> between \<open>Wait\<close> and \<open>Unlock\<close>: the bytes of the objects from \<open>index\<close> on, and
  the index after them.\<close>

fun collect_group :: "quicvarint \<Rightarrow> Object list \<Rightarrow> bytes \<Rightarrow> bytes option" where
  "collect_group qv [] data = Some data"
| "collect_group qv (obj # objs) data = do {
     b \<leftarrow> Object_GetBytes qv obj;
     collect_group qv objs (data @ b) }"

definition GroupStream_Pipe_collect :: "quicvarint \<Rightarrow> GroupStream \<Rightarrow> nat \<Rightarrow> (nat \<times> bytes) option" where
  "GroupStream_Pipe_collect qv gs index = do {
     data \<leftarrow> collect_group qv (drop index (gs_ObjectsArr gs)) [];
     Some (max index (length (gs_ObjectsArr gs)), data) }"

section \<open>Track streams\<close>

record TrackStream =
  ts_SubID :: u64
  ts_StreamID :: string
  ts_TrackAlias :: u64
  ts_SendOrder :: u64
  ts_ObjectsArr :: "Object list"
  ts_IsEOF :: bool
  ts_wg :: nat
  ts_reader :: "reader option"

definition zero_TrackStream :: TrackStream where
  "zero_TrackStream = \<lparr>ts_SubID = 0, ts_StreamID = '''', ts_TrackAlias = 0, ts_SendOrder = 0,
     ts_ObjectsArr = [], ts_IsEOF = False, ts_wg = 0, ts_reader = None\<rparr>"

text \<open>The alias passed to \<open>NewTrackStream\<close> is not stored.\<close>

definition NewTrackStream :: "u64 \<Rightarrow> u64 \<Rightarrow> TrackStream" where
  "NewTrackStream subid alias = zero_TrackStream\<lparr>ts_SubID := subid, ts_IsEOF := False, ts_wg := 0\<rparr>"

definition TrackStream_Parse :: "quicvarint \<Rightarrow> u64 \<Rightarrow> TrackStream \<Rightarrow> reader \<Rightarrow> (TrackStream \<times> goerror option) option" where
  "TrackStream_Parse qv subid ts r =
    (case run_steps
       [varint_step qv (\<lambda>v ts. ts\<lparr>ts_TrackAlias := v\<rparr>),
        varint_step qv (\<lambda>v ts. ts\<lparr>ts_SendOrder := v\<rparr>)]
       (ts\<lparr>ts_SubID := subid, ts_IsEOF := False, ts_wg := 0\<rparr>) r of
       None \<Rightarrow> None
     | Some (ts, err, r') \<Rightarrow> Some (ts\<lparr>ts_reader := Some r'\<rparr>, err))"

definition TrackStream_GetHeaderSubIDBytes :: "quicvarint \<Rightarrow> TrackStream \<Rightarrow> u64 \<Rightarrow> bytes option" where
  "TrackStream_GetHeaderSubIDBytes qv ts subid = do {
     data \<leftarrow> qv_Append qv [] STREAM_HEADER_TRACK;
     data \<leftarrow> qv_Append qv data subid;
     data \<leftarrow> qv_Append qv data (ts_TrackAlias ts);
     qv_Append qv data (ts_SendOrder ts) }"

definition TrackStream_GetHeaderBytes :: "quicvarint \<Rightarrow> TrackStream \<Rightarrow> bytes option" where
  "TrackStream_GetHeaderBytes qv ts = do {
     data \<leftarrow> qv_Append qv [] STREAM_HEADER_TRACK;
     data \<leftarrow> qv_Append qv data (ts_SubID ts);
     data \<leftarrow> qv_Append qv data (ts_TrackAlias ts);
     qv_Append qv data (ts_SendOrder ts) }"

definition TrackStream_WgAdd :: "TrackStream \<Rightarrow> TrackStream" where
  "TrackStream_WgAdd ts = ts\<lparr>ts_wg := Suc (ts_wg ts)\<rparr>"

definition TrackStream_WgDone :: "TrackStream \<Rightarrow> TrackStream option" where
  "TrackStream_WgDone ts = (if ts_wg ts = 0 then None else Some (ts\<lparr>ts_wg := ts_wg ts - 1\<rparr>))"

definition TrackStream_SetStreamID :: "string \<Rightarrow> TrackStream \<Rightarrow> TrackStream" where
  "TrackStream_SetStreamID sid ts = ts\<lparr>ts_StreamID := sid\<rparr>"

definition TrackStream_SetReader :: "reader \<Rightarrow> TrackStream \<Rightarrow> TrackStream" where
  "TrackStream_SetReader r ts = ts\<lparr>ts_reader := Some r\<rparr>"

definition TrackStream_Close :: "TrackStream \<Rightarrow> TrackStream" where
  "TrackStream_Close ts = ts\<lparr>ts_IsEOF := True\<rparr>"

definition TrackStream_WriteObject :: "Object \<Rightarrow> TrackStream \<Rightarrow> TrackStream" where
  "TrackStream_WriteObject obj ts = ts\<lparr>ts_ObjectsArr := ts_ObjectsArr ts @ [obj]\<rparr>"

definition TrackStream_ReadObject ::
  "quicvarint \<Rightarrow> TrackStream \<Rightarrow> ((goerror + u64 \<times> Object) \<times> TrackStream) option" where
  "TrackStream_ReadObject qv ts = (case ts_reader ts of
      None \<Rightarrow> Some (Inl (Errorf ''Reader is nil''), ts)
    | Some r \<Rightarrow> (case qv_Read qv r of
          (Inl err, r) \<Rightarrow>
            (let ts = ts\<lparr>ts_reader := Some r\<rparr>
             in if err = EOF then Some (Inl err, TrackStream_Close ts) else Some (Inl err, ts))
        | (Inr groupid, r) \<Rightarrow> (case Object_Parse qv zero_Object r of
              None \<Rightarrow> None
            | Some (object, Some err, r) \<Rightarrow>
                (let ts = ts\<lparr>ts_reader := Some r\<rparr>
                 in if err = EOF then Some (Inl err, TrackStream_Close ts) else Some (Inl err, ts))
            | Some (object, None, r) \<Rightarrow>
                (let ts = ts\<lparr>ts_reader := Some r\<rparr>; object = object\<lparr>obj_GroupID := groupid\<rparr>
                 in Some (Inr (groupid, object), TrackStream_WriteObject object ts)))))"

fun collect_track :: "quicvarint \<Rightarrow> Object list \<Rightarrow> bytes \<Rightarrow> bytes option" where
  "collect_track qv [] data = Some data"
| "collect_track qv (obj # objs) data = do {
     data \<leftarrow> qv_Append qv data (obj_GroupID obj);
     b \<leftarrow> Object_GetBytes qv obj;
     collect_track qv objs (data @ b) }"

definition TrackStream_Pipe_collect :: "quicvarint \<Rightarrow> TrackStream \<Rightarrow> nat \<Rightarrow> (nat \<times> bytes) option" where
  "TrackStream_Pipe_collect qv ts index = do {
     data \<leftarrow> collect_track qv (drop index (ts_ObjectsArr ts)) [];
     Some (max index (length (ts_ObjectsArr ts)), data) }"

section \<open>The stream interface\<close>

datatype MOQTStream = SGroup GroupStream | STrack TrackStream

fun MOQTStream_ReadObject :: "quicvarint \<Rightarrow> MOQTStream \<Rightarrow> ((goerror + u64 \<times> Object) \<times> MOQTStream) option" where
  "MOQTStream_ReadObject qv (SGroup gs) = map_option (map_prod id SGroup) (GroupStream_ReadObject qv gs)"
| "MOQTStream_ReadObject qv (STrack ts) = map_option (map_prod id STrack) (TrackStream_ReadObject qv ts)"

fun MOQTStream_WriteObject :: "Object \<Rightarrow> MOQTStream \<Rightarrow> MOQTStream" where
  "MOQTStream_WriteObject ob (SGroup gs) = SGroup (GroupStream_WriteObject ob gs)"
| "MOQTStream_WriteObject ob (STrack ts) = STrack (TrackStream_WriteObject ob ts)"

fun MOQTStream_GetHeaderBytes :: "quicvarint \<Rightarrow> MOQTStream \<Rightarrow> bytes option" where
  "MOQTStream_GetHeaderBytes qv (SGroup gs) = GroupStream_GetHeaderBytes qv gs"
| "MOQTStream_GetHeaderBytes qv (STrack ts) = TrackStream_GetHeaderBytes qv ts"

fun MOQTStream_GetHeaderSubIDBytes :: "quicvarint \<Rightarrow> MOQTStream \<Rightarrow> u64 \<Rightarrow> bytes option" where
  "MOQTStream_GetHeaderSubIDBytes qv (SGroup gs) subid = GroupStream_GetHeaderSubIDBytes qv gs subid"
| "MOQTStream_GetHeaderSubIDBytes qv (STrack ts) subid = TrackStream_GetHeaderSubIDBytes qv ts subid"

fun MOQTStream_SetStreamID :: "string \<Rightarrow> MOQTStream \<Rightarrow> MOQTStream" where
  "MOQTStream_SetStreamID sid (SGroup gs) = SGroup (GroupStream_SetStreamID sid gs)"
| "MOQTStream_SetStreamID sid (STrack ts) = STrack (TrackStream_SetStreamID sid ts)"

definition GroupStream_GetStreamID :: "GroupStream \<Rightarrow> string" where
  "GroupStream_GetStreamID gs = gs_StreamID gs"

definition TrackStream_GetStreamID :: "TrackStream \<Rightarrow> string" where
  "TrackStream_GetStreamID ts = ts_StreamID ts"

text \<open>Whether \<open>WgWait\<close> returns.\<close>

definition GroupStream_WgWait :: "GroupStream \<Rightarrow> bool" where
  "GroupStream_WgWait gs \<longleftrightarrow> gs_wg gs = 0"

definition TrackStream_WgWait :: "TrackStream \<Rightarrow> bool" where
  "TrackStream_WgWait ts \<longleftrightarrow> ts_wg ts = 0"

lemmas stream_getters [simp] = GroupStream_GetStreamID_def TrackStream_GetStreamID_def GroupStream_WgWait_def TrackStream_WgWait_def

fun MOQTStream_WgWait :: "MOQTStream \<Rightarrow> bool" where
  "MOQTStream_WgWait (SGroup gs) \<longleftrightarrow> GroupStream_WgWait gs"
| "MOQTStream_WgWait (STrack ts) \<longleftrightarrow> TrackStream_WgWait ts"

fun MOQTStream_GetStreamID :: "MOQTStream \<Rightarrow> string" where
  "MOQTStream_GetStreamID (SGroup gs) = GroupStream_GetStreamID gs"
| "MOQTStream_GetStreamID (STrack ts) = TrackStream_GetStreamID ts"

fun MOQTStream_Close :: "MOQTStream \<Rightarrow> MOQTStream" where
  "MOQTStream_Close (SGroup gs) = SGroup (GroupStream_Close gs)"
| "MOQTStream_Close (STrack ts) = STrack (TrackStream_Close ts)"

fun MOQTStream_WgAdd :: "MOQTStream \<Rightarrow> MOQTStream" where
  "MOQTStream_WgAdd (SGroup gs) = SGroup (GroupStream_WgAdd gs)"
| "MOQTStream_WgAdd (STrack ts) = STrack (TrackStream_WgAdd ts)"

fun MOQTStream_WgDone :: "MOQTStream \<Rightarrow> MOQTStream option" where
  "MOQTStream_WgDone (SGroup gs) = map_option SGroup (GroupStream_WgDone gs)"
| "MOQTStream_WgDone (STrack ts) = map_option STrack (TrackStream_WgDone ts)"

fun MOQTStream_objects :: "MOQTStream \<Rightarrow> Object list" where
  "MOQTStream_objects (SGroup gs) = gs_ObjectsArr gs"
| "MOQTStream_objects (STrack ts) = ts_ObjectsArr ts"

fun MOQTStream_reader :: "MOQTStream \<Rightarrow> reader option" where
  "MOQTStream_reader (SGroup gs) = gs_reader gs"
| "MOQTStream_reader (STrack ts) = ts_reader ts"

definition ParseMOQTStream ::
  "quicvarint \<Rightarrow> reader \<Rightarrow> (goerror + u64 \<times> MOQTStream) option" where
  "ParseMOQTStream qv r = (case qv_Read qv r of
      (Inl err, _) \<Rightarrow> Some (Inl err)
    | (Inr htype, r) \<Rightarrow>
       if htype = STREAM_HEADER_GROUP \<or> htype = STREAM_HEADER_TRACK then
         (case qv_Read qv r of
            (Inl err, _) \<Rightarrow> Some (Inl err)
          | (Inr subid, r) \<Rightarrow>
             if htype = STREAM_HEADER_GROUP then
               (case GroupStream_Parse qv subid zero_GroupStream r of
                  None \<Rightarrow> None
                | Some (gs, Some err) \<Rightarrow> Some (Inl err)
                | Some (gs, None) \<Rightarrow> Some (Inr (subid, SGroup gs)))
             else
               (case TrackStream_Parse qv subid zero_TrackStream r of
                  None \<Rightarrow> None
                | Some (ts, Some err) \<Rightarrow> Some (Inl err)
                | Some (ts, None) \<Rightarrow> Some (Inr (subid, STrack ts))))
       else Some (Inl (Errorf ''Unknown Header Type'')))"

text \<open>The receiving loop of a stream (\<open>for { ReadObject; ... }\<close>) until the first error: the objects in
  order, the error and the stream. \<open>fuel\<close> bounds the rounds; every round takes at least one byte off the
  reader, so one more than the bytes of the reader is enough.\<close>

fun read_objects :: "quicvarint \<Rightarrow> nat \<Rightarrow> MOQTStream \<Rightarrow> ((u64 \<times> Object) list \<times> goerror option \<times> MOQTStream) option" where
  "read_objects qv 0 st = Some ([], None, st)"
| "read_objects qv (Suc fuel) st = (case MOQTStream_ReadObject qv st of
      None \<Rightarrow> None
    | Some (Inl e, st') \<Rightarrow> Some ([], Some e, st')
    | Some (Inr go, st') \<Rightarrow> (case read_objects qv fuel st' of
          None \<Rightarrow> None
        | Some (os, e, st'') \<Rightarrow> Some (go # os, e, st'')))"

section \<open>Encoders and decoders agree\<close>

definition Object_ok :: "Object \<Rightarrow> bool" where
  "Object_ok ob \<longleftrightarrow> fits62 (obj_GroupID ob) \<and> fits62 (obj_ID ob) \<and> length (obj_Payload ob) \<le> maxAlloc"

lemma header_type_simps [simp]:
  "fits62 STREAM_HEADER_GROUP" "fits62 STREAM_HEADER_TRACK" "STREAM_HEADER_GROUP \<noteq> STREAM_HEADER_TRACK"
  "STREAM_HEADER_TRACK \<noteq> STREAM_HEADER_GROUP"
  by (simp_all add: fits62_def STREAM_HEADER_GROUP_def STREAM_HEADER_TRACK_def)

text \<open>Object bytes as a total function, for statements about what is on the wire.\<close>

definition object_enc :: "quicvarint \<Rightarrow> Object \<Rightarrow> bytes" where
  "object_enc qv ob = venc qv (obj_ID ob) @ venc qv (word_of_nat (length (obj_Payload ob))) @ obj_Payload ob"

definition track_object_enc :: "quicvarint \<Rightarrow> Object \<Rightarrow> bytes" where
  "track_object_enc qv ob = venc qv (obj_GroupID ob) @ object_enc qv ob"

context varint_codec
begin

lemma Object_GetBytes_ok [wire_simps]: "Object_ok ob \<Longrightarrow> Object_GetBytes qv ob = Some (object_enc qv ob)"
  by (simp add: Object_GetBytes_def object_enc_def Object_ok_def Append_fits fits62_small)

lemma Object_Parse_enc [wire_simps]:
  "Object_ok ob \<Longrightarrow> Object_Parse qv z (r\<lparr>rd_data := object_enc qv ob @ rest\<rparr>)
     = Some (z\<lparr>obj_ID := obj_ID ob, obj_Payload := obj_Payload ob\<rparr>, None, r\<lparr>rd_data := rest\<rparr>)"
  using make_ReadFull_exact [of "word_of_nat (length (obj_Payload ob))" "obj_Payload ob" rest r]
  by (simp add: Object_Parse_def object_enc_def Object_ok_def varint_step_venc Read_venc fits62_small
      unat_small make_ok_def)

lemma Object_Parse_at_end:
  "rd_data r = [] \<Longrightarrow> Object_Parse qv z r = Some (z, Some (rd_end r), r)"
  by (simp add: Object_Parse_def varint_step_def Read_at_end)

lemma collect_group_ok:
  "list_all Object_ok os \<Longrightarrow> collect_group qv os data = Some (data @ concat (map (object_enc qv) os))"
  by (induction os arbitrary: data) (auto simp: Object_GetBytes_ok)

lemma collect_track_ok:
  "list_all Object_ok os \<Longrightarrow> collect_track qv os data = Some (data @ concat (map (track_object_enc qv) os))"
  by (induction os arbitrary: data)
    (auto simp: Object_GetBytes_ok Append_fits track_object_enc_def Object_ok_def)

lemma GroupStream_ReadObject_enc:
  assumes "Object_ok ob" and "gs_reader gs = Some (r\<lparr>rd_data := object_enc qv ob @ rest\<rparr>)"
  shows "GroupStream_ReadObject qv gs =
    Some (Inr (gs_GroupID gs, ob\<lparr>obj_GroupID := 0\<rparr>),
      GroupStream_WriteObject (ob\<lparr>obj_GroupID := 0\<rparr>) (gs\<lparr>gs_reader := Some (r\<lparr>rd_data := rest\<rparr>)\<rparr>))"
  using assms by (cases ob) (simp add: GroupStream_ReadObject_def Object_Parse_enc zero_Object_def Let_def)

lemma TrackStream_ReadObject_enc:
  assumes "Object_ok ob" and "ts_reader ts = Some (r\<lparr>rd_data := track_object_enc qv ob @ rest\<rparr>)"
  shows "TrackStream_ReadObject qv ts =
    Some (Inr (obj_GroupID ob, ob),
      TrackStream_WriteObject ob (ts\<lparr>ts_reader := Some (r\<lparr>rd_data := rest\<rparr>)\<rparr>))"
proof -
  have "fits62 (obj_GroupID ob)" using assms(1) by (simp add: Object_ok_def)
  then show ?thesis
    using assms
    by (cases ob) (simp add: TrackStream_ReadObject_def track_object_enc_def Read_venc Object_Parse_enc
        zero_Object_def Let_def)
qed

lemma GroupStream_header_enc:
  assumes "fits62 subid" "fits62 (gs_TrackAlias gs)" "fits62 (gs_GroupID gs)" "fits62 (gs_SendOrder gs)"
  shows "\<exists>b. GroupStream_GetHeaderSubIDBytes qv gs subid = Some b \<and>
    (\<forall>r rest. ParseMOQTStream qv (r\<lparr>rd_data := b @ rest\<rparr>) =
      Some (Inr (subid, SGroup (zero_GroupStream\<lparr>gs_SubID := subid, gs_TrackAlias := gs_TrackAlias gs,
        gs_GroupID := gs_GroupID gs, gs_SendOrder := gs_SendOrder gs,
        gs_reader := Some (r\<lparr>rd_data := rest\<rparr>)\<rparr>))))"
  using assms
  by (intro exI [of _ "venc qv STREAM_HEADER_GROUP @ venc qv subid @ venc qv (gs_TrackAlias gs) @
        venc qv (gs_GroupID gs) @ venc qv (gs_SendOrder gs)"])
    (simp add: GroupStream_GetHeaderSubIDBytes_def ParseMOQTStream_def Append_fits Read_venc
      GroupStream_Parse_def varint_step_venc zero_GroupStream_def)

lemma TrackStream_header_enc:
  assumes "fits62 subid" "fits62 (ts_TrackAlias ts)" "fits62 (ts_SendOrder ts)"
  shows "\<exists>b. TrackStream_GetHeaderSubIDBytes qv ts subid = Some b \<and>
    (\<forall>r rest. ParseMOQTStream qv (r\<lparr>rd_data := b @ rest\<rparr>) =
      Some (Inr (subid, STrack (zero_TrackStream\<lparr>ts_SubID := subid, ts_TrackAlias := ts_TrackAlias ts,
        ts_SendOrder := ts_SendOrder ts, ts_reader := Some (r\<lparr>rd_data := rest\<rparr>)\<rparr>))))"
  using assms
  by (intro exI [of _ "venc qv STREAM_HEADER_TRACK @ venc qv subid @ venc qv (ts_TrackAlias ts) @
        venc qv (ts_SendOrder ts)"])
    (simp add: TrackStream_GetHeaderSubIDBytes_def ParseMOQTStream_def Append_fits Read_venc
      TrackStream_Parse_def varint_step_venc zero_TrackStream_def)

text \<open>Reading to the end of a stream of objects.\<close>

lemma read_objects_group:
  assumes "list_all Object_ok os" and "length os < fuel"
    and "gs_reader gs = Some (r\<lparr>rd_data := concat (map (object_enc qv) os)\<rparr>)" and "rd_end r = EOF"
  shows "read_objects qv fuel (SGroup gs) =
    Some (map (\<lambda>ob. (gs_GroupID gs, ob\<lparr>obj_GroupID := 0\<rparr>)) os, Some EOF,
      SGroup (gs\<lparr>gs_reader := Some (r\<lparr>rd_data := []\<rparr>), gs_IsEOF := True,
        gs_ObjectsArr := gs_ObjectsArr gs @ map (\<lambda>ob. ob\<lparr>obj_GroupID := 0\<rparr>) os\<rparr>))"
  using assms
proof (induction os arbitrary: gs fuel)
  case Nil
  then obtain f where "fuel = Suc f" by (cases fuel) auto
  with Nil show ?case
    by (simp add: GroupStream_ReadObject_def Object_Parse_at_end GroupStream_Close_def Let_def)
next
  case (Cons ob os)
  then obtain f where f: "fuel = Suc f" "length os < f" by (cases fuel) auto
  let ?gs = "GroupStream_WriteObject (ob\<lparr>obj_GroupID := 0\<rparr>)
    (gs\<lparr>gs_reader := Some (r\<lparr>rd_data := concat (map (object_enc qv) os)\<rparr>)\<rparr>)"
  have "GroupStream_ReadObject qv gs = Some (Inr (gs_GroupID gs, ob\<lparr>obj_GroupID := 0\<rparr>), ?gs)"
    using Cons.prems by (intro GroupStream_ReadObject_enc) auto
  moreover have "read_objects qv f (SGroup ?gs) = Some (map (\<lambda>ob. (gs_GroupID ?gs, ob\<lparr>obj_GroupID := 0\<rparr>)) os, Some EOF,
      SGroup (?gs\<lparr>gs_reader := Some (r\<lparr>rd_data := []\<rparr>), gs_IsEOF := True,
        gs_ObjectsArr := gs_ObjectsArr ?gs @ map (\<lambda>ob. ob\<lparr>obj_GroupID := 0\<rparr>) os\<rparr>))"
    using Cons.prems f by (intro Cons.IH) (auto simp: GroupStream_WriteObject_def)
  ultimately show ?case using f by (simp add: GroupStream_WriteObject_def)
qed

lemma read_objects_track:
  assumes "list_all Object_ok os" and "length os < fuel"
    and "ts_reader ts = Some (r\<lparr>rd_data := concat (map (track_object_enc qv) os)\<rparr>)" and "rd_end r = EOF"
  shows "read_objects qv fuel (STrack ts) =
    Some (map (\<lambda>ob. (obj_GroupID ob, ob)) os, Some EOF,
      STrack (ts\<lparr>ts_reader := Some (r\<lparr>rd_data := []\<rparr>), ts_IsEOF := True,
        ts_ObjectsArr := ts_ObjectsArr ts @ os\<rparr>))"
  using assms
proof (induction os arbitrary: ts fuel)
  case Nil
  then obtain f where "fuel = Suc f" by (cases fuel) auto
  with Nil show ?case
    by (simp add: TrackStream_ReadObject_def Read_at_end TrackStream_Close_def Let_def)
next
  case (Cons ob os)
  then obtain f where f: "fuel = Suc f" "length os < f" by (cases fuel) auto
  let ?ts = "TrackStream_WriteObject ob
    (ts\<lparr>ts_reader := Some (r\<lparr>rd_data := concat (map (track_object_enc qv) os)\<rparr>)\<rparr>)"
  have "TrackStream_ReadObject qv ts = Some (Inr (obj_GroupID ob, ob), ?ts)"
    using Cons.prems by (intro TrackStream_ReadObject_enc) auto
  moreover have "read_objects qv f (STrack ?ts) = Some (map (\<lambda>ob. (obj_GroupID ob, ob)) os, Some EOF,
      STrack (?ts\<lparr>ts_reader := Some (r\<lparr>rd_data := []\<rparr>), ts_IsEOF := True,
        ts_ObjectsArr := ts_ObjectsArr ?ts @ os\<rparr>))"
    using Cons.prems f by (intro Cons.IH) (auto simp: TrackStream_WriteObject_def)
  ultimately show ?case using f by (simp add: TrackStream_WriteObject_def)
qed

text \<open>Every object that is read takes at least one byte: the loop ends.\<close>

lemma Object_Parse_progress:
  assumes "Object_Parse qv z r = Some (ob, None, r')"
  shows "length (rd_data r') < length (rd_data r)"
proof -
  from assms obtain x r1 n r2 b where *: "qv_Read qv r = (Inr x, r1)" "qv_Read qv r1 = (Inr n, r2)"
      "make_ReadFull n r2 = Some (b, r')"
    by (auto simp: Object_Parse_def varint_step_def split: prod.splits sum.splits option.splits)
  with Read_progress [OF *(1)] Read_progress [OF *(2)] make_ReadFull_rest [OF *(3)]
  show ?thesis by (auto dest: suffix_length_le)
qed

lemma ReadObject_progress:
  assumes "MOQTStream_ReadObject qv st = Some (Inr x, st')" and "MOQTStream_reader st = Some r"
  shows "\<exists>r'. MOQTStream_reader st' = Some r' \<and> length (rd_data r') < length (rd_data r)"
proof (cases st)
  case (SGroup gs)
  with assms show ?thesis
    by (auto simp: GroupStream_ReadObject_def GroupStream_WriteObject_def Let_def split: option.splits prod.splits if_splits
        dest!: Object_Parse_progress)
next
  case (STrack ts)
  with assms show ?thesis
    by (auto simp: TrackStream_ReadObject_def TrackStream_WriteObject_def Let_def split: option.splits prod.splits sum.splits if_splits
        dest!: Object_Parse_progress dest: Read_progress)
qed

lemma read_objects_ends:
  assumes "MOQTStream_reader st = Some r" and "length (rd_data r) < fuel"
    and "read_objects qv fuel st = Some (os, e, st')"
  shows "\<exists>err. e = Some err"
  using assms
proof (induction fuel arbitrary: st r os)
  case (Suc fuel)
  obtain v st1 where v: "MOQTStream_ReadObject qv st = Some (v, st1)"
    using Suc.prems(3) by (auto split: option.splits)
  show ?case
  proof (cases v)
    case (Inl err)
    with v Suc.prems show ?thesis by auto
  next
    case (Inr x)
    with v ReadObject_progress Suc.prems(1) obtain r' where
      "MOQTStream_reader st1 = Some r'" "length (rd_data r') < length (rd_data r)" by blast
    with Suc v Inr show ?thesis by (auto split: option.splits)
  qed
qed simp

lemma object_enc_lengths: "list_all Object_ok os \<Longrightarrow> length os \<le> length (concat (map (object_enc qv) os))"
proof (induction os)
  case (Cons ob os)
  then have "venc qv (obj_ID ob) \<noteq> []" by (auto simp: Object_ok_def venc_ne)
  then have "0 < length (object_enc qv ob)" by (simp add: object_enc_def)
  with Cons show ?case by (simp del: length_greater_0_conv)
qed simp

lemma track_object_enc_lengths:
  "list_all Object_ok os \<Longrightarrow> length os \<le> length (concat (map (track_object_enc qv) os))"
proof (induction os)
  case (Cons ob os)
  then have "venc qv (obj_GroupID ob) \<noteq> []" by (auto simp: Object_ok_def venc_ne)
  then have "0 < length (track_object_enc qv ob)" by (simp add: track_object_enc_def)
  with Cons show ?case by (simp del: length_greater_0_conv)
qed simp

text \<open>A payload that is cut short: the object is accepted, its payload padded with zero bytes.\<close>

lemma Object_Parse_short:
  assumes "fits62 i" and "fits62 n" and "make_ok n" and "length p < unat n"
  shows "Object_Parse qv z (r\<lparr>rd_data := venc qv i @ venc qv n @ p\<rparr>)
    = Some (z\<lparr>obj_ID := i, obj_Payload := p @ replicate (unat n - length p) 0\<rparr>, None, r\<lparr>rd_data := []\<rparr>)"
  using assms
  by (simp add: Object_Parse_def varint_step_venc Read_venc make_ReadFull_def ReadFull_def Let_def)

text \<open>A whole group stream: header, then every object of the array.\<close>

lemma group_stream_trip:
  assumes gs: "fits62 subid" "fits62 (gs_TrackAlias gs)" "fits62 (gs_GroupID gs)" "fits62 (gs_SendOrder gs)"
    and os: "list_all Object_ok (gs_ObjectsArr gs)"
  shows "\<exists>hd n data g. GroupStream_GetHeaderSubIDBytes qv gs subid = Some hd \<and>
    GroupStream_Pipe_collect qv gs 0 = Some (n, data) \<and> n = length (gs_ObjectsArr gs) \<and>
    ParseMOQTStream qv \<lparr>rd_data = hd @ data, rd_end = EOF\<rparr> = Some (Inr (subid, SGroup g)) \<and>
    gs_SubID g = subid \<and> gs_TrackAlias g = gs_TrackAlias gs \<and> gs_GroupID g = gs_GroupID gs \<and> gs_SendOrder g = gs_SendOrder gs \<and>
    (\<exists>st'. read_objects qv (Suc (length data)) (SGroup g) =
       Some (map (\<lambda>ob. (gs_GroupID gs, ob\<lparr>obj_GroupID := 0\<rparr>)) (gs_ObjectsArr gs), Some EOF, st'))"
proof -
  let ?os = "gs_ObjectsArr gs" and ?r = "\<lparr>rd_data = [], rd_end = EOF\<rparr> :: reader"
  let ?data = "concat (map (object_enc qv) ?os)"
  from GroupStream_header_enc [OF gs] obtain h where
    h: "GroupStream_GetHeaderSubIDBytes qv gs subid = Some h"
    and p: "\<And>r rest. ParseMOQTStream qv (r\<lparr>rd_data := h @ rest\<rparr>) =
      Some (Inr (subid, SGroup (zero_GroupStream\<lparr>gs_SubID := subid, gs_TrackAlias := gs_TrackAlias gs,
        gs_GroupID := gs_GroupID gs, gs_SendOrder := gs_SendOrder gs,
        gs_reader := Some (r\<lparr>rd_data := rest\<rparr>)\<rparr>)))" by blast
  let ?gs = "zero_GroupStream\<lparr>gs_SubID := subid, gs_TrackAlias := gs_TrackAlias gs,
        gs_GroupID := gs_GroupID gs, gs_SendOrder := gs_SendOrder gs,
        gs_reader := Some (?r\<lparr>rd_data := ?data\<rparr>)\<rparr>"
  have c: "GroupStream_Pipe_collect qv gs 0 = Some (length ?os, ?data)"
    using os by (simp add: GroupStream_Pipe_collect_def collect_group_ok)
  have l: "length ?os \<le> length ?data"
    using os by (rule object_enc_lengths)
  have "ParseMOQTStream qv \<lparr>rd_data = h @ ?data, rd_end = EOF\<rparr> = Some (Inr (subid, SGroup ?gs))"
    using p [where r = ?r and rest = ?data] by simp
  moreover have "\<exists>st'. read_objects qv (Suc (length ?data)) (SGroup ?gs) =
       Some (map (\<lambda>ob. (gs_GroupID ?gs, ob\<lparr>obj_GroupID := 0\<rparr>)) ?os, Some EOF, st')"
    using read_objects_group [OF os, where fuel = "Suc (length ?data)" and gs = ?gs and r = ?r] l by simp
  ultimately show ?thesis using h c
    by (intro exI [of _ h] exI [of _ "length ?os"] exI [of _ ?data] exI [of _ ?gs]) simp
qed

lemma track_stream_trip:
  assumes ts: "fits62 subid" "fits62 (ts_TrackAlias ts)" "fits62 (ts_SendOrder ts)"
    and os: "list_all Object_ok (ts_ObjectsArr ts)"
  shows "\<exists>hd n data t. TrackStream_GetHeaderSubIDBytes qv ts subid = Some hd \<and>
    TrackStream_Pipe_collect qv ts 0 = Some (n, data) \<and> n = length (ts_ObjectsArr ts) \<and>
    ParseMOQTStream qv \<lparr>rd_data = hd @ data, rd_end = EOF\<rparr> = Some (Inr (subid, STrack t)) \<and>
    ts_SubID t = subid \<and> ts_TrackAlias t = ts_TrackAlias ts \<and> ts_SendOrder t = ts_SendOrder ts \<and>
    (\<exists>st'. read_objects qv (Suc (length data)) (STrack t) =
       Some (map (\<lambda>ob. (obj_GroupID ob, ob)) (ts_ObjectsArr ts), Some EOF, st'))"
proof -
  let ?os = "ts_ObjectsArr ts" and ?r = "\<lparr>rd_data = [], rd_end = EOF\<rparr> :: reader"
  let ?data = "concat (map (track_object_enc qv) ?os)"
  from TrackStream_header_enc [OF ts] obtain h where
    h: "TrackStream_GetHeaderSubIDBytes qv ts subid = Some h"
    and p: "\<And>r rest. ParseMOQTStream qv (r\<lparr>rd_data := h @ rest\<rparr>) =
      Some (Inr (subid, STrack (zero_TrackStream\<lparr>ts_SubID := subid, ts_TrackAlias := ts_TrackAlias ts,
        ts_SendOrder := ts_SendOrder ts, ts_reader := Some (r\<lparr>rd_data := rest\<rparr>)\<rparr>)))" by blast
  let ?ts = "zero_TrackStream\<lparr>ts_SubID := subid, ts_TrackAlias := ts_TrackAlias ts,
        ts_SendOrder := ts_SendOrder ts, ts_reader := Some (?r\<lparr>rd_data := ?data\<rparr>)\<rparr>"
  have c: "TrackStream_Pipe_collect qv ts 0 = Some (length ?os, ?data)"
    using os by (simp add: TrackStream_Pipe_collect_def collect_track_ok)
  have l: "length ?os \<le> length ?data"
    using os by (rule track_object_enc_lengths)
  have "ParseMOQTStream qv \<lparr>rd_data = h @ ?data, rd_end = EOF\<rparr> = Some (Inr (subid, STrack ?ts))"
    using p [where r = ?r and rest = ?data] by simp
  moreover have "\<exists>st'. read_objects qv (Suc (length ?data)) (STrack ?ts) =
       Some (map (\<lambda>ob. (obj_GroupID ob, ob)) ?os, Some EOF, st')"
    using read_objects_track [OF os, where fuel = "Suc (length ?data)" and ts = ?ts and r = ?r] l by simp
  ultimately show ?thesis using h c
    by (intro exI [of _ h] exI [of _ "length ?os"] exI [of _ ?data] exI [of _ ?ts]) simp
qed

end

section \<open>Properties\<close>

text \<open>Property C14 (a group travels complete and in order). The header of a group stream followed by what
  \<open>Pipe\<close> collects from index 0 is parsed as a group stream for the given subscription, with the track alias, the group and the
  send order of the sender, and reading it to the end returns every object of the array once, in order, under the stream's group, and then the end of
  the stream. The object's own \<open>GroupID\<close> field is zero at the receiver.\<close>

theorem group_stream_roundtrip:
  assumes "varint_codec qv" and "fits62 subid" and "fits62 (gs_TrackAlias gs)" and "fits62 (gs_GroupID gs)"
    and "fits62 (gs_SendOrder gs)" and "list_all Object_ok (gs_ObjectsArr gs)"
  shows "\<exists>hd n data g. GroupStream_GetHeaderSubIDBytes qv gs subid = Some hd \<and>
    GroupStream_Pipe_collect qv gs 0 = Some (n, data) \<and> n = length (gs_ObjectsArr gs) \<and>
    ParseMOQTStream qv \<lparr>rd_data = hd @ data, rd_end = EOF\<rparr> = Some (Inr (subid, SGroup g)) \<and>
    gs_SubID g = subid \<and> gs_TrackAlias g = gs_TrackAlias gs \<and> gs_GroupID g = gs_GroupID gs \<and> gs_SendOrder g = gs_SendOrder gs \<and>
    (\<exists>st'. read_objects qv (Suc (length data)) (SGroup g) =
       Some (map (\<lambda>ob. (gs_GroupID gs, ob\<lparr>obj_GroupID := 0\<rparr>)) (gs_ObjectsArr gs), Some EOF, st'))"
  using assms by (rule varint_codec.group_stream_trip)

definition sample_group :: GroupStream where
  "sample_group = (NewGroupStream 5 3 0)\<lparr>gs_ObjectsArr :=
     [\<lparr>obj_GroupID = 3, obj_ID = 0, obj_Payload = [1, 2]\<rparr>, \<lparr>obj_GroupID = 3, obj_ID = 1, obj_Payload = [9]\<rparr>]\<rparr>"

theorem group_stream_roundtrip_witness:
  "list_all Object_ok (gs_ObjectsArr sample_group) \<and>
   (\<exists>hd n data g. GroupStream_GetHeaderSubIDBytes rfc9000 sample_group 5 = Some hd \<and>
    GroupStream_Pipe_collect rfc9000 sample_group 0 = Some (n, data) \<and> n = length (gs_ObjectsArr sample_group) \<and>
    ParseMOQTStream rfc9000 \<lparr>rd_data = hd @ data, rd_end = EOF\<rparr> = Some (Inr (5, SGroup g)) \<and>
    gs_SubID g = 5 \<and> gs_TrackAlias g = gs_TrackAlias sample_group \<and> gs_GroupID g = gs_GroupID sample_group \<and> gs_SendOrder g = gs_SendOrder sample_group \<and>
    (\<exists>st'. read_objects rfc9000 (Suc (length data)) (SGroup g) =
       Some (map (\<lambda>ob. (gs_GroupID sample_group, ob\<lparr>obj_GroupID := 0\<rparr>)) (gs_ObjectsArr sample_group), Some EOF, st')))"
proof (rule conjI)
  show ok: "list_all Object_ok (gs_ObjectsArr sample_group)"
    by (simp add: sample_group_def Object_ok_def fits62_def maxAlloc_def)
  show "\<exists>hd n data g. GroupStream_GetHeaderSubIDBytes rfc9000 sample_group 5 = Some hd \<and>
    GroupStream_Pipe_collect rfc9000 sample_group 0 = Some (n, data) \<and> n = length (gs_ObjectsArr sample_group) \<and>
    ParseMOQTStream rfc9000 \<lparr>rd_data = hd @ data, rd_end = EOF\<rparr> = Some (Inr (5, SGroup g)) \<and>
    gs_SubID g = 5 \<and> gs_TrackAlias g = gs_TrackAlias sample_group \<and> gs_GroupID g = gs_GroupID sample_group \<and> gs_SendOrder g = gs_SendOrder sample_group \<and>
    (\<exists>st'. read_objects rfc9000 (Suc (length data)) (SGroup g) =
       Some (map (\<lambda>ob. (gs_GroupID sample_group, ob\<lparr>obj_GroupID := 0\<rparr>)) (gs_ObjectsArr sample_group), Some EOF, st'))"
    by (rule group_stream_roundtrip [OF rfc9000_codec _ _ _ _ ok])
      (simp_all add: fits62_def sample_group_def NewGroupStream_def zero_GroupStream_def)
qed

text \<open>Property C15 (a track travels complete and in order). The same for a track stream: the subscription, the
  track alias and the send order are those of the header, and the objects carry their group with them and keep it.\<close>

theorem track_stream_roundtrip:
  assumes "varint_codec qv" and "fits62 subid" and "fits62 (ts_TrackAlias ts)"
    and "fits62 (ts_SendOrder ts)" and "list_all Object_ok (ts_ObjectsArr ts)"
  shows "\<exists>hd n data t. TrackStream_GetHeaderSubIDBytes qv ts subid = Some hd \<and>
    TrackStream_Pipe_collect qv ts 0 = Some (n, data) \<and> n = length (ts_ObjectsArr ts) \<and>
    ParseMOQTStream qv \<lparr>rd_data = hd @ data, rd_end = EOF\<rparr> = Some (Inr (subid, STrack t)) \<and>
    ts_SubID t = subid \<and> ts_TrackAlias t = ts_TrackAlias ts \<and> ts_SendOrder t = ts_SendOrder ts \<and>
    (\<exists>st'. read_objects qv (Suc (length data)) (STrack t) =
       Some (map (\<lambda>ob. (obj_GroupID ob, ob)) (ts_ObjectsArr ts), Some EOF, st'))"
  using assms by (rule varint_codec.track_stream_trip)

definition sample_track :: TrackStream where
  "sample_track = (NewTrackStream 5 0)\<lparr>ts_ObjectsArr :=
     [\<lparr>obj_GroupID = 3, obj_ID = 0, obj_Payload = [1, 2]\<rparr>, \<lparr>obj_GroupID = 4, obj_ID = 1, obj_Payload = [9]\<rparr>]\<rparr>"

theorem track_stream_roundtrip_witness:
  "list_all Object_ok (ts_ObjectsArr sample_track) \<and>
   (\<exists>hd n data t. TrackStream_GetHeaderSubIDBytes rfc9000 sample_track 5 = Some hd \<and>
    TrackStream_Pipe_collect rfc9000 sample_track 0 = Some (n, data) \<and> n = length (ts_ObjectsArr sample_track) \<and>
    ParseMOQTStream rfc9000 \<lparr>rd_data = hd @ data, rd_end = EOF\<rparr> = Some (Inr (5, STrack t)) \<and>
    ts_SubID t = 5 \<and> ts_TrackAlias t = ts_TrackAlias sample_track \<and> ts_SendOrder t = ts_SendOrder sample_track \<and>
    (\<exists>st'. read_objects rfc9000 (Suc (length data)) (STrack t) =
       Some (map (\<lambda>ob. (obj_GroupID ob, ob)) (ts_ObjectsArr sample_track), Some EOF, st')))"
proof (rule conjI)
  show ok: "list_all Object_ok (ts_ObjectsArr sample_track)"
    by (simp add: sample_track_def Object_ok_def fits62_def maxAlloc_def)
  show "\<exists>hd n data t. TrackStream_GetHeaderSubIDBytes rfc9000 sample_track 5 = Some hd \<and>
    TrackStream_Pipe_collect rfc9000 sample_track 0 = Some (n, data) \<and> n = length (ts_ObjectsArr sample_track) \<and>
    ParseMOQTStream rfc9000 \<lparr>rd_data = hd @ data, rd_end = EOF\<rparr> = Some (Inr (5, STrack t)) \<and>
    ts_SubID t = 5 \<and> ts_TrackAlias t = ts_TrackAlias sample_track \<and> ts_SendOrder t = ts_SendOrder sample_track \<and>
    (\<exists>st'. read_objects rfc9000 (Suc (length data)) (STrack t) =
       Some (map (\<lambda>ob. (obj_GroupID ob, ob)) (ts_ObjectsArr sample_track), Some EOF, st'))"
    by (rule track_stream_roundtrip [OF rfc9000_codec _ _ _ ok])
      (simp_all add: fits62_def sample_track_def NewTrackStream_def zero_TrackStream_def)
qed

text \<open>The receiving loop ends. On a finite stream of any bytes the loop that reads objects
  ends: unless an allocation panics, it stops with an error or at the end of the stream after at most one
  round per byte.\<close>

lemma receive_loop_terminates:
  assumes "varint_codec qv" and "MOQTStream_reader st = Some r"
  shows "read_objects qv (Suc (length (rd_data r))) st = None \<or>
    (\<exists>os err st'. read_objects qv (Suc (length (rd_data r))) st = Some (os, Some err, st'))"
  using varint_codec.read_objects_ends [OF assms(1,2), of "Suc (length (rd_data r))"]
  by (cases "read_objects qv (Suc (length (rd_data r))) st") auto

theorem receive_loop_terminates_witness:
  "MOQTStream_reader (SGroup (sample_group\<lparr>gs_reader := Some \<lparr>rd_data = [0, 1, 7, 64], rd_end = EOF\<rparr>\<rparr>))
     = Some \<lparr>rd_data = [0, 1, 7, 64], rd_end = EOF\<rparr> \<and>
   (read_objects rfc9000 5 (SGroup (sample_group\<lparr>gs_reader := Some \<lparr>rd_data = [0, 1, 7, 64], rd_end = EOF\<rparr>\<rparr>)) = None \<or>
    (\<exists>os err st'. read_objects rfc9000 5 (SGroup (sample_group\<lparr>gs_reader := Some \<lparr>rd_data = [0, 1, 7, 64], rd_end = EOF\<rparr>\<rparr>))
       = Some (os, Some err, st')))"
proof -
  let ?st = "SGroup (sample_group\<lparr>gs_reader := Some \<lparr>rd_data = [0, 1, 7, 64], rd_end = EOF\<rparr>\<rparr>)"
  have r: "MOQTStream_reader ?st = Some \<lparr>rd_data = [0, 1, 7, 64], rd_end = EOF\<rparr>" by simp
  have five: "Suc (length (rd_data \<lparr>rd_data = [0, 1, 7, 64 :: byte], rd_end = EOF\<rparr>)) = 5" by simp
  from receive_loop_terminates [OF rfc9000_codec r] r show ?thesis unfolding five by blast
qed

text \<open>A truncated object is accepted. When a group stream ends inside the payload of an
  object, \<open>ReadObject\<close> still returns the object: its payload has the announced length and the missing bytes
  are zero. No error is reported for it.\<close>

lemma truncated_object_accepted:
  assumes "varint_codec qv" and "fits62 i" and "fits62 n" and "unat n \<le> maxAlloc" and "length p < unat n"
    and "gs_reader gs = Some (r\<lparr>rd_data := venc qv i @ venc qv n @ p\<rparr>)"
  shows "\<exists>gs'. GroupStream_ReadObject qv gs =
    Some (Inr (gs_GroupID gs, \<lparr>obj_GroupID = 0, obj_ID = i, obj_Payload = p @ replicate (unat n - length p) 0\<rparr>), gs')"
  using assms varint_codec.Object_Parse_short [OF assms(1-3), of p zero_Object r]
  by (simp add: GroupStream_ReadObject_def make_ok_def zero_Object_def Let_def)

theorem truncated_object_accepted_witness:
  "\<exists>gs'. GroupStream_ReadObject rfc9000
      (sample_group\<lparr>gs_reader := Some (\<lparr>rd_data = [], rd_end = EOF\<rparr>\<lparr>rd_data := venc rfc9000 1 @ venc rfc9000 4 @ [8]\<rparr>)\<rparr>) =
    Some (Inr (gs_GroupID (sample_group\<lparr>gs_reader := Some (\<lparr>rd_data = [], rd_end = EOF\<rparr>\<lparr>rd_data := venc rfc9000 1 @ venc rfc9000 4 @ [8]\<rparr>)\<rparr>),
      \<lparr>obj_GroupID = 0, obj_ID = 1, obj_Payload = [8] @ replicate (unat (4 :: u64) - length [8 :: byte]) 0\<rparr>), gs')"
  by (rule truncated_object_accepted [OF rfc9000_codec, where r = "\<lparr>rd_data = [], rd_end = EOF\<rparr>"])
    (simp_all add: fits62_def maxAlloc_def)

end
