(* ===== verification/Relay_Cache.thy ===== *)
theory Relay_Cache
  imports Wire_Streams
begin

text \<open>
  \<open>RelayStream\<close> of \<open>src/moqt/relaystream.go\<close>: one track as the relay receives it from a publisher, with its
  subscribers and its cache of recent objects. Handlers are references into the heap of sessions (a handler
  embeds its session, so one reference stands for both). \<open>int\<close> and \<open>int64\<close> counters are \<open>int\<close>: \<open>CurrentBytes\<close> is the
  size of payloads that are in memory together, so it is far below \<open>2^63\<close>.

  The cache methods run under \<open>CacheLock\<close> and are atomic. \<open>range\<close> over the map of groups in \<open>SendCachedObjects\<close>
  has no fixed order: the argument \<open>ord\<close> is the order of the visit, any permutation of the entries. The results of
  the connection's \<open>OpenUniStream\<close> are the argument \<open>opens\<close> (the error of the \<open>n\<close>-th call, if any); what is handed to
  \<open>Write\<close> is the output.

  Shown here: the byte counter is exact and the limits hold up to one object; the cache is the longest
  run of recent objects that the limits allow; a replay opens one stream per group, and a receiver that reads these
  streams gets the cached objects of each group in order; a stream of objects is cached completely, those of a group
  stream all under group 0.
\<close>

section \<open>Data\<close>

type_synonym ref = nat

record CachedObject =
  co_GroupID :: u64
  co_ID :: u64
  co_Payload :: bytes

record RelayStream =
  rs_SubID :: u64
  rs_StreamID :: string
  rs_Map :: ref
  rs_Subscribers :: "(string, ref) gomap"
  rs_ObjectCache :: "CachedObject list"
  rs_MaxCacheSize :: int
  rs_MaxCacheBytes :: int
  rs_CurrentBytes :: int
  rs_CacheEnabled :: bool

definition DEFAULT_CACHE_SIZE :: int where "DEFAULT_CACHE_SIZE = 1000"
definition DEFAULT_CACHE_SIZE_MB :: int where "DEFAULT_CACHE_SIZE_MB = 50"
definition MAX_OBJECT_SIZE :: int where "MAX_OBJECT_SIZE = 1024 * 1024"

definition RelayStream_GetSubID :: "RelayStream \<Rightarrow> u64" where
  "RelayStream_GetSubID rs = rs_SubID rs"

definition RelayStream_GetStreamID :: "RelayStream \<Rightarrow> string" where
  "RelayStream_GetStreamID rs = rs_StreamID rs"

definition NewRelayStream :: "u64 \<Rightarrow> string \<Rightarrow> ref \<Rightarrow> RelayStream" where
  "NewRelayStream subid sid smap = \<lparr>rs_SubID = subid, rs_StreamID = sid, rs_Map = smap, rs_Subscribers = [],
     rs_ObjectCache = [], rs_MaxCacheSize = DEFAULT_CACHE_SIZE,
     rs_MaxCacheBytes = DEFAULT_CACHE_SIZE_MB * 1024 * 1024, rs_CurrentBytes = 0, rs_CacheEnabled = True\<rparr>"

definition NewRelayStreamWithCache :: "u64 \<Rightarrow> string \<Rightarrow> ref \<Rightarrow> int \<Rightarrow> int \<Rightarrow> RelayStream" where
  "NewRelayStreamWithCache subid sid smap maxObjects maxBytes =
     (NewRelayStream subid sid smap)\<lparr>rs_MaxCacheSize := maxObjects, rs_MaxCacheBytes := maxBytes\<rparr>"

section \<open>Subscribers\<close>

definition RelayStream_AddSubscriber :: "string \<Rightarrow> ref \<Rightarrow> RelayStream \<Rightarrow> RelayStream" where
  "RelayStream_AddSubscriber sid handler rs =
     rs\<lparr>rs_Subscribers := gomap_set sid handler (rs_Subscribers rs)\<rparr>"

definition RelayStream_RemoveSubscriber :: "string \<Rightarrow> RelayStream \<Rightarrow> RelayStream" where
  "RelayStream_RemoveSubscriber sid rs = rs\<lparr>rs_Subscribers := gomap_del sid (rs_Subscribers rs)\<rparr>"

text \<open>\<open>ForwardStream\<close>: one \<open>WgAdd\<close> and one new goroutine per subscriber; then it waits until the goroutines
  have called \<open>WgDone\<close>. The result is the stream and the handlers whose \<open>ProcessMOQTStream\<close> was started.\<close>

fun forward_each :: "(string \<times> ref) list \<Rightarrow> MOQTStream \<Rightarrow> MOQTStream \<times> ref list" where
  "forward_each [] stream = (stream, [])"
| "forward_each ((_, sub) # subs) stream =
    (let (stream', started) = forward_each subs (MOQTStream_WgAdd stream) in (stream', sub # started))"

definition RelayStream_ForwardStream :: "RelayStream \<Rightarrow> MOQTStream \<Rightarrow> MOQTStream \<times> ref list" where
  "RelayStream_ForwardStream rs stream = forward_each (rs_Subscribers rs) stream"

section \<open>The cache\<close>

fun evict :: "int \<Rightarrow> int \<Rightarrow> CachedObject list \<Rightarrow> int \<Rightarrow> CachedObject list \<times> int" where
  "evict maxSize maxBytes [] currentBytes = ([], currentBytes)"
| "evict maxSize maxBytes (removed # rest) currentBytes =
    (if int (length (removed # rest)) \<ge> maxSize \<or> currentBytes \<ge> maxBytes
     then evict maxSize maxBytes rest (currentBytes - int (length (co_Payload removed)))
     else (removed # rest, currentBytes))"

definition RelayStream_cacheObject :: "u64 \<Rightarrow> u64 \<Rightarrow> bytes \<Rightarrow> RelayStream \<Rightarrow> RelayStream" where
  "RelayStream_cacheObject groupID objectID payload rs =
    (if \<not> rs_CacheEnabled rs then rs
     else let (cache, bytes) = evict (rs_MaxCacheSize rs) (rs_MaxCacheBytes rs) (rs_ObjectCache rs) (rs_CurrentBytes rs);
              cached = \<lparr>co_GroupID = groupID, co_ID = objectID, co_Payload = payload\<rparr>
          in rs\<lparr>rs_ObjectCache := cache @ [cached], rs_CurrentBytes := bytes + int (length payload)\<rparr>)"

definition RelayStream_GetCachedObjects :: "RelayStream \<Rightarrow> CachedObject list" where
  "RelayStream_GetCachedObjects rs = rs_ObjectCache rs"

definition RelayStream_GetCacheStats :: "RelayStream \<Rightarrow> int \<times> int" where
  "RelayStream_GetCacheStats rs = (int (length (rs_ObjectCache rs)), rs_CurrentBytes rs)"

definition RelayStream_ClearCache :: "RelayStream \<Rightarrow> RelayStream" where
  "RelayStream_ClearCache rs = rs\<lparr>rs_ObjectCache := [], rs_CurrentBytes := 0\<rparr>"

subsection \<open>Replay\<close>

text \<open>\<open>groups[obj.GroupID] = append(groups[obj.GroupID], obj)\<close> for every cached object.\<close>

definition add_to_group :: "CachedObject \<Rightarrow> (u64, CachedObject list) gomap \<Rightarrow> (u64, CachedObject list) gomap" where
  "add_to_group ob groups =
    gomap_set (co_GroupID ob)
      ((case gomap_get groups (co_GroupID ob) of None \<Rightarrow> [] | Some os \<Rightarrow> os) @ [ob]) groups"

definition group_cached :: "CachedObject list \<Rightarrow> (u64, CachedObject list) gomap" where
  "group_cached cachedObjects = fold add_to_group cachedObjects []"

definition cached_header :: "quicvarint \<Rightarrow> u64 \<Rightarrow> u64 \<Rightarrow> bytes option" where
  "cached_header qv subID groupID = do {
     header \<leftarrow> qv_Append qv [] STREAM_HEADER_GROUP;
     header \<leftarrow> qv_Append qv header subID;
     header \<leftarrow> qv_Append qv header 0;
     header \<leftarrow> qv_Append qv header groupID;
     qv_Append qv header 0 }"

fun cached_writes :: "quicvarint \<Rightarrow> u64 \<Rightarrow> CachedObject list \<Rightarrow> bytes list option" where
  "cached_writes qv groupID [] = Some []"
| "cached_writes qv groupID (ob # objects) = do {
     b \<leftarrow> Object_GetBytes qv \<lparr>obj_GroupID = groupID, obj_ID = co_ID ob, obj_Payload = co_Payload ob\<rparr>;
     bs \<leftarrow> cached_writes qv groupID objects;
     Some (b # bs) }"

text \<open>Each stream of the result is the list of its writes; every stream of the result has been closed. The
  first \<open>OpenUniStream\<close> that fails ends the replay with its error.\<close>

fun send_groups ::
  "quicvarint \<Rightarrow> (nat \<Rightarrow> goerror option) \<Rightarrow> nat \<Rightarrow> u64 \<Rightarrow> (u64 \<times> CachedObject list) list \<Rightarrow>
   (bytes list list \<times> goerror option) option" where
  "send_groups qv opens n subID [] = Some ([], None)"
| "send_groups qv opens n subID ((groupID, objects) # groups) = (case opens n of
      Some err \<Rightarrow> Some ([], Some err)
    | None \<Rightarrow> do {
        header \<leftarrow> cached_header qv subID groupID;
        ws \<leftarrow> cached_writes qv groupID objects;
        (sent, err) \<leftarrow> send_groups qv opens (Suc n) subID groups;
        Some ((header # ws) # sent, err) })"

definition RelayStream_SendCachedObjects ::
  "quicvarint \<Rightarrow> ((u64 \<times> CachedObject list) list \<Rightarrow> (u64 \<times> CachedObject list) list) \<Rightarrow> (nat \<Rightarrow> goerror option) \<Rightarrow>
   RelayStream \<Rightarrow> u64 \<Rightarrow> (bytes list list \<times> goerror option) option" where
  "RelayStream_SendCachedObjects qv ord opens rs subID =
    (let cachedObjects = rs_ObjectCache rs
     in if length cachedObjects = 0 then Some ([], None)
        else send_groups qv opens 0 subID (ord (group_cached cachedObjects)))"

subsection \<open>Filling\<close>

text \<open>The loop of \<open>ProcessObjects\<close> after \<open>ForwardStream\<close> has returned: the relay stream, the error that ended it
  (\<^const>\<open>None\<close> only if \<open>fuel\<close> ran out) and the stream. Several such loops may fill one relay stream at a time;
  each round's \<open>cacheObject\<close> is atomic.\<close>

fun cache_objects ::
  "quicvarint \<Rightarrow> nat \<Rightarrow> RelayStream \<Rightarrow> MOQTStream \<Rightarrow> (RelayStream \<times> goerror option \<times> MOQTStream) option" where
  "cache_objects qv 0 rs stream = Some (rs, None, stream)"
| "cache_objects qv (Suc fuel) rs stream = (case MOQTStream_ReadObject qv stream of
      None \<Rightarrow> None
    | Some (Inl err, stream') \<Rightarrow> Some (rs, Some err, stream')
    | Some (Inr (_, object), stream') \<Rightarrow>
        cache_objects qv fuel
          (RelayStream_cacheObject (obj_GroupID object) (obj_ID object) (obj_Payload object) rs) stream')"

section \<open>Exact counters and limits\<close>

definition cached_bytes :: "CachedObject list \<Rightarrow> int" where
  "cached_bytes os = int (\<Sum>ob\<leftarrow>os. length (co_Payload ob))"

definition cache_ok :: "RelayStream \<Rightarrow> bool" where
  "cache_ok rs \<longleftrightarrow> rs_CurrentBytes rs = cached_bytes (rs_ObjectCache rs) \<and>
     int (length (rs_ObjectCache rs)) \<le> max 1 (rs_MaxCacheSize rs) \<and>
     cached_bytes (butlast (rs_ObjectCache rs)) < max 1 (rs_MaxCacheBytes rs)"

text \<open>What the limits leave room for before a new object comes.\<close>

definition within_limits :: "int \<Rightarrow> int \<Rightarrow> CachedObject list \<Rightarrow> bool" where
  "within_limits maxSize maxBytes os \<longleftrightarrow> int (length os) < maxSize \<and> cached_bytes os < maxBytes"

lemma cached_bytes_simps [simp]:
  "cached_bytes [] = 0"
  "cached_bytes (ob # os) = int (length (co_Payload ob)) + cached_bytes os"
  "cached_bytes (os @ os') = cached_bytes os + cached_bytes os'"
  by (simp_all add: cached_bytes_def)

lemma cached_bytes_nonneg: "0 \<le> cached_bytes os"
  by (simp add: cached_bytes_def)

lemma evict_result:
  "evict mx mb os (cached_bytes os) = (ys, b) \<Longrightarrow>
     suffix ys os \<and> b = cached_bytes ys \<and> (ys = [] \<or> within_limits mx mb ys)"
proof (induction os)
  case (Cons ob os)
  show ?case
  proof (cases "int (length (ob # os)) \<ge> mx \<or> cached_bytes (ob # os) \<ge> mb")
    case True
    with Cons.prems have "evict mx mb os (cached_bytes os) = (ys, b)" by simp
    with Cons.IH show ?thesis by (auto intro: suffix_ConsI)
  next
    case False
    with Cons.prems show ?thesis by (auto simp: within_limits_def)
  qed
qed simp

text \<open>Nothing is evicted that the limits would have allowed to stay.\<close>

lemma evict_longest:
  assumes "evict mx mb os (cached_bytes os) = (ys, b)" and "suffix zs os" and "within_limits mx mb zs"
  shows "suffix zs ys"
  using assms
proof (induction os)
  case (Cons ob os)
  show ?case
  proof (cases "int (length (ob # os)) \<ge> mx \<or> cached_bytes (ob # os) \<ge> mb")
    case True
    with Cons.prems(1) have e: "evict mx mb os (cached_bytes os) = (ys, b)" by simp
    have "zs \<noteq> ob # os" using True Cons.prems(3) by (auto simp: within_limits_def)
    with Cons.prems(2) have "suffix zs os" by (auto simp: suffix_Cons)
    with Cons.IH e Cons.prems(3) show ?thesis by blast
  next
    case False
    with Cons.prems(1,2) show ?thesis by auto
  qed
qed simp

lemma cacheObject_contents:
  assumes "cache_ok rs" and "rs_CacheEnabled rs"
  obtains ys where "suffix ys (rs_ObjectCache rs)"
    and "ys = [] \<or> within_limits (rs_MaxCacheSize rs) (rs_MaxCacheBytes rs) ys"
    and "\<And>zs. suffix zs (rs_ObjectCache rs) \<Longrightarrow> within_limits (rs_MaxCacheSize rs) (rs_MaxCacheBytes rs) zs \<Longrightarrow> suffix zs ys"
    and "RelayStream_cacheObject g i p rs = rs\<lparr>rs_ObjectCache := ys @ [\<lparr>co_GroupID = g, co_ID = i, co_Payload = p\<rparr>],
      rs_CurrentBytes := cached_bytes ys + int (length p)\<rparr>"
proof -
  let ?e = "evict (rs_MaxCacheSize rs) (rs_MaxCacheBytes rs) (rs_ObjectCache rs) (cached_bytes (rs_ObjectCache rs))"
  obtain ys b where e: "?e = (ys, b)" by (cases ?e)
  note r = evict_result [OF e]
  moreover have "RelayStream_cacheObject g i p rs = rs\<lparr>rs_ObjectCache := ys @ [\<lparr>co_GroupID = g, co_ID = i, co_Payload = p\<rparr>],
      rs_CurrentBytes := cached_bytes ys + int (length p)\<rparr>"
    using assms e r by (simp add: RelayStream_cacheObject_def cache_ok_def)
  ultimately show ?thesis using that evict_longest [OF e] by blast
qed

lemma cacheObject_ok [simp]:
  assumes "cache_ok rs"
  shows "cache_ok (RelayStream_cacheObject g i p rs)"
proof (cases "rs_CacheEnabled rs")
  case True
  from assms True show ?thesis
  proof (rule cacheObject_contents [where g = g and i = i and p = p])
    fix ys
    assume ys: "ys = [] \<or> within_limits (rs_MaxCacheSize rs) (rs_MaxCacheBytes rs) ys"
      and c: "RelayStream_cacheObject g i p rs = rs\<lparr>rs_ObjectCache := ys @ [\<lparr>co_GroupID = g, co_ID = i, co_Payload = p\<rparr>],
        rs_CurrentBytes := cached_bytes ys + int (length p)\<rparr>"
    show ?thesis using ys unfolding c by (auto simp: cache_ok_def within_limits_def)
  qed
qed (simp add: assms RelayStream_cacheObject_def)

lemma ClearCache_ok [simp]: "cache_ok (RelayStream_ClearCache rs)"
  by (simp add: cache_ok_def RelayStream_ClearCache_def max_def)

lemma NewRelayStreamWithCache_ok [simp]: "cache_ok (NewRelayStreamWithCache subid sid smap mx mb)"
  by (simp add: cache_ok_def NewRelayStreamWithCache_def NewRelayStream_def max_def)

lemma NewRelayStream_ok [simp]: "cache_ok (NewRelayStream subid sid smap)"
  by (simp add: cache_ok_def NewRelayStream_def max_def DEFAULT_CACHE_SIZE_def DEFAULT_CACHE_SIZE_MB_def)

lemma cacheObject_other [simp]:
  "rs_MaxCacheSize (RelayStream_cacheObject g i p rs) = rs_MaxCacheSize rs"
  "rs_MaxCacheBytes (RelayStream_cacheObject g i p rs) = rs_MaxCacheBytes rs"
  "rs_CacheEnabled (RelayStream_cacheObject g i p rs) = rs_CacheEnabled rs"
  "rs_SubID (RelayStream_cacheObject g i p rs) = rs_SubID rs"
  "rs_StreamID (RelayStream_cacheObject g i p rs) = rs_StreamID rs"
  "rs_Subscribers (RelayStream_cacheObject g i p rs) = rs_Subscribers rs"
  "rs_Map (RelayStream_cacheObject g i p rs) = rs_Map rs"
  by (simp_all add: RelayStream_cacheObject_def split: prod.splits)

section \<open>The cache as a window on the objects received\<close>

text \<open>The contract of a cache of recent objects: a new object goes last, and only oldest objects go. Its
  clients can rely on a window that ends with the newest object and has no gaps.\<close>

locale recent_window =
  fixes ok :: "'s \<Rightarrow> bool" and contents :: "'s \<Rightarrow> 'o list" and put :: "'o \<Rightarrow> 's \<Rightarrow> 's"
  assumes ok_put: "ok s \<Longrightarrow> ok (put x s)"
    and contents_put: "ok s \<Longrightarrow> \<exists>ys. suffix ys (contents s) \<and> contents (put x s) = ys @ [x]"
begin

lemma ok_puts: "ok s \<Longrightarrow> ok (fold put xs s)"
  by (induction xs arbitrary: s) (simp_all add: ok_put)

lemma window_suffix: "ok s \<Longrightarrow> suffix (contents (fold put xs s)) (contents s @ xs)"
proof (induction xs arbitrary: s)
  case (Cons x xs)
  obtain ys where "suffix ys (contents s)" "contents (put x s) = ys @ [x]"
    using contents_put [OF Cons.prems] by blast
  moreover have "suffix (contents (fold put xs (put x s))) (contents (put x s) @ xs)"
    using Cons.IH [OF ok_put [OF Cons.prems]] .
  ultimately show ?case by (auto simp: suffix_def)
qed simp

lemma window_newest: "ok s \<Longrightarrow> last (contents (fold put (xs @ [x]) s)) = x"
  using contents_put [OF ok_puts, of s xs x] by auto

lemma window_nonempty: "ok s \<Longrightarrow> contents (fold put (xs @ [x]) s) \<noteq> []"
  using contents_put [OF ok_puts, of s xs x] by auto

end

definition put_cached :: "CachedObject \<Rightarrow> RelayStream \<Rightarrow> RelayStream" where
  "put_cached ob = RelayStream_cacheObject (co_GroupID ob) (co_ID ob) (co_Payload ob)"

lemma put_cached_contents:
  assumes "cache_ok rs \<and> rs_CacheEnabled rs"
  shows "\<exists>ys. suffix ys (rs_ObjectCache rs) \<and> rs_ObjectCache (put_cached ob rs) = ys @ [ob]"
proof -
  from assms have "cache_ok rs" "rs_CacheEnabled rs" by auto
  then show ?thesis
  proof (rule cacheObject_contents [where g = "co_GroupID ob" and i = "co_ID ob" and p = "co_Payload ob"])
    fix ys
    assume ys: "suffix ys (rs_ObjectCache rs)"
      and c: "RelayStream_cacheObject (co_GroupID ob) (co_ID ob) (co_Payload ob) rs
        = rs\<lparr>rs_ObjectCache := ys @ [\<lparr>co_GroupID = co_GroupID ob, co_ID = co_ID ob, co_Payload = co_Payload ob\<rparr>],
             rs_CurrentBytes := cached_bytes ys + int (length (co_Payload ob))\<rparr>"
    show ?thesis using ys unfolding put_cached_def c by auto
  qed
qed

interpretation cache: recent_window "\<lambda>rs. cache_ok rs \<and> rs_CacheEnabled rs" RelayStream_GetCachedObjects put_cached
  using put_cached_contents
  by unfold_locales (simp_all add: put_cached_def RelayStream_GetCachedObjects_def)

section \<open>Filling from a stream\<close>

definition cached_of :: "Object \<Rightarrow> CachedObject" where
  "cached_of ob = \<lparr>co_GroupID = obj_GroupID ob, co_ID = obj_ID ob, co_Payload = obj_Payload ob\<rparr>"

lemma put_cached_of:
  "put_cached (cached_of ob) = RelayStream_cacheObject (obj_GroupID ob) (obj_ID ob) (obj_Payload ob)"
  by (simp add: put_cached_def cached_of_def)

lemma cache_objects_fold:
  "read_objects qv fuel st = Some (gos, e, st') \<Longrightarrow>
   cache_objects qv fuel rs st = Some (fold put_cached (map (cached_of \<circ> snd) gos) rs, e, st')"
proof (induction fuel arbitrary: st gos rs)
  case (Suc fuel)
  then obtain v st1 where v: "MOQTStream_ReadObject qv st = Some (v, st1)" by (auto split: option.splits)
  show ?case
  proof (cases v)
    case (Inl err)
    with v Suc.prems show ?thesis by auto
  next
    case (Inr go)
    with v Suc.prems obtain gos' where g: "read_objects qv fuel st1 = Some (gos', e, st')" "gos = go # gos'"
      by (auto split: option.splits)
    with v Inr Suc.IH [OF g(1)] show ?thesis by (cases go) (simp add: put_cached_of)
  qed
qed simp

section \<open>Grouping and replay\<close>

definition in_group :: "u64 \<Rightarrow> CachedObject list \<Rightarrow> CachedObject list" where
  "in_group g os = filter (\<lambda>ob. co_GroupID ob = g) os"

lemma add_to_group_ok: "gomap_ok m \<Longrightarrow> gomap_ok (add_to_group ob m)"
  by (simp add: add_to_group_def)

lemma group_fold_ok: "gomap_ok m \<Longrightarrow> gomap_ok (fold add_to_group os m)"
  by (induction os arbitrary: m) (simp_all add: add_to_group_ok)

lemma group_fold_get:
  "gomap_get (fold add_to_group os m) g = (case gomap_get m g of
      None \<Rightarrow> (if in_group g os = [] then None else Some (in_group g os))
    | Some xs \<Rightarrow> Some (xs @ in_group g os))"
  by (induction os arbitrary: m)
    (auto simp: in_group_def add_to_group_def gomap_simps split: option.splits)

lemma group_cached_get:
  "gomap_get (group_cached os) g = (if in_group g os = [] then None else Some (in_group g os))"
  by (simp add: group_cached_def group_fold_get)

lemma group_cached_entries:
  "set (group_cached os) = (\<lambda>g. (g, in_group g os)) ` co_GroupID ` set os"
proof -
  have ok: "gomap_ok (group_cached os)" by (simp add: group_cached_def group_fold_ok)
  have "(g, xs) \<in> set (group_cached os) \<longleftrightarrow> g \<in> co_GroupID ` set os \<and> xs = in_group g os" for g xs
  proof -
    have "(g, xs) \<in> set (group_cached os) \<longleftrightarrow> gomap_get (group_cached os) g = Some xs"
      using ok by (simp add: gomap_ok_def)
    also have "\<dots> \<longleftrightarrow> g \<in> co_GroupID ` set os \<and> xs = in_group g os"
      by (auto simp: group_cached_get in_group_def filter_empty_conv)
    finally show ?thesis .
  qed
  then show ?thesis by auto
qed

definition CachedObject_ok :: "CachedObject \<Rightarrow> bool" where
  "CachedObject_ok ob \<longleftrightarrow> fits62 (co_GroupID ob) \<and> fits62 (co_ID ob) \<and> length (co_Payload ob) \<le> maxAlloc"

text \<open>What a receiver makes of the bytes of a stream: the subscription, the group and the objects.\<close>

definition received :: "quicvarint \<Rightarrow> u64 \<Rightarrow> u64 \<Rightarrow> CachedObject list \<Rightarrow> bytes \<Rightarrow> bool" where
  "received qv subID g os bs \<longleftrightarrow> (\<exists>st st'.
     ParseMOQTStream qv \<lparr>rd_data = bs, rd_end = EOF\<rparr> = Some (Inr (subID, st)) \<and>
     read_objects qv (Suc (length bs)) st =
       Some (map (\<lambda>ob. (g, \<lparr>obj_GroupID = 0, obj_ID = co_ID ob, obj_Payload = co_Payload ob\<rparr>)) os, Some EOF, st'))"

context varint_codec
begin

lemma cached_writes_ok:
  assumes "fits62 g" and "list_all CachedObject_ok os"
  shows "\<exists>ws. cached_writes qv g os = Some ws \<and> concat ws =
    concat (map (object_enc qv) (map (\<lambda>ob. \<lparr>obj_GroupID = g, obj_ID = co_ID ob, obj_Payload = co_Payload ob\<rparr>) os))"
  using assms(2)
proof (induction os)
  case (Cons ob os)
  then have "Object_ok \<lparr>obj_GroupID = g, obj_ID = co_ID ob, obj_Payload = co_Payload ob\<rparr>"
    using assms(1) by (simp add: Object_ok_def CachedObject_ok_def)
  with Cons show ?case by (auto simp: Object_GetBytes_ok)
qed simp

lemma group_replay:
  assumes "fits62 subID" and "fits62 g" and "list_all CachedObject_ok os"
  shows "\<exists>h ws. cached_header qv subID g = Some h \<and> cached_writes qv g os = Some ws \<and>
    received qv subID g os (concat (h # ws))"
proof -
  let ?obs = "map (\<lambda>ob. \<lparr>obj_GroupID = g, obj_ID = co_ID ob, obj_Payload = co_Payload ob\<rparr>) os"
  let ?gs = "zero_GroupStream\<lparr>gs_GroupID := g\<rparr>"
  let ?r = "\<lparr>rd_data = [], rd_end = EOF\<rparr> :: reader"
  obtain ws where ws: "cached_writes qv g os = Some ws" "concat ws = concat (map (object_enc qv) ?obs)"
    using cached_writes_ok [OF assms(2,3)] by blast
  have ok: "list_all Object_ok ?obs"
    using assms(2,3) by (auto simp: list_all_iff Object_ok_def CachedObject_ok_def)
  have f: "fits62 0" by (simp add: fits62_def)
  obtain h where h: "GroupStream_GetHeaderSubIDBytes qv ?gs subID = Some h"
    and p: "\<And>r rest. ParseMOQTStream qv (r\<lparr>rd_data := h @ rest\<rparr>) =
      Some (Inr (subID, SGroup (zero_GroupStream\<lparr>gs_SubID := subID, gs_TrackAlias := gs_TrackAlias ?gs,
        gs_GroupID := gs_GroupID ?gs, gs_SendOrder := gs_SendOrder ?gs,
        gs_reader := Some (r\<lparr>rd_data := rest\<rparr>)\<rparr>)))"
    using GroupStream_header_enc [of subID ?gs] assms f by (auto simp: zero_GroupStream_def)
  have "cached_header qv subID g = Some h"
    using h by (simp add: cached_header_def GroupStream_GetHeaderSubIDBytes_def zero_GroupStream_def)
  moreover have "received qv subID g os (concat (h # ws))"
  proof -
    have l: "length ?obs < Suc (length (h @ concat ws))"
      using object_enc_lengths [OF ok] ws(2) by simp
    show ?thesis
      using p [where r = ?r and rest = "concat ws"]
        read_objects_group [OF ok l, where r = ?r and gs = "zero_GroupStream\<lparr>gs_SubID := subID,
          gs_TrackAlias := gs_TrackAlias ?gs, gs_GroupID := gs_GroupID ?gs, gs_SendOrder := gs_SendOrder ?gs,
          gs_reader := Some (?r\<lparr>rd_data := concat ws\<rparr>)\<rparr>"] ws(2)
      by (simp add: received_def comp_def)
  qed
  ultimately show ?thesis using ws(1) by blast
qed

text \<open>The replay goes through the groups in the given order up to the first stream that cannot be opened.\<close>

lemma send_groups_result:
  assumes "fits62 subID" and "\<forall>(g, os) \<in> set groups. fits62 g \<and> list_all CachedObject_ok os"
  shows "\<exists>sent err. send_groups qv opens n subID groups = Some (sent, err) \<and>
    length sent \<le> length groups \<and>
    (\<forall>i < length sent. opens (n + i) = None \<and>
       received qv subID (fst (groups ! i)) (snd (groups ! i)) (concat (sent ! i))) \<and>
    (if length sent = length groups then err = None else err \<noteq> None \<and> err = opens (n + length sent))"
  using assms(2)
proof (induction groups arbitrary: n)
  case (Cons go groups)
  obtain g os where go: "go = (g, os)" by (cases go)
  show ?case
  proof (cases "opens n")
    case (Some e)
    then show ?thesis by (simp add: go)
  next
    case None
    obtain h ws where hw: "cached_header qv subID g = Some h" "cached_writes qv g os = Some ws"
      "received qv subID g os (concat (h # ws))"
      using group_replay [OF assms(1), of g os] Cons.prems go by auto
    obtain sent err where IH: "send_groups qv opens (Suc n) subID groups = Some (sent, err)"
      "length sent \<le> length groups"
      "\<forall>i < length sent. opens (Suc n + i) = None \<and>
         received qv subID (fst (groups ! i)) (snd (groups ! i)) (concat (sent ! i))"
      "if length sent = length groups then err = None else err \<noteq> None \<and> err = opens (Suc n + length sent)"
      using Cons.IH [of "Suc n"] Cons.prems by auto
    have "opens (n + i) = None \<and>
       received qv subID (fst ((go # groups) ! i)) (snd ((go # groups) ! i)) (concat (((h # ws) # sent) ! i))"
      if "i < length ((h # ws) # sent)" for i
      using that None hw(3) IH(3) go by (cases i) auto
    moreover have "if length ((h # ws) # sent) = length (go # groups) then err = None
      else err \<noteq> None \<and> err = opens (n + length ((h # ws) # sent))"
      using IH(4) by (auto split: if_splits)
    ultimately show ?thesis
      using None hw(1,2) IH(1,2) by (intro exI [of _ "(h # ws) # sent"] exI [of _ err]) (simp add: go)
  qed
qed simp

end

section \<open>Properties\<close>

text \<open>The operations that change the cache of a relay stream.\<close>

datatype cache_op = OpCache u64 u64 bytes | OpClear

fun cache_run :: "cache_op list \<Rightarrow> RelayStream \<Rightarrow> RelayStream" where
  "cache_run [] rs = rs"
| "cache_run (OpCache g i p # ops) rs = cache_run ops (RelayStream_cacheObject g i p rs)"
| "cache_run (OpClear # ops) rs = cache_run ops (RelayStream_ClearCache rs)"

lemma cache_run_ok: "cache_ok rs \<Longrightarrow> cache_ok (cache_run ops rs)"
  by (induction ops rs rule: cache_run.induct) simp_all

lemma cache_run_limits [simp]:
  "rs_MaxCacheSize (cache_run ops rs) = rs_MaxCacheSize rs"
  "rs_MaxCacheBytes (cache_run ops rs) = rs_MaxCacheBytes rs"
  by (induction ops rs rule: cache_run.induct) (simp_all add: RelayStream_ClearCache_def)

text \<open>Property C17 (cache accounting and limits). After any sequence of cache operations on a new relay stream
  with any limits, \<open>CurrentBytes\<close> is the total size of the cached payloads, there are at most \<open>MaxCacheSize\<close> objects
  (one, if the limit is smaller), and without the newest object the payloads are below \<open>MaxCacheBytes\<close>: the limit in
  bytes is exceeded by less than the newest object.\<close>

theorem cache_accounting:
  fixes subid sid smap maxObjects maxBytes ops
  defines "rs \<equiv> cache_run ops (NewRelayStreamWithCache subid sid smap maxObjects maxBytes)"
  shows "RelayStream_GetCacheStats rs
      = (int (length (RelayStream_GetCachedObjects rs)), cached_bytes (RelayStream_GetCachedObjects rs)) \<and>
    int (length (RelayStream_GetCachedObjects rs)) \<le> max 1 maxObjects \<and>
    cached_bytes (butlast (RelayStream_GetCachedObjects rs)) < max 1 maxBytes"
proof -
  have "cache_ok rs" unfolding rs_def by (intro cache_run_ok) simp
  moreover have "rs_MaxCacheSize rs = maxObjects" "rs_MaxCacheBytes rs = maxBytes"
    by (simp_all add: rs_def NewRelayStreamWithCache_def)
  ultimately show ?thesis
    by (simp add: cache_ok_def RelayStream_GetCacheStats_def RelayStream_GetCachedObjects_def)
qed

text \<open>The byte limit can be exceeded. The eviction looks at the bytes before the new object is
  added, so an object larger than \<open>MaxCacheBytes\<close> is cached all the same and the counter is above the limit
  afterwards.\<close>

lemma cache_bytes_exceed_limit:
  assumes "cache_ok rs" and "rs_CacheEnabled rs" and "rs_MaxCacheBytes rs < int (length p)"
  shows "rs_MaxCacheBytes rs < snd (RelayStream_GetCacheStats (RelayStream_cacheObject g i p rs))"
  using assms(1,2)
proof (rule cacheObject_contents [where g = g and i = i and p = p])
  fix ys
  assume c: "RelayStream_cacheObject g i p rs = rs\<lparr>rs_ObjectCache := ys @ [\<lparr>co_GroupID = g, co_ID = i, co_Payload = p\<rparr>],
        rs_CurrentBytes := cached_bytes ys + int (length p)\<rparr>"
  show ?thesis
    using assms(3) cached_bytes_nonneg [of ys] unfolding c by (simp add: RelayStream_GetCacheStats_def)
qed

theorem cache_bytes_exceed_limit_witness:
  "rs_MaxCacheBytes (NewRelayStreamWithCache 1 ''s'' 0 10 3)
     < snd (RelayStream_GetCacheStats (RelayStream_cacheObject 0 0 [1, 2, 3, 4] (NewRelayStreamWithCache 1 ''s'' 0 10 3)))"
  by (rule cache_bytes_exceed_limit) (simp_all add: NewRelayStreamWithCache_def [of 1] NewRelayStream_def cache_ok_def)

text \<open>Property C18 (the cache is a window on the newest objects). When a sequence of objects is cached, the
  cache is a suffix of what it held followed by the sequence, without gaps and in order, and its last object is the
  newest.\<close>

theorem cache_is_recent_window:
  assumes "cache_ok rs" and "rs_CacheEnabled rs"
  shows "suffix (RelayStream_GetCachedObjects (fold put_cached (obs @ [ob]) rs)) (RelayStream_GetCachedObjects rs @ obs @ [ob]) \<and>
    RelayStream_GetCachedObjects (fold put_cached (obs @ [ob]) rs) \<noteq> [] \<and>
    last (RelayStream_GetCachedObjects (fold put_cached (obs @ [ob]) rs)) = ob"
proof (intro conjI)
  have ok: "cache_ok rs \<and> rs_CacheEnabled rs" using assms by simp
  show "suffix (RelayStream_GetCachedObjects (fold put_cached (obs @ [ob]) rs)) (RelayStream_GetCachedObjects rs @ obs @ [ob])"
    using ok by (rule cache.window_suffix)
  show "RelayStream_GetCachedObjects (fold put_cached (obs @ [ob]) rs) \<noteq> []"
    using ok by (rule cache.window_nonempty)
  show "last (RelayStream_GetCachedObjects (fold put_cached (obs @ [ob]) rs)) = ob"
    using ok by (rule cache.window_newest)
qed

definition cached_obj :: "u64 \<Rightarrow> u64 \<Rightarrow> bytes \<Rightarrow> CachedObject" where
  "cached_obj g i p = \<lparr>co_GroupID = g, co_ID = i, co_Payload = p\<rparr>"

theorem cache_is_recent_window_witness:
  "RelayStream_GetCachedObjects (fold put_cached ([cached_obj 0 0 [1], cached_obj 0 1 [2]] @ [cached_obj 0 2 [3]]) (NewRelayStreamWithCache 1 ''s'' 0 2 100))
     = [cached_obj 0 1 [2], cached_obj 0 2 [3]] \<and>
   last (RelayStream_GetCachedObjects (fold put_cached ([cached_obj 0 0 [1], cached_obj 0 1 [2]] @ [cached_obj 0 2 [3]]) (NewRelayStreamWithCache 1 ''s'' 0 2 100)))
     = cached_obj 0 2 [3]"
proof (rule conjI)
  show "RelayStream_GetCachedObjects (fold put_cached ([cached_obj 0 0 [1], cached_obj 0 1 [2]] @ [cached_obj 0 2 [3]]) (NewRelayStreamWithCache 1 ''s'' 0 2 100))
     = [cached_obj 0 1 [2], cached_obj 0 2 [3]]"
    by (simp add: RelayStream_GetCachedObjects_def put_cached_def cached_obj_def RelayStream_cacheObject_def
        NewRelayStreamWithCache_def NewRelayStream_def)
  show "last (RelayStream_GetCachedObjects (fold put_cached ([cached_obj 0 0 [1], cached_obj 0 1 [2]] @ [cached_obj 0 2 [3]]) (NewRelayStreamWithCache 1 ''s'' 0 2 100)))
     = cached_obj 0 2 [3]"
    by (rule cache_is_recent_window [THEN conjunct2, THEN conjunct2])
      (simp_all add: NewRelayStreamWithCache_def [of 1] NewRelayStream_def cache_ok_def)
qed

text \<open>Property C19 (no object is evicted without need). Of the suffixes of the old cache that leave room within
  both limits, the one that \<open>cacheObject\<close> keeps is the longest; it keeps nothing only if not even the newest old object
  would fit.\<close>

theorem cache_evicts_no_more_than_needed:
  assumes "cache_ok rs" and "rs_CacheEnabled rs"
    and "suffix zs (RelayStream_GetCachedObjects rs)" and "within_limits (rs_MaxCacheSize rs) (rs_MaxCacheBytes rs) zs"
  shows "suffix (zs @ [cached_obj g i p]) (RelayStream_GetCachedObjects (RelayStream_cacheObject g i p rs)) \<and>
    (\<exists>ys. RelayStream_GetCachedObjects (RelayStream_cacheObject g i p rs) = ys @ [cached_obj g i p] \<and>
       within_limits (rs_MaxCacheSize rs) (rs_MaxCacheBytes rs) ys)"
  using assms(1,2)
proof (rule cacheObject_contents [where g = g and i = i and p = p])
  fix ys
  assume ys: "ys = [] \<or> within_limits (rs_MaxCacheSize rs) (rs_MaxCacheBytes rs) ys"
    and max: "\<And>zs. suffix zs (rs_ObjectCache rs) \<Longrightarrow> within_limits (rs_MaxCacheSize rs) (rs_MaxCacheBytes rs) zs \<Longrightarrow> suffix zs ys"
    and c: "RelayStream_cacheObject g i p rs = rs\<lparr>rs_ObjectCache := ys @ [\<lparr>co_GroupID = g, co_ID = i, co_Payload = p\<rparr>],
        rs_CurrentBytes := cached_bytes ys + int (length p)\<rparr>"
  have "suffix zs ys" using assms(3,4) by (intro max) (simp_all add: RelayStream_GetCachedObjects_def)
  moreover from this ys have "within_limits (rs_MaxCacheSize rs) (rs_MaxCacheBytes rs) ys"
    using assms(4) by auto
  ultimately show ?thesis
    unfolding c by (auto simp: RelayStream_GetCachedObjects_def cached_obj_def)
qed

definition full_cache :: RelayStream where
  "full_cache = fold put_cached [cached_obj 0 0 [1], cached_obj 0 1 [2]] (NewRelayStreamWithCache 1 ''s'' 0 2 100)"

lemma full_cache_ok: "cache_ok full_cache" "rs_CacheEnabled full_cache"
  using cache.ok_puts [of "NewRelayStreamWithCache 1 ''s'' 0 2 100" "[cached_obj 0 0 [1], cached_obj 0 1 [2]]"]
  by (simp_all add: full_cache_def NewRelayStreamWithCache_def [of 1] NewRelayStream_def cache_ok_def)

lemma full_cache_contents:
  "rs_ObjectCache full_cache = [cached_obj 0 0 [1], cached_obj 0 1 [2]]" "rs_MaxCacheSize full_cache = 2" "rs_MaxCacheBytes full_cache = 100"
  by (simp_all add: full_cache_def put_cached_def cached_obj_def RelayStream_cacheObject_def NewRelayStreamWithCache_def NewRelayStream_def)

theorem cache_evicts_no_more_than_needed_witness:
  "suffix [cached_obj 0 1 [2]] (RelayStream_GetCachedObjects full_cache) \<and>
   suffix ([cached_obj 0 1 [2]] @ [cached_obj 5 2 [3]]) (RelayStream_GetCachedObjects (RelayStream_cacheObject 5 2 [3] full_cache))"
proof -
  have s: "suffix [cached_obj 0 1 [2]] (RelayStream_GetCachedObjects full_cache)"
    by (simp add: RelayStream_GetCachedObjects_def full_cache_contents suffix_def)
  have "within_limits (rs_MaxCacheSize full_cache) (rs_MaxCacheBytes full_cache) [cached_obj 0 1 [2]]"
    by (simp add: within_limits_def full_cache_contents cached_obj_def)
  from cache_evicts_no_more_than_needed [OF full_cache_ok s this, of 5 2 "[3]"] s show ?thesis by simp
qed

text \<open>Property C16 (replay to a new subscriber). \<open>SendCachedObjects\<close> opens one stream per group of the cache, in
  whatever order the groups are visited, and stops at the first stream that cannot be opened, whose error it
  returns; otherwise it returns no error and every group has been sent. A receiver that reads the \<open>i\<close>-th stream gets
  the subscription's ID, the group, and exactly the cached objects of that group in the order of the cache.\<close>

theorem replay_delivers_cache:
  assumes "varint_codec qv" and "fits62 subID" and "list_all CachedObject_ok (RelayStream_GetCachedObjects rs)"
    and "\<And>m. mset (ord m) = mset m"
  shows "\<exists>sent err gs. RelayStream_SendCachedObjects qv ord opens rs subID = Some (sent, err) \<and>
    distinct gs \<and> set gs = co_GroupID ` set (RelayStream_GetCachedObjects rs) \<and> length sent \<le> length gs \<and>
    (\<forall>i < length sent. opens i = None \<and>
       received qv subID (gs ! i) (in_group (gs ! i) (RelayStream_GetCachedObjects rs)) (concat (sent ! i))) \<and>
    (if length sent = length gs then err = None else err \<noteq> None \<and> err = opens (length sent))"
proof (cases "rs_ObjectCache rs = []")
  case True
  then show ?thesis by (simp add: RelayStream_SendCachedObjects_def RelayStream_GetCachedObjects_def)
next
  case False
  let ?os = "rs_ObjectCache rs"
  let ?m = "ord (group_cached ?os)"
  have perm: "mset ?m = mset (group_cached ?os)" by (rule assms(4))
  then have ent: "set ?m = (\<lambda>g. (g, in_group g ?os)) ` co_GroupID ` set ?os"
    by (metis group_cached_entries mset_eq_setD)
  have "gomap_ok (group_cached ?os)" by (simp add: group_cached_def group_fold_ok)
  then have d: "distinct (map fst ?m)"
    using perm by (metis gomap_ok_def mset_eq_imp_distinct_iff mset_map)
  have "list_all CachedObject_ok ?os" using assms(3) by (simp add: RelayStream_GetCachedObjects_def)
  then have "\<forall>(g, os) \<in> set ?m. fits62 g \<and> list_all CachedObject_ok os"
    unfolding ent by (auto simp: list_all_iff CachedObject_ok_def in_group_def)
  from varint_codec.send_groups_result [OF assms(1,2) this, of opens 0, unfolded add_0]
  obtain sent err where s: "send_groups qv opens 0 subID ?m = Some (sent, err)" "length sent \<le> length ?m"
    "\<forall>i < length sent. opens i = None \<and> received qv subID (fst (?m ! i)) (snd (?m ! i)) (concat (sent ! i))"
    "if length sent = length ?m then err = None else err \<noteq> None \<and> err = opens (length sent)"
    by blast
  have "snd (?m ! i) = in_group (fst (?m ! i)) ?os" if "i < length ?m" for i
    using nth_mem [OF that] unfolding ent by auto
  with s d ent False show ?thesis
    by (intro exI [of _ sent] exI [of _ err] exI [of _ "map fst ?m"])
      (auto simp: RelayStream_SendCachedObjects_def RelayStream_GetCachedObjects_def image_image)
qed

theorem replay_delivers_cache_witness:
  "list_all CachedObject_ok (RelayStream_GetCachedObjects full_cache) \<and>
   (\<exists>sent err gs. RelayStream_SendCachedObjects rfc9000 rev (\<lambda>_. None) full_cache 9 = Some (sent, err) \<and>
    distinct gs \<and> set gs = co_GroupID ` set (RelayStream_GetCachedObjects full_cache) \<and> length sent \<le> length gs \<and>
    (\<forall>i < length sent. (\<lambda>_. None) i = (None :: goerror option) \<and>
       received rfc9000 9 (gs ! i) (in_group (gs ! i) (RelayStream_GetCachedObjects full_cache)) (concat (sent ! i))) \<and>
    (if length sent = length gs then err = None else err \<noteq> None \<and> err = (\<lambda>_. None) (length sent)))"
proof (rule conjI)
  show ok: "list_all CachedObject_ok (RelayStream_GetCachedObjects full_cache)"
    by (simp add: RelayStream_GetCachedObjects_def full_cache_contents cached_obj_def CachedObject_ok_def fits62_def maxAlloc_def)
  show "\<exists>sent err gs. RelayStream_SendCachedObjects rfc9000 rev (\<lambda>_. None) full_cache 9 = Some (sent, err) \<and>
    distinct gs \<and> set gs = co_GroupID ` set (RelayStream_GetCachedObjects full_cache) \<and> length sent \<le> length gs \<and>
    (\<forall>i < length sent. (\<lambda>_. None) i = (None :: goerror option) \<and>
       received rfc9000 9 (gs ! i) (in_group (gs ! i) (RelayStream_GetCachedObjects full_cache)) (concat (sent ! i))) \<and>
    (if length sent = length gs then err = None else err \<noteq> None \<and> err = (\<lambda>_. None) (length sent))"
    by (rule replay_delivers_cache [OF rfc9000_codec _ ok]) (simp_all add: fits62_def)
qed

text \<open>A track is cached with its groups. The loop of \<open>ProcessObjects\<close> on the bytes that a track
  stream's \<open>Pipe\<close> wrote ends at the end of the stream, and has cached every object, in order, with its group, its ID and
  its payload.\<close>

lemma track_objects_cached:
  assumes "varint_codec qv" and "list_all Object_ok os"
    and "ts_reader ts = Some \<lparr>rd_data = concat (map (track_object_enc qv) os), rd_end = EOF\<rparr>"
  shows "\<exists>stream. cache_objects qv (Suc (length os)) rs (STrack ts) =
    Some (fold put_cached (map cached_of os) rs, Some EOF, stream)"
proof -
  have "\<exists>st'. read_objects qv (Suc (length os)) (STrack ts) = Some (map (\<lambda>ob. (obj_GroupID ob, ob)) os, Some EOF, st')"
    using varint_codec.read_objects_track [OF assms(1,2), where fuel = "Suc (length os)" and ts = ts
        and r = "\<lparr>rd_data = [], rd_end = EOF\<rparr>"] assms(3) by simp
  then obtain st' where "read_objects qv (Suc (length os)) (STrack ts) = Some (map (\<lambda>ob. (obj_GroupID ob, ob)) os, Some EOF, st')"
    by blast
  from cache_objects_fold [OF this] show ?thesis by (simp add: comp_def)
qed

definition sample_objs :: "Object list" where
  "sample_objs = [\<lparr>obj_GroupID = 3, obj_ID = 0, obj_Payload = [1, 2]\<rparr>, \<lparr>obj_GroupID = 4, obj_ID = 1, obj_Payload = [9]\<rparr>]"

lemma sample_objs_ok: "list_all Object_ok sample_objs"
  by (simp add: sample_objs_def Object_ok_def fits62_def maxAlloc_def)

theorem track_objects_cached_witness:
  "list_all Object_ok sample_objs \<and>
   (\<exists>stream. cache_objects rfc9000 (Suc (length sample_objs)) full_cache
      (STrack (sample_track\<lparr>ts_reader := Some \<lparr>rd_data = concat (map (track_object_enc rfc9000) sample_objs), rd_end = EOF\<rparr>\<rparr>))
    = Some (fold put_cached (map cached_of sample_objs) full_cache, Some EOF, stream))"
  using track_objects_cached [OF rfc9000_codec sample_objs_ok,
      where ts = "sample_track\<lparr>ts_reader := Some \<lparr>rd_data = concat (map (track_object_enc rfc9000) sample_objs), rd_end = EOF\<rparr>\<rparr>"]
    sample_objs_ok by simp

text \<open>The objects of a group stream are cached under group 0. \<open>ReadObject\<close> of a group stream returns
  the group beside the object and leaves the object's own \<open>GroupID\<close> zero, and \<open>ProcessObjects\<close> caches the latter: the
  loop ends at the end of the stream and has cached every object in order, all of them under group 0 whatever the group
  of the stream.\<close>

lemma group_objects_cached_as_group_zero:
  assumes "varint_codec qv" and "list_all Object_ok os"
    and "gs_reader gs = Some \<lparr>rd_data = concat (map (object_enc qv) os), rd_end = EOF\<rparr>"
  shows "\<exists>stream. cache_objects qv (Suc (length os)) rs (SGroup gs) =
    Some (fold put_cached (map (\<lambda>ob. cached_obj 0 (obj_ID ob) (obj_Payload ob)) os) rs, Some EOF, stream)"
proof -
  have "\<exists>st'. read_objects qv (Suc (length os)) (SGroup gs)
      = Some (map (\<lambda>ob. (gs_GroupID gs, ob\<lparr>obj_GroupID := 0\<rparr>)) os, Some EOF, st')"
    using varint_codec.read_objects_group [OF assms(1,2), where fuel = "Suc (length os)" and gs = gs
        and r = "\<lparr>rd_data = [], rd_end = EOF\<rparr>"] assms(3) by simp
  then obtain st' where "read_objects qv (Suc (length os)) (SGroup gs)
      = Some (map (\<lambda>ob. (gs_GroupID gs, ob\<lparr>obj_GroupID := 0\<rparr>)) os, Some EOF, st')" by blast
  from cache_objects_fold [OF this] show ?thesis by (simp add: comp_def cached_of_def cached_obj_def)
qed

theorem group_objects_cached_as_group_zero_witness:
  "gs_GroupID sample_group = 3 \<and>
   (\<exists>stream. cache_objects rfc9000 (Suc (length sample_objs)) full_cache
      (SGroup (sample_group\<lparr>gs_reader := Some \<lparr>rd_data = concat (map (object_enc rfc9000) sample_objs), rd_end = EOF\<rparr>\<rparr>))
    = Some (fold put_cached (map (\<lambda>ob. cached_obj 0 (obj_ID ob) (obj_Payload ob)) sample_objs) full_cache, Some EOF, stream))"
  using group_objects_cached_as_group_zero [OF rfc9000_codec sample_objs_ok,
      where gs = "sample_group\<lparr>gs_reader := Some \<lparr>rd_data = concat (map (object_enc rfc9000) sample_objs), rd_end = EOF\<rparr>\<rparr>"]
  by (simp add: sample_group_def NewGroupStream_def)

end
