(* ===== verification/Session_State.thy ===== *)
theory Session_State
  imports Streams_Map Relay_Cache
begin

text \<open>
  The state of a process that runs MOQT sessions: the structs of \<open>src/moqt/moqtsession.go\<close>,
  \<open>controlstream.go\<close>, \<open>sessionmanager.go\<close>, \<open>relayhandler.go\<close>, \<open>pubhandler.go\<close>, \<open>pubstream.go\<close>, \<open>subhandler.go\<close> and
  \<open>substream.go\<close>, and the operations every handler uses: writing a control message, closing a channel, starting a
  goroutine.

  Pointers that are shared are references into heaps: sessions, relay streams, and the channels of a subscriber's
  streams. A handler
  embeds its session and a session points to its one handler, so the handler is a field of the session and a
  reference to the one is a reference to the other. The package variable \<open>sm\<close> is a part of the state.

  An operation is a function to \<open>world option\<close>; \<^const>\<open>None\<close> is a panic (a nil dereference, a failed type
  assertion, a send on or close of a closed channel, an integer that \<open>quicvarint\<close> cannot encode). Messages handed to
  the control stream's \<open>Write\<close> are kept in \<open>cs_sent\<close>; a \<open>go\<close> statement puts a task on \<open>w_tasks\<close>. An unbuffered channel is the
  list of what was sent on it, in order; a send returns when the receiver has taken the value.

  Shown here: the invariant \<open>world_ok\<close> of the heaps, the order \<open>world_le\<close> in which they grow, and that the shared
  operations respect both.
\<close>

section \<open>Structs\<close>

record 'a chan =
  ch_sent :: "'a list"
  ch_closed :: bool

definition make_chan :: "'a chan" where
  "make_chan = \<lparr>ch_sent = [], ch_closed = False\<rparr>"

definition chan_send :: "'a \<Rightarrow> 'a chan \<Rightarrow> 'a chan option" where
  "chan_send v c = (if ch_closed c then None else Some (c\<lparr>ch_sent := ch_sent c @ [v]\<rparr>))"

definition chan_close :: "'a chan \<Rightarrow> 'a chan option" where
  "chan_close c = (if ch_closed c then None else Some (c\<lparr>ch_closed := True\<rparr>))"

text \<open>\<open>cs_stream\<close> says that the QUIC stream is not nil.\<close>

record ControlStream =
  cs_stream :: bool
  cs_ishandshakedone :: bool
  cs_sent :: "MOQTMessage list"

definition NewControlStream :: "ControlStream" where
  "NewControlStream = \<lparr>cs_stream = True, cs_ishandshakedone = False, cs_sent = []\<rparr>"

record RelayHandler =
  rh_IncomingStreams :: "ref StreamsMap"
  rh_SubscribedStreams :: "ref StreamsMap"

record PubStream =
  ps_session :: ref
  ps_StreamID :: string
  ps_SubID :: u64
  ps_Namespace :: string
  ps_TrackName :: string
  ps_Alias :: u64
  ps_GroupCounter :: u64

record PubHandler =
  ph_AnnouncedStreams :: "(string, PubStream StreamsMap) gomap"
  ph_SubscribeChan :: "PubStream chan"

record SubStream =
  ss_StreamID :: string
  ss_SubID :: u64
  ss_StreamsChan :: ref

record SubHandler =
  sh_SubscribedStreams :: "SubStream StreamsMap"
  sh_StreamsChan :: "SubStream chan"
  sh_AnnounceChan :: "string chan"

datatype Handler = HRelay RelayHandler | HPub PubHandler | HSub SubHandler

text \<open>The channel \<open>HandshakeDone\<close>, whose capacity is one, is the number of values that were ever sent to it, \<open>s_HandshakeDone\<close>, and of
  those that were received, \<open>s_HandshakeTaken\<close>; the values in it are the difference. \<open>s_cancelled\<close> is the context;
  \<open>s_closes\<close> are the calls of the connection's \<open>CloseWithError\<close>.\<close>

record MOQTSession =
  s_CS :: "ControlStream option"
  s_cancelled :: bool
  s_Id :: string
  s_RemoteRole :: u64
  s_LocalRole :: u64
  s_Handler :: Handler
  s_Mode :: u8
  s_HandshakeDone :: nat
  s_HandshakeTaken :: nat
  s_closes :: "(u64 \<times> string) list"

definition SERVER_MODE :: u8 where "SERVER_MODE = 0x34"
definition CLIENT_MODE :: u8 where "CLIENT_MODE = 0x66"

datatype task =
    TaskWrite ref MOQTMessage
  | TaskReplay ref ref u64
  | TaskServeCS ref
  | TaskHandleControlStream ref
  | TaskInitiateHandshake ref
  | TaskDoHandle ref
  | TaskProcessObjects ref MOQTStream
  | TaskDeliver ref MOQTStream

record SessionManager =
  sm_sessions :: "(string, ref) gomap"
  sm_namespaces :: "(string, ref) gomap"

record world =
  w_sess :: "ref \<Rightarrow> MOQTSession option"
  w_strm :: "ref \<Rightarrow> RelayStream option"
  w_next_sess :: ref
  w_next_strm :: ref
  w_sm :: SessionManager
  w_schans :: "MOQTStream chan list"
  w_tasks :: "task list"

definition NewSessionManager :: SessionManager where
  "NewSessionManager = \<lparr>sm_sessions = [], sm_namespaces = []\<rparr>"

definition world_start :: world where
  "world_start = \<lparr>w_sess = (\<lambda>_. None), w_strm = (\<lambda>_. None), w_next_sess = 0, w_next_strm = 0,
     w_sm = NewSessionManager, w_schans = [], w_tasks = []\<rparr>"

section \<open>Shared operations\<close>

definition put_sess :: "ref \<Rightarrow> MOQTSession \<Rightarrow> world \<Rightarrow> world" where
  "put_sess r s w = w\<lparr>w_sess := (w_sess w)(r := Some s)\<rparr>"

definition put_strm :: "ref \<Rightarrow> RelayStream \<Rightarrow> world \<Rightarrow> world" where
  "put_strm p rs w = w\<lparr>w_strm := (w_strm w)(p := Some rs)\<rparr>"

definition spawn :: "task \<Rightarrow> world \<Rightarrow> world" where
  "spawn t w = w\<lparr>w_tasks := w_tasks w @ [t]\<rparr>"

text \<open>\<open>s.CS.WriteControlMessage(msg)\<close> for the session \<open>r\<close>: a nil \<open>CS\<close> is dereferenced. The error of \<open>Write\<close> is logged
  only.\<close>

definition WriteControlMessage :: "quicvarint \<Rightarrow> ref \<Rightarrow> MOQTMessage \<Rightarrow> world \<Rightarrow> world option" where
  "WriteControlMessage qv r msg w = do {
     s \<leftarrow> w_sess w r;
     cs \<leftarrow> s_CS s;
     if \<not> cs_stream cs then Some w
     else do {
       _ \<leftarrow> MOQTMessage_GetBytes qv msg;
       Some (put_sess r (s\<lparr>s_CS := Some (cs\<lparr>cs_sent := cs_sent cs @ [msg]\<rparr>)\<rparr>) w) } }"

text \<open>\<open>s.Handler.(*RelayHandler)\<close>\<close>

definition session_RelayHandler :: "MOQTSession \<Rightarrow> RelayHandler option" where
  "session_RelayHandler s = (case s_Handler s of HRelay rh \<Rightarrow> Some rh | _ \<Rightarrow> None)"

definition session_PubHandler :: "MOQTSession \<Rightarrow> PubHandler option" where
  "session_PubHandler s = (case s_Handler s of HPub ph \<Rightarrow> Some ph | _ \<Rightarrow> None)"

definition session_SubHandler :: "MOQTSession \<Rightarrow> SubHandler option" where
  "session_SubHandler s = (case s_Handler s of HSub sh \<Rightarrow> Some sh | _ \<Rightarrow> None)"

text \<open>The \<open>ObjectStream\<close> methods of a relay stream behind a pointer.\<close>

definition strm_StreamID :: "world \<Rightarrow> ref \<Rightarrow> string" where
  "strm_StreamID w p = (case w_strm w p of None \<Rightarrow> '''' | Some rs \<Rightarrow> RelayStream_GetStreamID rs)"

section \<open>The invariant of the heaps\<close>

text \<open>A session that may be written to.\<close>

definition has_cs :: "world \<Rightarrow> ref \<Rightarrow> bool" where
  "has_cs w r \<longleftrightarrow> (\<exists>s cs. w_sess w r = Some s \<and> s_CS s = Some cs)"

definition is_relay :: "world \<Rightarrow> ref \<Rightarrow> bool" where
  "is_relay w r \<longleftrightarrow> (\<exists>s rh. w_sess w r = Some s \<and> s_Handler s = HRelay rh)"

definition has_id :: "world \<Rightarrow> ref \<Rightarrow> string \<Rightarrow> bool" where
  "has_id w r sid \<longleftrightarrow> (\<exists>s. w_sess w r = Some s \<and> s_Id s = sid)"

definition is_strm :: "world \<Rightarrow> ref \<Rightarrow> ref \<Rightarrow> u64 \<Rightarrow> bool" where
  "is_strm w p owner subid \<longleftrightarrow> (\<exists>rs. w_strm w p = Some rs \<and> rs_Map rs = owner \<and> rs_SubID rs = subid)"

fun handler_ok :: "world \<Rightarrow> ref \<Rightarrow> u64 \<Rightarrow> Handler \<Rightarrow> bool" where
  "handler_ok w r role (HRelay rh) \<longleftrightarrow> role = ROLE_RELAY \<and>
     StreamsMap_ok (rh_IncomingStreams rh) \<and> StreamsMap_ok (rh_SubscribedStreams rh) \<and>
     (\<forall>(k, p) \<in> set (streams (rh_IncomingStreams rh)). is_strm w p r k) \<and>
     (\<forall>(k, p) \<in> set (streams (rh_SubscribedStreams rh)). fits62 k \<and> w_strm w p \<noteq> None)"
| "handler_ok w r role (HPub ph) \<longleftrightarrow> role = ROLE_PUBLISHER \<and> gomap_ok (ph_AnnouncedStreams ph)"
| "handler_ok w r role (HSub sh) \<longleftrightarrow> role = ROLE_SUBSCRIBER \<and> StreamsMap_ok (sh_SubscribedStreams sh) \<and>
     (\<forall>(k, ss) \<in> set (streams (sh_SubscribedStreams sh)). ss_StreamsChan ss < length (w_schans w))"

text \<open>A value is sent when the handshake is finished, never again, and received at most once.\<close>

definition handshake_ok :: "bool \<Rightarrow> nat \<Rightarrow> nat \<Rightarrow> bool" where
  "handshake_ok finished done taken \<longleftrightarrow> done = of_bool finished \<and> taken \<le> done"

lemma handshake_ok_simps [simp]:
  "handshake_ok False n m \<longleftrightarrow> n = 0 \<and> m = 0" "handshake_ok True n m \<longleftrightarrow> n = 1 \<and> m \<le> 1"
  by (auto simp: handshake_ok_def)

text \<open>A remote role is known only after a control message came, so a session with a remote role has a control
  stream; the handshake is finished at most once, so the buffered channel never blocks the sender.\<close>

definition session_ok :: "world \<Rightarrow> ref \<Rightarrow> MOQTSession \<Rightarrow> bool" where
  "session_ok w r s \<longleftrightarrow>
     (case s_CS s of
        None \<Rightarrow> s_RemoteRole s = 0 \<and> handshake_ok False (s_HandshakeDone s) (s_HandshakeTaken s)
      | Some cs \<Rightarrow> cs_stream cs \<and> handshake_ok (cs_ishandshakedone cs) (s_HandshakeDone s) (s_HandshakeTaken s)) \<and>
     handler_ok w r (s_LocalRole s) (s_Handler s)"

definition stream_ok :: "world \<Rightarrow> RelayStream \<Rightarrow> bool" where
  "stream_ok w rs \<longleftrightarrow> gomap_ok (rs_Subscribers rs) \<and> cache_ok rs \<and>
     (\<forall>(sid, h) \<in> set (rs_Subscribers rs). is_relay w h \<and> has_cs w h \<and> has_id w h sid)"

definition sm_ok :: "world \<Rightarrow> bool" where
  "sm_ok w \<longleftrightarrow> gomap_ok (sm_sessions (w_sm w)) \<and> gomap_ok (sm_namespaces (w_sm w)) \<and>
     (\<forall>(sid, r) \<in> set (sm_sessions (w_sm w)). has_id w r sid) \<and>
     (\<forall>(ns, r) \<in> set (sm_namespaces (w_sm w)). is_relay w r \<and> has_cs w r)"

text \<open>What a started goroutine needs when it runs: the session's control stream, and a message that can be encoded.\<close>

fun task_ok :: "world \<Rightarrow> task \<Rightarrow> bool" where
  "task_ok w (TaskWrite r msg) \<longleftrightarrow> has_cs w r \<and> message_ok msg"
| "task_ok w (TaskReplay r p subid) \<longleftrightarrow> is_relay w r \<and> w_strm w p \<noteq> None \<and> fits62 subid"
| "task_ok w (TaskServeCS r) \<longleftrightarrow> has_cs w r"
| "task_ok w (TaskHandleControlStream r) \<longleftrightarrow> (\<exists>sid. has_id w r sid)"
| "task_ok w (TaskInitiateHandshake r) \<longleftrightarrow> (\<exists>sid. has_id w r sid)"
| "task_ok w (TaskDoHandle r) \<longleftrightarrow> (\<exists>sid. has_id w r sid)"
| "task_ok w (TaskProcessObjects p stream) \<longleftrightarrow> w_strm w p \<noteq> None"
| "task_ok w (TaskDeliver c stream) \<longleftrightarrow> c < length (w_schans w)"

definition world_ok :: "world \<Rightarrow> bool" where
  "world_ok w \<longleftrightarrow>
     (\<forall>r s. w_sess w r = Some s \<longrightarrow> session_ok w r s) \<and>
     (\<forall>p rs. w_strm w p = Some rs \<longrightarrow> stream_ok w rs) \<and>
     (\<forall>r \<ge> w_next_sess w. w_sess w r = None) \<and> (\<forall>p \<ge> w_next_strm w. w_strm w p = None) \<and>
     sm_ok w \<and> (\<forall>t \<in> set (w_tasks w). task_ok w t)"

section \<open>The heaps only grow\<close>

text \<open>What a later state keeps of an earlier one: sessions and streams stay, with their identity, their kind of
  handler and, once there, the control stream.\<close>

definition sess_le :: "MOQTSession \<Rightarrow> MOQTSession \<Rightarrow> bool" where
  "sess_le s s' \<longleftrightarrow> s_Id s' = s_Id s \<and> s_LocalRole s' = s_LocalRole s \<and>
     (s_CS s \<noteq> None \<longrightarrow> s_CS s' \<noteq> None) \<and>
     (session_RelayHandler s \<noteq> None \<longrightarrow> session_RelayHandler s' \<noteq> None)"

definition strm_le :: "RelayStream \<Rightarrow> RelayStream \<Rightarrow> bool" where
  "strm_le rs rs' \<longleftrightarrow> rs_SubID rs' = rs_SubID rs \<and> rs_StreamID rs' = rs_StreamID rs \<and> rs_Map rs' = rs_Map rs"

definition world_le :: "world \<Rightarrow> world \<Rightarrow> bool" where
  "world_le w w' \<longleftrightarrow>
     (\<forall>r s. w_sess w r = Some s \<longrightarrow> (\<exists>s'. w_sess w' r = Some s' \<and> sess_le s s')) \<and>
     (\<forall>p rs. w_strm w p = Some rs \<longrightarrow> (\<exists>rs'. w_strm w' p = Some rs' \<and> strm_le rs rs')) \<and>
     length (w_schans w) \<le> length (w_schans w')"

lemma sess_le_refl [simp]: "sess_le s s"
  by (simp add: sess_le_def)

lemma strm_le_refl [simp]: "strm_le rs rs"
  by (simp add: strm_le_def)

lemma world_le_refl [simp]: "world_le w w"
  by (auto simp: world_le_def)

lemma world_le_trans:
  assumes "world_le w w'" and "world_le w' w''"
  shows "world_le w w''"
  unfolding world_le_def
proof (intro conjI allI impI)
  fix r s assume "w_sess w r = Some s"
  with assms(1) obtain s' where "w_sess w' r = Some s'" "sess_le s s'" unfolding world_le_def by blast
  moreover from this assms(2) obtain s'' where "w_sess w'' r = Some s''" "sess_le s' s''"
    unfolding world_le_def by blast
  ultimately show "\<exists>s'. w_sess w'' r = Some s' \<and> sess_le s s'" by (auto simp: sess_le_def)
next
  fix p rs assume "w_strm w p = Some rs"
  with assms(1) obtain rs' where "w_strm w' p = Some rs'" "strm_le rs rs'" unfolding world_le_def by blast
  moreover from this assms(2) obtain rs'' where "w_strm w'' p = Some rs''" "strm_le rs' rs''"
    unfolding world_le_def by blast
  ultimately show "\<exists>rs'. w_strm w'' p = Some rs' \<and> strm_le rs rs'" by (auto simp: strm_le_def)
qed (use assms in \<open>auto simp: world_le_def\<close>)

named_theorems world_mono \<open>facts about references that later states keep\<close>

lemma has_cs_mono [world_mono]: "world_le w w' \<Longrightarrow> has_cs w r \<Longrightarrow> has_cs w' r"
  unfolding world_le_def has_cs_def sess_le_def by (metis not_Some_eq)

lemma is_relay_iff: "is_relay w r \<longleftrightarrow> (\<exists>s. w_sess w r = Some s \<and> session_RelayHandler s \<noteq> None)"
proof -
  have "session_RelayHandler s \<noteq> None \<longleftrightarrow> (\<exists>rh. s_Handler s = HRelay rh)" for s
    by (cases "s_Handler s") (simp_all add: session_RelayHandler_def)
  then show ?thesis by (simp add: is_relay_def)
qed

lemma is_relay_mono [world_mono]: "world_le w w' \<Longrightarrow> is_relay w r \<Longrightarrow> is_relay w' r"
  unfolding world_le_def is_relay_iff sess_le_def by metis

lemma has_id_mono [world_mono]: "world_le w w' \<Longrightarrow> has_id w r sid \<Longrightarrow> has_id w' r sid"
  unfolding world_le_def has_id_def sess_le_def by metis

lemma is_strm_mono [world_mono]: "world_le w w' \<Longrightarrow> is_strm w p r k \<Longrightarrow> is_strm w' p r k"
  unfolding world_le_def is_strm_def strm_le_def by metis

lemma strm_ne_mono [world_mono]: "world_le w w' \<Longrightarrow> w_strm w p \<noteq> None \<Longrightarrow> w_strm w' p \<noteq> None"
  unfolding world_le_def by (metis not_Some_eq)

lemma handler_ok_mono: "world_le w w' \<Longrightarrow> handler_ok w r role h \<Longrightarrow> handler_ok w' r role h"
proof (cases h)
  case (HRelay rh)
  assume le: "world_le w w'" and "handler_ok w r role h"
  with HRelay show ?thesis using is_strm_mono [OF le] strm_ne_mono [OF le] by fastforce
next
  case (HSub sh)
  assume le: "world_le w w'" and "handler_ok w r role h"
  moreover from le have "length (w_schans w) \<le> length (w_schans w')" by (simp add: world_le_def)
  ultimately show ?thesis using HSub by fastforce
qed simp

lemma session_ok_mono: "world_le w w' \<Longrightarrow> session_ok w r s \<Longrightarrow> session_ok w' r s"
  by (simp add: session_ok_def handler_ok_mono)

lemma stream_ok_mono: "world_le w w' \<Longrightarrow> stream_ok w rs \<Longrightarrow> stream_ok w' rs"
  using has_cs_mono is_relay_mono has_id_mono unfolding stream_ok_def by fast

lemma schans_mono: "world_le w w' \<Longrightarrow> c < length (w_schans w) \<Longrightarrow> c < length (w_schans w')"
  by (simp add: world_le_def)

lemma task_ok_mono: "world_le w w' \<Longrightarrow> task_ok w t \<Longrightarrow> task_ok w' t"
  using strm_ne_mono by (cases t) (auto intro: has_cs_mono is_relay_mono has_id_mono schans_mono)

text \<open>A step of an operation: the invariant holds after it and nothing is lost.\<close>

definition good_step :: "world \<Rightarrow> world \<Rightarrow> bool" where
  "good_step w w' \<longleftrightarrow> world_ok w' \<and> world_le w w'"

lemma good_stepD [dest]: "good_step w w' \<Longrightarrow> world_ok w'" "good_step w w' \<Longrightarrow> world_le w w'"
  by (simp_all add: good_step_def)

lemma good_step_refl: "world_ok w \<Longrightarrow> good_step w w"
  by (simp add: good_step_def)

lemma good_step_trans: "good_step w w' \<Longrightarrow> good_step w' w'' \<Longrightarrow> good_step w w''"
  by (auto simp: good_step_def intro: world_le_trans)

lemma world_okD:
  assumes "world_ok w"
  shows "w_sess w r = Some s \<Longrightarrow> session_ok w r s" and "w_strm w p = Some rs \<Longrightarrow> stream_ok w rs"
    and "sm_ok w" and "t \<in> set (w_tasks w) \<Longrightarrow> task_ok w t"
  using assms by (auto simp: world_ok_def)

lemma sm_ok_mono:
  assumes "world_le w w'" and "w_sm w' = w_sm w" and "sm_ok w"
  shows "sm_ok w'"
proof -
  have "\<forall>(sid, r) \<in> set (sm_sessions (w_sm w)). has_id w' r sid"
    using assms(3) has_id_mono [OF assms(1)] by (auto simp: sm_ok_def)
  moreover have "\<forall>(ns, r) \<in> set (sm_namespaces (w_sm w)). is_relay w' r \<and> has_cs w' r"
    using assms(3) has_cs_mono [OF assms(1)] is_relay_mono [OF assms(1)] by (auto simp: sm_ok_def)
  ultimately show ?thesis using assms(2,3) by (simp add: sm_ok_def)
qed

lemma put_sess_sel [simp]:
  "w_sess (put_sess r s w) = (w_sess w)(r := Some s)" "w_strm (put_sess r s w) = w_strm w"
  "w_sm (put_sess r s w) = w_sm w" "w_tasks (put_sess r s w) = w_tasks w"
  "w_schans (put_sess r s w) = w_schans w" "w_next_sess (put_sess r s w) = w_next_sess w" "w_next_strm (put_sess r s w) = w_next_strm w"
  by (simp_all add: put_sess_def)

lemma put_strm_sel [simp]:
  "w_strm (put_strm p rs w) = (w_strm w)(p := Some rs)" "w_sess (put_strm p rs w) = w_sess w"
  "w_sm (put_strm p rs w) = w_sm w" "w_tasks (put_strm p rs w) = w_tasks w"
  "w_schans (put_strm p rs w) = w_schans w" "w_next_sess (put_strm p rs w) = w_next_sess w" "w_next_strm (put_strm p rs w) = w_next_strm w"
  by (simp_all add: put_strm_def)

lemma spawn_sel [simp]:
  "w_strm (spawn t w) = w_strm w" "w_sess (spawn t w) = w_sess w" "w_sm (spawn t w) = w_sm w"
  "w_tasks (spawn t w) = w_tasks w @ [t]"
  "w_schans (spawn t w) = w_schans w" "w_next_sess (spawn t w) = w_next_sess w" "w_next_strm (spawn t w) = w_next_strm w"
  by (simp_all add: spawn_def)

lemma put_sess_good:
  assumes ok: "world_ok w" and old: "w_sess w r = Some s0" and le: "sess_le s0 s" and new: "session_ok w r s"
  shows "good_step w (put_sess r s w)"
proof -
  let ?w = "put_sess r s w"
  have wle: "world_le w ?w" using old le by (auto simp: world_le_def)
  have "session_ok ?w q t" if "w_sess ?w q = Some t" for q t
  proof (rule session_ok_mono [OF wle])
    show "session_ok w q t" using that new ok by (auto split: if_splits dest: world_okD)
  qed
  moreover have "stream_ok ?w rs" if "w_strm ?w p = Some rs" for p rs
    using that ok by (auto intro: stream_ok_mono [OF wle] dest: world_okD)
  moreover have "sm_ok ?w" using ok by (auto intro: sm_ok_mono [OF wle] dest: world_okD)
  moreover have "task_ok ?w t" if "t \<in> set (w_tasks ?w)" for t
    using that ok by (auto intro: task_ok_mono [OF wle] dest: world_okD)
  moreover have "r < w_next_sess w" using ok old by (metis option.distinct(1) world_ok_def not_le)
  ultimately show ?thesis using wle ok by (simp add: good_step_def world_ok_def)
qed

lemma put_strm_good:
  assumes ok: "world_ok w" and old: "w_strm w p = Some rs0" and le: "strm_le rs0 rs" and new: "stream_ok w rs"
  shows "good_step w (put_strm p rs w)"
proof -
  let ?w = "put_strm p rs w"
  have wle: "world_le w ?w" using old le by (auto simp: world_le_def)
  have "session_ok ?w q t" if "w_sess ?w q = Some t" for q t
    using that ok by (auto intro: session_ok_mono [OF wle] dest: world_okD)
  moreover have "stream_ok ?w rs'" if "w_strm ?w q = Some rs'" for q rs'
  proof (rule stream_ok_mono [OF wle])
    show "stream_ok w rs'" using that new ok by (auto split: if_splits dest: world_okD)
  qed
  moreover have "sm_ok ?w" using ok by (auto intro: sm_ok_mono [OF wle] dest: world_okD)
  moreover have "task_ok ?w t" if "t \<in> set (w_tasks ?w)" for t
    using that ok by (auto intro: task_ok_mono [OF wle] dest: world_okD)
  moreover have "p < w_next_strm w" using ok old by (metis option.distinct(1) world_ok_def not_le)
  ultimately show ?thesis using wle ok by (simp add: good_step_def world_ok_def)
qed

lemma spawn_good:
  assumes ok: "world_ok w" and new: "task_ok w t"
  shows "good_step w (spawn t w)"
proof -
  let ?w = "spawn t w"
  have wle: "world_le w ?w" by (simp add: world_le_def)
  have "session_ok ?w q s" if "w_sess ?w q = Some s" for q s
    using that ok by (auto intro: session_ok_mono [OF wle] dest: world_okD)
  moreover have "stream_ok ?w rs'" if "w_strm ?w q = Some rs'" for q rs'
    using that ok by (auto intro: stream_ok_mono [OF wle] dest: world_okD)
  moreover have "sm_ok ?w" using ok by (auto intro: sm_ok_mono [OF wle] dest: world_okD)
  moreover have "task_ok ?w t'" if "t' \<in> set (w_tasks ?w)" for t'
    using that ok new by (auto intro: task_ok_mono [OF wle] dest: world_okD)
  ultimately show ?thesis using wle ok by (simp add: good_step_def world_ok_def)
qed

lemma world_start_ok: "world_ok world_start"
  by (simp add: world_ok_def world_start_def sm_ok_def NewSessionManager_def)

section \<open>Writing a control message\<close>

lemma WriteControlMessage_good:
  assumes "world_ok w" and "WriteControlMessage qv r msg w = Some w'"
  shows "good_step w w'"
proof -
  obtain s cs where s: "w_sess w r = Some s" "s_CS s = Some cs"
    and w': "w' = w \<or> w' = put_sess r (s\<lparr>s_CS := Some (cs\<lparr>cs_sent := cs_sent cs @ [msg]\<rparr>)\<rparr>) w"
    using assms(2) by (auto simp: WriteControlMessage_def bind_eq_Some_conv split: if_splits)
  have "session_ok w r s" using assms(1) s(1) by (rule world_okD)
  then have "session_ok w r (s\<lparr>s_CS := Some (cs\<lparr>cs_sent := cs_sent cs @ [msg]\<rparr>)\<rparr>)"
    using s(2) by (simp add: session_ok_def)
  then show ?thesis using w' s assms(1)
    by (auto intro!: good_step_refl put_sess_good [OF assms(1) s(1)] simp: sess_le_def session_RelayHandler_def)
qed

context varint_codec
begin

lemma WriteControlMessage_total:
  assumes "has_cs w r" and "message_ok msg"
  shows "\<exists>w'. WriteControlMessage qv r msg w = Some w'"
  using assms message_GetBytes_total [OF assms(2)] by (auto simp: WriteControlMessage_def has_cs_def)

end

text \<open>What has been written to a session's control stream.\<close>

definition sent :: "world \<Rightarrow> ref \<Rightarrow> MOQTMessage list" where
  "sent w r = (case w_sess w r of
      None \<Rightarrow> []
    | Some s \<Rightarrow> (case s_CS s of None \<Rightarrow> [] | Some cs \<Rightarrow> cs_sent cs))"

lemma WriteControlMessage_result:
  assumes "world_ok w" and "WriteControlMessage qv r msg w = Some w'"
  shows "w_strm w' = w_strm w" and "w_sm w' = w_sm w" and "w_tasks w' = w_tasks w"
    and "w_next_strm w' = w_next_strm w"
    and "sent w' q = sent w q @ (if q = r then [msg] else [])"
    and "\<And>t. w_sess w q = Some t \<Longrightarrow> \<exists>c. w_sess w' q = Some (t\<lparr>s_CS := c\<rparr>)"
proof -
  obtain s cs where s: "w_sess w r = Some s" "s_CS s = Some cs"
    using assms(2) by (auto simp: WriteControlMessage_def bind_eq_Some_conv)
  have "cs_stream cs" using world_okD(1) [OF assms(1) s(1)] s(2) by (simp add: session_ok_def)
  then have w': "w' = put_sess r (s\<lparr>s_CS := Some (cs\<lparr>cs_sent := cs_sent cs @ [msg]\<rparr>)\<rparr>) w"
    using assms(2) s by (auto simp: WriteControlMessage_def bind_eq_Some_conv)
  show "w_strm w' = w_strm w" "w_sm w' = w_sm w" "w_tasks w' = w_tasks w" "w_next_strm w' = w_next_strm w"
    by (simp_all add: w')
  show "sent w' q = sent w q @ (if q = r then [msg] else [])"
    using s by (simp add: w' sent_def)
  have t: "t\<lparr>s_CS := s_CS t\<rparr> = t" for t :: MOQTSession by simp
  show "\<exists>c. w_sess w' q = Some (t\<lparr>s_CS := c\<rparr>)" if "w_sess w q = Some t" for t
    using that s t [of t] by (cases "q = r") (auto simp: w' intro: exI [of _ "s_CS t"])
qed

end
