(* ===== verification/Relay_Handler.thy ===== *)
theory Relay_Handler
  imports Session_State
begin

text \<open>
  The session manager (\<open>src/moqt/sessionmanager.go\<close>) and the relay's handler (\<open>src/moqt/relayhandler.go\<close>, with
  \<open>ForwardSubscribeOk\<close> of \<open>src/moqt/relaystream.go\<close>): announcing, subscribing, forwarding the answer and the streams,
  leaving. The operations work on the state of \<open>Session_State\<close>; \<open>rand.Uint32()\<close> is the argument \<open>rnd\<close>, and the result of
  \<open>OpenUniStream\<close> is an argument too. \<open>range\<close> visits a map in the order of its list, which is any order.

  A handler runs in the goroutine of its session's control stream; between two of its accesses other
  goroutines may run. \<open>HandleSubscribe\<close> is therefore also available in its two parts: the request to the publisher,
  and the registration of the subscriber.

  Shown here: no operation of a relay panics on messages that were parsed, and each keeps the invariant;
  an announcement reaches exactly the peers that want it; a subscription is registered, sent upstream under a new ID, and
  its answer comes back to the subscriber under the subscriber's own ID; the answer is lost if it comes between the two
  parts; streams are forwarded under the subscribers' IDs and the wait group is balanced; what a closed session
  leaves behind.
\<close>

section \<open>The session manager\<close>

definition addSession :: "ref \<Rightarrow> world \<Rightarrow> world option" where
  "addSession session w = do {
     s \<leftarrow> w_sess w session;
     Some (w\<lparr>w_sm := (w_sm w)\<lparr>sm_sessions := gomap_set (s_Id s) session (sm_sessions (w_sm w))\<rparr>\<rparr>) }"

definition removeSession :: "ref \<Rightarrow> world \<Rightarrow> world option" where
  "removeSession session w = do {
     s \<leftarrow> w_sess w session;
     Some (w\<lparr>w_sm := (w_sm w)\<lparr>sm_sessions := gomap_del (s_Id s) (sm_sessions (w_sm w))\<rparr>\<rparr>) }"

definition wants_announce :: "string \<Rightarrow> MOQTSession \<Rightarrow> bool" where
  "wants_announce pubid peer \<longleftrightarrow>
     (s_RemoteRole peer = ROLE_RELAY \<or> s_RemoteRole peer = ROLE_SUBSCRIBER) \<and> s_Id peer \<noteq> pubid"

definition announce_msg :: "string \<Rightarrow> MOQTMessage" where
  "announce_msg ns = MsgAnnounce (zero_Announce\<lparr>ann_TrackNameSpace := ns\<rparr>)"

fun announce_each :: "string \<Rightarrow> string \<Rightarrow> ref list \<Rightarrow> world \<Rightarrow> world option" where
  "announce_each ns pubid [] w = Some w"
| "announce_each ns pubid (peer # peers) w = do {
     s \<leftarrow> w_sess w peer;
     announce_each ns pubid peers
       (if wants_announce pubid s then spawn (TaskWrite peer (announce_msg ns)) w else w) }"

definition addPublisher :: "string \<Rightarrow> ref \<Rightarrow> world \<Rightarrow> world option" where
  "addPublisher ns pub w = do {
     p \<leftarrow> w_sess w pub;
     let w = w\<lparr>w_sm := (w_sm w)\<lparr>sm_namespaces := gomap_set ns pub (sm_namespaces (w_sm w))\<rparr>\<rparr>;
     announce_each ns (s_Id p) (map snd (sm_sessions (w_sm w))) w }"

definition removePublisher :: "string \<Rightarrow> world \<Rightarrow> world" where
  "removePublisher ns w = w\<lparr>w_sm := (w_sm w)\<lparr>sm_namespaces := gomap_del ns (sm_namespaces (w_sm w))\<rparr>\<rparr>"

definition getPublisher :: "string \<Rightarrow> world \<Rightarrow> ref option" where
  "getPublisher ns w = gomap_get (sm_namespaces (w_sm w)) ns"

section \<open>The relay handler\<close>

definition NewRelayHandler :: RelayHandler where
  "NewRelayHandler = \<lparr>rh_IncomingStreams = NewStreamsMap, rh_SubscribedStreams = NewStreamsMap\<rparr>"

definition get_relay :: "world \<Rightarrow> ref \<Rightarrow> RelayHandler option" where
  "get_relay w r = do { s \<leftarrow> w_sess w r; session_RelayHandler s }"

definition put_relay :: "ref \<Rightarrow> RelayHandler \<Rightarrow> world \<Rightarrow> world option" where
  "put_relay r rh w = do { s \<leftarrow> w_sess w r; Some (put_sess r (s\<lparr>s_Handler := HRelay rh\<rparr>) w) }"

fun leave_each :: "string \<Rightarrow> ref list \<Rightarrow> world \<Rightarrow> world option" where
  "leave_each sid [] w = Some w"
| "leave_each sid (p # ps) w = do {
     rs \<leftarrow> w_strm w p;
     leave_each sid ps (put_strm p (RelayStream_RemoveSubscriber sid rs) w) }"

definition RelayHandler_HandleClose :: "ref \<Rightarrow> world \<Rightarrow> world option" where
  "RelayHandler_HandleClose r w = do {
     s \<leftarrow> w_sess w r;
     rh \<leftarrow> session_RelayHandler s;
     leave_each (s_Id s) (map snd (streams (rh_SubscribedStreams rh))) w }"

definition RelayHandler_SendSubscribeOk :: "quicvarint \<Rightarrow> ref \<Rightarrow> string \<Rightarrow> SubscribeOk \<Rightarrow> world \<Rightarrow> world option" where
  "RelayHandler_SendSubscribeOk qv subscriber streamid okm w = do {
     rh \<leftarrow> get_relay w subscriber;
     case GetSubID (strm_StreamID w) (rh_SubscribedStreams rh) streamid of
       Inl _ \<Rightarrow> Some w
     | Inr subid \<Rightarrow> WriteControlMessage qv subscriber (MsgSubscribeOk (okm\<lparr>subok_SubscribeID := subid\<rparr>)) w }"

fun forward_ok_each :: "quicvarint \<Rightarrow> string \<Rightarrow> SubscribeOk \<Rightarrow> ref list \<Rightarrow> world \<Rightarrow> world option" where
  "forward_ok_each qv streamid msg [] w = Some w"
| "forward_ok_each qv streamid msg (sub # subs) w = do {
     w \<leftarrow> RelayHandler_SendSubscribeOk qv sub streamid msg w;
     forward_ok_each qv streamid msg subs w }"

definition RelayStream_ForwardSubscribeOk :: "quicvarint \<Rightarrow> ref \<Rightarrow> SubscribeOk \<Rightarrow> world \<Rightarrow> world option" where
  "RelayStream_ForwardSubscribeOk qv p msg w = do {
     rs \<leftarrow> w_strm w p;
     forward_ok_each qv (RelayStream_GetStreamID rs) msg (map snd (rs_Subscribers rs)) w }"

definition RelayHandler_SendSubscribe :: "quicvarint \<Rightarrow> ref \<Rightarrow> Subscribe \<Rightarrow> u32 \<Rightarrow> world \<Rightarrow> (ref \<times> world) option" where
  "RelayHandler_SendSubscribe qv publisher msg rnd w = do {
     rh \<leftarrow> get_relay w publisher;
     let streamid = Subscribe_GetStreamID msg;
     let subid = ucast rnd;
     let p = w_next_strm w;
     let w = (put_strm p (NewRelayStream subid streamid publisher) w)\<lparr>w_next_strm := Suc p\<rparr>;
     w \<leftarrow> put_relay publisher (rh\<lparr>rh_IncomingStreams := AddStream subid p (rh_IncomingStreams rh)\<rparr>) w;
     w \<leftarrow> WriteControlMessage qv publisher (MsgSubscribe (msg\<lparr>sub_SubscribeID := subid\<rparr>)) w;
     Some (p, w) }"

definition RelayHandler_GetObjectStream :: "quicvarint \<Rightarrow> ref \<Rightarrow> Subscribe \<Rightarrow> u32 \<Rightarrow> world \<Rightarrow> (bool \<times> ref \<times> world) option" where
  "RelayHandler_GetObjectStream qv publisher msg rnd w = do {
     rh \<leftarrow> get_relay w publisher;
     case StreamIDGetStream (strm_StreamID w) (rh_IncomingStreams rh) (Subscribe_GetStreamID msg) of
       Some p \<Rightarrow>
         if strings_Contains (sub_TrackName msg) ''.catalog'' \<or> strings_Contains (sub_TrackName msg) ''.mp4''
         then do { (p, w) \<leftarrow> RelayHandler_SendSubscribe qv publisher msg rnd w; Some (False, p, w) }
         else Some (True, p, w)
     | None \<Rightarrow> do { (p, w) \<leftarrow> RelayHandler_SendSubscribe qv publisher msg rnd w; Some (False, p, w) } }"

definition RelayHandler_HandleAnnounce :: "quicvarint \<Rightarrow> ref \<Rightarrow> Announce \<Rightarrow> world \<Rightarrow> world option" where
  "RelayHandler_HandleAnnounce qv publisher msg w = do {
     w \<leftarrow> addPublisher (ann_TrackNameSpace msg) publisher w;
     WriteControlMessage qv publisher (MsgAnnounceOk \<lparr>annok_TrackNameSpace = ann_TrackNameSpace msg\<rparr>) w }"

definition RelayHandler_HandleSubscribeOk :: "quicvarint \<Rightarrow> ref \<Rightarrow> SubscribeOk \<Rightarrow> world \<Rightarrow> world option" where
  "RelayHandler_HandleSubscribeOk qv publisher msg w = do {
     rh \<leftarrow> get_relay w publisher;
     case SubIDGetStream (rh_IncomingStreams rh) (subok_SubscribeID msg) of
       Some p \<Rightarrow> RelayStream_ForwardSubscribeOk qv p msg w
     | None \<Rightarrow> Some w }"

text \<open>\<open>HandleSubscribeDone\<close> and \<open>HandleAnnounceOk\<close> log the message.\<close>

definition RelayHandler_HandleSubscribeDone :: "ref \<Rightarrow> SubscribeDone \<Rightarrow> world \<Rightarrow> world option" where
  "RelayHandler_HandleSubscribeDone publisher msg w = Some w"

definition RelayHandler_HandleAnnounceOk :: "ref \<Rightarrow> AnnounceOk \<Rightarrow> world \<Rightarrow> world option" where
  "RelayHandler_HandleAnnounceOk subscriber msg w = Some w"

text \<open>\<open>rs.AddSubscriber(subscriber)\<close> and \<open>subscriber.SubscribedStreams.AddStream(subid, rs)\<close>\<close>

definition register :: "ref \<Rightarrow> u64 \<Rightarrow> ref \<Rightarrow> world \<Rightarrow> world option" where
  "register subscriber subid p w = do {
     s \<leftarrow> w_sess w subscriber;
     rs \<leftarrow> w_strm w p;
     let w = put_strm p (RelayStream_AddSubscriber (s_Id s) subscriber rs) w;
     rh \<leftarrow> get_relay w subscriber;
     put_relay subscriber (rh\<lparr>rh_SubscribedStreams := AddStream subid p (rh_SubscribedStreams rh)\<rparr>) w }"

definition subscribe_ok_msg :: "u64 \<Rightarrow> MOQTMessage" where
  "subscribe_ok_msg subid = MsgSubscribeOk (zero_SubscribeOk\<lparr>subok_SubscribeID := subid, subok_Expires := 1024,
     subok_ContentExists := 0\<rparr>)"

text \<open>The part of \<open>HandleSubscribe\<close> after \<open>GetObjectStream\<close>.\<close>

definition HandleSubscribe_register :: "ref \<Rightarrow> Subscribe \<Rightarrow> bool \<Rightarrow> ref \<Rightarrow> world \<Rightarrow> world option" where
  "HandleSubscribe_register subscriber msg isCached p w =
    (if \<not> isCached then register subscriber (sub_SubscribeID msg) p w
     else do {
       w \<leftarrow> register subscriber (sub_SubscribeID msg) p
              (spawn (TaskWrite subscriber (subscribe_ok_msg (sub_SubscribeID msg))) w);
       rs \<leftarrow> w_strm w p;
       Some (if fst (RelayStream_GetCacheStats rs) > 0
             then spawn (TaskReplay subscriber p (sub_SubscribeID msg)) w else w) })"

definition RelayHandler_HandleSubscribe :: "quicvarint \<Rightarrow> ref \<Rightarrow> Subscribe \<Rightarrow> u32 \<Rightarrow> world \<Rightarrow> world option" where
  "RelayHandler_HandleSubscribe qv subscriber msg rnd w = (case getPublisher (sub_TrackNameSpace msg) w of
      None \<Rightarrow> Some w
    | Some pub \<Rightarrow> do {
        (isCached, p, w) \<leftarrow> RelayHandler_GetObjectStream qv pub msg rnd w;
        HandleSubscribe_register subscriber msg isCached p w })"

definition RelayHandler_HandleUnsubscribe :: "ref \<Rightarrow> Unsubcribe \<Rightarrow> world \<Rightarrow> world option" where
  "RelayHandler_HandleUnsubscribe subscriber msg w = do {
     s \<leftarrow> w_sess w subscriber;
     rh \<leftarrow> session_RelayHandler s;
     case SubIDGetStream (rh_SubscribedStreams rh) (SubscriptionID msg) of
       Some p \<Rightarrow> do {
         rs \<leftarrow> w_strm w p;
         Some (put_strm p (RelayStream_RemoveSubscriber (s_Id s) rs) w) }
     | None \<Rightarrow> Some w }"

text \<open>\<open>ProcessMOQTStream\<close> up to the loop over \<open>Pipe\<close> (the loop is in \<open>Stream_Goroutines\<close>): the header
  that was written to the new stream, if one was opened, and the stream after \<open>WgDone\<close>.\<close>

definition RelayHandler_ProcessMOQTStream ::
  "quicvarint \<Rightarrow> ref \<Rightarrow> MOQTStream \<Rightarrow> goerror option \<Rightarrow> world \<Rightarrow> (bytes option \<times> MOQTStream) option" where
  "RelayHandler_ProcessMOQTStream qv sub stream opened w = do {
     rh \<leftarrow> get_relay w sub;
     case GetSubID (strm_StreamID w) (rh_SubscribedStreams rh) (MOQTStream_GetStreamID stream) of
       Inl _ \<Rightarrow> do { stream \<leftarrow> MOQTStream_WgDone stream; Some (None, stream) }
     | Inr subid \<Rightarrow> (case opened of
           Some _ \<Rightarrow> do { stream \<leftarrow> MOQTStream_WgDone stream; Some (None, stream) }
         | None \<Rightarrow> do {
             header \<leftarrow> MOQTStream_GetHeaderSubIDBytes qv stream subid;
             stream \<leftarrow> MOQTStream_WgDone stream;
             Some (Some header, stream) }) }"

section \<open>No panic, and the invariant is kept\<close>

text \<open>An operation is safe in a state if it returns there and its result is a good step.\<close>

definition safe :: "world \<Rightarrow> world option \<Rightarrow> bool" where
  "safe w x \<longleftrightarrow> (\<exists>w'. x = Some w' \<and> good_step w w')"

lemma safe_Some [intro]: "good_step w w' \<Longrightarrow> safe w (Some w')"
  by (simp add: safe_def)

lemma safe_bind:
  assumes "safe w x" and "\<And>w'. x = Some w' \<Longrightarrow> good_step w w' \<Longrightarrow> safe w' (f w')"
  shows "safe w (x \<bind> f)"
  using assms unfolding safe_def by (metis bind.bind_lunit good_step_trans)

lemma safe_trans: "good_step w w1 \<Longrightarrow> safe w1 x \<Longrightarrow> safe w x"
  unfolding safe_def by (metis good_step_trans)

lemma is_relay_get: "is_relay w r \<longleftrightarrow> (\<exists>rh. get_relay w r = Some rh)"
  by (auto simp: is_relay_iff get_relay_def bind_eq_Some_conv)

lemma get_relay_Some:
  "get_relay w r = Some rh \<longleftrightarrow> (\<exists>s. w_sess w r = Some s \<and> s_Handler s = HRelay rh)"
proof -
  have "session_RelayHandler s = Some rh \<longleftrightarrow> s_Handler s = HRelay rh" for s
    by (cases "s_Handler s") (simp_all add: session_RelayHandler_def)
  then show ?thesis by (simp add: get_relay_def bind_eq_Some_conv)
qed

lemma get_relay_ok: "world_ok w \<Longrightarrow> get_relay w r = Some rh \<Longrightarrow> handler_ok w r ROLE_RELAY (HRelay rh)"
  by (auto simp: get_relay_Some session_ok_def dest!: world_okD(1))

lemma put_relay_safe:
  assumes ok: "world_ok w" and old: "get_relay w r = Some rh0" and new: "handler_ok w r ROLE_RELAY (HRelay rh)"
  shows "safe w (put_relay r rh w)"
proof -
  obtain s where s: "w_sess w r = Some s" "s_Handler s = HRelay rh0" using old by (auto simp: get_relay_Some)
  then have so: "session_ok w r s" using ok by (simp add: world_okD)
  then have "s_LocalRole s = ROLE_RELAY" using s(2) by (simp add: session_ok_def)
  with so new have "session_ok w r (s\<lparr>s_Handler := HRelay rh\<rparr>)" 
    by (simp add: session_ok_def del: handler_ok.simps split: option.splits)
  then have "good_step w (put_sess r (s\<lparr>s_Handler := HRelay rh\<rparr>) w)"
    using ok s by (intro put_sess_good) (auto simp: sess_le_def session_RelayHandler_def)
  then show ?thesis using s by (simp add: put_relay_def safe_def)
qed

lemma new_strm_good:
  assumes ok: "world_ok w" and new: "stream_ok w rs"
  shows "good_step w ((put_strm (w_next_strm w) rs w)\<lparr>w_next_strm := Suc (w_next_strm w)\<rparr>)"
proof -
  let ?p = "w_next_strm w"
  let ?w = "(put_strm ?p rs w)\<lparr>w_next_strm := Suc ?p\<rparr>"
  have fresh: "w_strm w ?p = None" using ok by (simp add: world_ok_def)
  then have wle: "world_le w ?w" by (auto simp: world_le_def)
  have "session_ok ?w q t" if "w_sess ?w q = Some t" for q t
    using that ok by (auto intro: session_ok_mono [OF wle] dest: world_okD)
  moreover have "stream_ok ?w rs'" if "w_strm ?w q = Some rs'" for q rs'
  proof (rule stream_ok_mono [OF wle])
    show "stream_ok w rs'" using that new ok by (auto split: if_splits dest: world_okD)
  qed
  moreover have "sm_ok ?w" using ok by (auto intro: sm_ok_mono [OF wle] dest: world_okD)
  moreover have "task_ok ?w t" if "t \<in> set (w_tasks ?w)" for t
    using that ok by (auto intro: task_ok_mono [OF wle] dest: world_okD)
  ultimately show ?thesis using wle ok by (simp add: good_step_def world_ok_def)
qed

lemma sm_update_good:
  assumes ok: "world_ok w" and new: "sm_ok (w\<lparr>w_sm := m\<rparr>)"
  shows "good_step w (w\<lparr>w_sm := m\<rparr>)"
proof -
  let ?w = "w\<lparr>w_sm := m\<rparr>"
  have wle: "world_le w ?w" by (simp add: world_le_def)
  have "session_ok ?w q t" if "w_sess ?w q = Some t" for q t
    using that ok by (auto intro: session_ok_mono [OF wle] dest: world_okD)
  moreover have "stream_ok ?w rs'" if "w_strm ?w q = Some rs'" for q rs'
    using that ok by (auto intro: stream_ok_mono [OF wle] dest: world_okD)
  moreover have "task_ok ?w t" if "t \<in> set (w_tasks ?w)" for t
    using that ok by (auto intro: task_ok_mono [OF wle] dest: world_okD)
  ultimately show ?thesis using wle ok new by (simp add: good_step_def world_ok_def)
qed

lemma ref_preds_sm [simp]:
  "has_id (w\<lparr>w_sm := m\<rparr>) r sid = has_id w r sid" "has_cs (w\<lparr>w_sm := m\<rparr>) r = has_cs w r"
  "is_relay (w\<lparr>w_sm := m\<rparr>) r = is_relay w r"
  by (simp_all add: has_id_def has_cs_def is_relay_def)

lemma addSession_safe:
  assumes "world_ok w" and "w_sess w r = Some s"
  shows "safe w (addSession r w)"
proof -
  have "sm_ok w" using assms(1) by (rule world_okD)
  then have "sm_ok (w\<lparr>w_sm := (w_sm w)\<lparr>sm_sessions := gomap_set (s_Id s) r (sm_sessions (w_sm w))\<rparr>\<rparr>)"
    using assms(2) by (auto simp: sm_ok_def set_gomap_set_ok has_id_def)
  then show ?thesis using assms by (auto simp: addSession_def intro!: sm_update_good)
qed

lemma removeSession_safe:
  assumes "world_ok w" and "w_sess w r = Some s"
  shows "safe w (removeSession r w)"
proof -
  have "sm_ok w" using assms(1) by (rule world_okD)
  then have "sm_ok (w\<lparr>w_sm := (w_sm w)\<lparr>sm_sessions := gomap_del (s_Id s) (sm_sessions (w_sm w))\<rparr>\<rparr>)"
    by (auto simp: sm_ok_def set_gomap_del)
  then show ?thesis using assms by (auto simp: removeSession_def intro!: sm_update_good)
qed

lemma announce_msg_ok: "string_ok ns \<Longrightarrow> message_ok (announce_msg ns)"
  by (simp add: announce_msg_def zero_Announce_def)

lemma wants_announce_has_cs:
  assumes "world_ok w" and "w_sess w r = Some s" and "wants_announce pubid s"
  shows "has_cs w r"
  using world_okD(1) [OF assms(1,2)] assms(2,3)
  by (auto simp: session_ok_def wants_announce_def has_cs_def role_defs split: option.splits)

lemma announce_each_safe:
  assumes "world_ok w" and "string_ok ns" and "\<forall>r \<in> set peers. \<exists>sid. has_id w r sid"
  shows "safe w (announce_each ns pubid peers w)"
  using assms(1,3)
proof (induction peers arbitrary: w)
  case (Cons r peers)
  then obtain s where s: "w_sess w r = Some s" by (auto simp: has_id_def)
  let ?w = "if wants_announce pubid s then spawn (TaskWrite r (announce_msg ns)) w else w"
  have g: "good_step w ?w"
    using Cons.prems(1) s assms(2)
    by (auto intro!: good_step_refl spawn_good simp: announce_msg_ok intro: wants_announce_has_cs)
  have "safe ?w (announce_each ns pubid peers ?w)"
    using Cons.prems(2) g by (intro Cons.IH) (auto simp: has_id_def)
  then show ?case using s g by (auto intro: safe_trans)
qed (auto intro: good_step_refl)

lemma addPublisher_safe:
  assumes "world_ok w" and "is_relay w pub" and "has_cs w pub" and "string_ok ns"
  shows "safe w (addPublisher ns pub w)"
proof -
  obtain p where p: "w_sess w pub = Some p" using assms(3) by (auto simp: has_cs_def)
  let ?w = "w\<lparr>w_sm := (w_sm w)\<lparr>sm_namespaces := gomap_set ns pub (sm_namespaces (w_sm w))\<rparr>\<rparr>"
  have sm: "sm_ok w" using assms(1) by (rule world_okD)
  then have "sm_ok ?w" using assms(2,3) by (auto simp: sm_ok_def set_gomap_set_ok)
  with assms(1) have g: "good_step w ?w" by (rule sm_update_good)
  have "safe ?w (announce_each ns (s_Id p) (map snd (sm_sessions (w_sm ?w))) ?w)"
    using g assms(4) sm by (intro announce_each_safe) (fastforce simp: sm_ok_def)+
  with g p show ?thesis by (auto simp: addPublisher_def intro: safe_trans)
qed

lemma getPublisher_ok: "world_ok w \<Longrightarrow> getPublisher ns w = Some r \<Longrightarrow> is_relay w r \<and> has_cs w r"
  by (auto simp: getPublisher_def sm_ok_def dest!: world_okD(3) map_of_SomeD)

lemma RemoveSubscriber_ok: "stream_ok w rs \<Longrightarrow> stream_ok w (RelayStream_RemoveSubscriber sid rs)"
  by (auto simp: stream_ok_def RelayStream_RemoveSubscriber_def cache_ok_def set_gomap_del)

lemma remove_subscriber_good:
  "world_ok w \<Longrightarrow> w_strm w p = Some rs \<Longrightarrow> good_step w (put_strm p (RelayStream_RemoveSubscriber sid rs) w)"
  by (rule put_strm_good) (auto simp: strm_le_def RelayStream_RemoveSubscriber_def intro!: RemoveSubscriber_ok [unfolded RelayStream_RemoveSubscriber_def] dest: world_okD(2))

lemma leave_each_safe:
  assumes "world_ok w" and "\<forall>p \<in> set ps. w_strm w p \<noteq> None"
  shows "safe w (leave_each sid ps w)"
  using assms
proof (induction ps arbitrary: w)
  case (Cons p ps)
  then obtain rs where rs: "w_strm w p = Some rs" by auto
  have g: "good_step w (put_strm p (RelayStream_RemoveSubscriber sid rs) w)"
    using Cons.prems(1) rs by (rule remove_subscriber_good)
  have "safe (put_strm p (RelayStream_RemoveSubscriber sid rs) w) (leave_each sid ps (put_strm p (RelayStream_RemoveSubscriber sid rs) w))"
    using Cons.prems(2) g by (intro Cons.IH) auto
  with g rs show ?case by (auto intro: safe_trans)
qed (auto intro: good_step_refl)

lemma HandleClose_safe:
  assumes "world_ok w" and "is_relay w r"
  shows "safe w (RelayHandler_HandleClose r w)"
proof -
  obtain s rh where s: "w_sess w r = Some s" "s_Handler s = HRelay rh" using assms(2) by (auto simp: is_relay_def)
  have "handler_ok w r ROLE_RELAY (HRelay rh)" using assms(1) s by (intro get_relay_ok) (auto simp: get_relay_Some)
  then have "safe w (leave_each (s_Id s) (map snd (streams (rh_SubscribedStreams rh))) w)"
    using assms(1) by (intro leave_each_safe) auto
  with s show ?thesis by (simp add: RelayHandler_HandleClose_def session_RelayHandler_def)
qed

lemma HandleUnsubscribe_safe:
  assumes "world_ok w" and "is_relay w r"
  shows "safe w (RelayHandler_HandleUnsubscribe r msg w)"
proof -
  obtain s rh where s: "w_sess w r = Some s" "s_Handler s = HRelay rh" using assms(2) by (auto simp: is_relay_def)
  have h: "handler_ok w r ROLE_RELAY (HRelay rh)" using assms(1) s by (intro get_relay_ok) (auto simp: get_relay_Some)
  show ?thesis
  proof (cases "SubIDGetStream (rh_SubscribedStreams rh) (SubscriptionID msg)")
    case None
    with s assms(1) show ?thesis
      by (auto simp: RelayHandler_HandleUnsubscribe_def session_RelayHandler_def intro: good_step_refl)
  next
    case (Some p)
    then obtain rs where "w_strm w p = Some rs" using h by (auto simp: SubIDGetStream_def dest!: map_of_SomeD)
    with s Some assms(1) show ?thesis
      by (auto simp: RelayHandler_HandleUnsubscribe_def session_RelayHandler_def intro: remove_subscriber_good)
  qed
qed

lemma fits62_ucast32 [simp]: "fits62 (ucast (rnd :: u32) :: u64)"
proof -
  have "unat (ucast rnd :: u64) \<le> unat rnd" by (simp add: unsigned_ucast_eq take_bit_nat_less_eq_self)
  moreover have "unat rnd < 2 ^ 32" using unsigned_less [of rnd] by simp
  ultimately show ?thesis by (simp add: fits62_def)
qed

lemma NewRelayStream_stream_ok: "stream_ok w (NewRelayStream subid sid r)"
proof -
  have "rs_Subscribers (NewRelayStream subid sid r) = []" by (simp add: NewRelayStream_def)
  then show ?thesis by (simp add: stream_ok_def)
qed

lemma handler_ok_add:
  assumes "handler_ok w r role (HRelay rh)"
  shows "fits62 k \<Longrightarrow> w_strm w p \<noteq> None \<Longrightarrow>
      handler_ok w r role (HRelay (rh\<lparr>rh_SubscribedStreams := AddStream k p (rh_SubscribedStreams rh)\<rparr>))"
    and "is_strm w p r k \<Longrightarrow>
      handler_ok w r role (HRelay (rh\<lparr>rh_IncomingStreams := AddStream k p (rh_IncomingStreams rh)\<rparr>))"
  using assms by (auto simp: AddStream_def StreamsMap_ok_def set_gomap_set_ok)

lemma register_safe:
  assumes ok: "world_ok w" and r: "is_relay w r" "has_cs w r" and p: "w_strm w p \<noteq> None" and k: "fits62 k"
  shows "safe w (register r k p w)"
proof -
  obtain s rh where s: "w_sess w r = Some s" "s_Handler s = HRelay rh" using r(1) by (auto simp: is_relay_def)
  obtain rs where rs: "w_strm w p = Some rs" using p by auto
  let ?rs = "RelayStream_AddSubscriber (s_Id s) r rs"
  let ?w = "put_strm p ?rs w"
  have "stream_ok w rs" using ok rs by (rule world_okD)
  then have "stream_ok w ?rs"
    using r s(1) by (auto simp: stream_ok_def RelayStream_AddSubscriber_def cache_ok_def set_gomap_set_ok has_id_def)
  then have g: "good_step w ?w"
    using ok rs by (intro put_strm_good) (auto simp: strm_le_def RelayStream_AddSubscriber_def)
  have gr: "get_relay ?w r = Some rh" using s by (simp add: get_relay_Some)
  have h: "handler_ok ?w r ROLE_RELAY (HRelay rh)" using g gr by (blast intro: get_relay_ok)
  have "safe ?w (put_relay r (rh\<lparr>rh_SubscribedStreams := AddStream k p (rh_SubscribedStreams rh)\<rparr>) ?w)"
  proof (rule put_relay_safe)
    show "handler_ok ?w r ROLE_RELAY (HRelay (rh\<lparr>rh_SubscribedStreams := AddStream k p (rh_SubscribedStreams rh)\<rparr>))"
      using h k by (intro handler_ok_add) simp_all
  qed (use g gr in auto)
  with g gr s rs show ?thesis by (auto simp: register_def intro: safe_trans)
qed

context varint_codec
begin

lemma WriteControlMessage_safe:
  assumes "world_ok w" and "has_cs w r" and "message_ok msg"
  shows "safe w (WriteControlMessage qv r msg w)"
  using WriteControlMessage_total [OF assms(2,3)] WriteControlMessage_good [OF assms(1)] by (auto simp: safe_def)

lemma HandleAnnounce_safe:
  assumes "world_ok w" and "is_relay w r" and "has_cs w r" and "message_ok (MsgAnnounce msg)"
  shows "safe w (RelayHandler_HandleAnnounce qv r msg w)"
  unfolding RelayHandler_HandleAnnounce_def
proof (rule safe_bind)
  show "safe w (addPublisher (ann_TrackNameSpace msg) r w)"
    using assms by (intro addPublisher_safe) auto
  fix w' assume "good_step w w'"
  then show "safe w' (WriteControlMessage qv r (MsgAnnounceOk \<lparr>annok_TrackNameSpace = ann_TrackNameSpace msg\<rparr>) w')"
    using assms by (intro WriteControlMessage_safe) (auto intro: has_cs_mono)
qed

lemma SendSubscribeOk_safe:
  assumes ok: "world_ok w" and r: "is_relay w r" "has_cs w r" and m: "message_ok (MsgSubscribeOk okm)"
  shows "safe w (RelayHandler_SendSubscribeOk qv r sid okm w)"
proof -
  obtain rh where rh: "get_relay w r = Some rh" using r(1) by (auto simp: is_relay_get)
  have h: "handler_ok w r ROLE_RELAY (HRelay rh)" using ok rh by (rule get_relay_ok)
  show ?thesis
  proof (cases "GetSubID (strm_StreamID w) (rh_SubscribedStreams rh) sid")
    case (Inl e)
    with rh ok show ?thesis by (auto simp: RelayHandler_SendSubscribeOk_def intro: good_step_refl)
  next
    case (Inr k)
    have "StreamsMap_ok (rh_SubscribedStreams rh)" using h by simp
    with smap.subid_of_sound [OF this Inr] h have "fits62 k"
      by (auto simp: SubIDGetStream_def dest!: map_of_SomeD)
    then have "message_ok (MsgSubscribeOk (okm\<lparr>subok_SubscribeID := k\<rparr>))" using m by simp
    with WriteControlMessage_safe [OF ok r(2)] Inr rh show ?thesis by (simp add: RelayHandler_SendSubscribeOk_def)
  qed
qed

lemma forward_ok_each_safe:
  assumes "world_ok w" and "\<forall>h \<in> set hs. is_relay w h \<and> has_cs w h" and "message_ok (MsgSubscribeOk okm)"
  shows "safe w (forward_ok_each qv sid okm hs w)"
  using assms(1,2)
proof (induction hs arbitrary: w)
  case (Cons h hs)
  show ?case
    unfolding forward_ok_each.simps
  proof (rule safe_bind)
    show "safe w (RelayHandler_SendSubscribeOk qv h sid okm w)"
      using Cons.prems assms(3) by (intro SendSubscribeOk_safe) auto
    fix w' assume "good_step w w'"
    then show "safe w' (forward_ok_each qv sid okm hs w')"
      using Cons.prems(2) by (intro Cons.IH) (auto intro: has_cs_mono is_relay_mono)
  qed
qed (auto intro: good_step_refl)

lemma HandleSubscribeOk_safe:
  assumes ok: "world_ok w" and r: "is_relay w r" and m: "message_ok (MsgSubscribeOk msg)"
  shows "safe w (RelayHandler_HandleSubscribeOk qv r msg w)"
proof -
  obtain rh where rh: "get_relay w r = Some rh" using r by (auto simp: is_relay_get)
  have h: "handler_ok w r ROLE_RELAY (HRelay rh)" using ok rh by (rule get_relay_ok)
  show ?thesis
  proof (cases "SubIDGetStream (rh_IncomingStreams rh) (subok_SubscribeID msg)")
    case None
    with rh ok show ?thesis by (auto simp: RelayHandler_HandleSubscribeOk_def intro: good_step_refl)
  next
    case (Some p)
    then obtain rs where rs: "w_strm w p = Some rs"
      using h by (auto simp: SubIDGetStream_def is_strm_def dest!: map_of_SomeD)
    have "stream_ok w rs" using ok rs by (rule world_okD)
    then have "safe w (forward_ok_each qv (RelayStream_GetStreamID rs) msg (map snd (rs_Subscribers rs)) w)"
      using ok m by (intro forward_ok_each_safe) (auto simp: stream_ok_def)
    with rh Some rs show ?thesis
      by (simp add: RelayHandler_HandleSubscribeOk_def RelayStream_ForwardSubscribeOk_def)
  qed
qed

lemma SendSubscribe_safe:
  assumes ok: "world_ok w" and r: "is_relay w r" "has_cs w r" and m: "message_ok (MsgSubscribe msg)"
  shows "\<exists>w'. RelayHandler_SendSubscribe qv r msg rnd w = Some (w_next_strm w, w') \<and> good_step w w' \<and>
    w_strm w' (w_next_strm w) \<noteq> None"
proof -
  let ?p = "w_next_strm w" and ?k = "ucast rnd :: u64"
  let ?w1 = "(put_strm ?p (NewRelayStream ?k (Subscribe_GetStreamID msg) r) w)\<lparr>w_next_strm := Suc ?p\<rparr>"
  obtain rh where rh: "get_relay w r = Some rh" using r(1) by (auto simp: is_relay_get)
  let ?rh = "rh\<lparr>rh_IncomingStreams := AddStream ?k ?p (rh_IncomingStreams rh)\<rparr>"
  have g1: "good_step w ?w1" using ok NewRelayStream_stream_ok by (rule new_strm_good)
  have rh1: "get_relay ?w1 r = Some rh" using rh by (simp add: get_relay_def)
  have h: "handler_ok ?w1 r ROLE_RELAY (HRelay rh)" using g1 rh1 by (blast intro: get_relay_ok)
  have "is_strm ?w1 ?p r ?k" by (simp add: is_strm_def NewRelayStream_def)
  then have "handler_ok ?w1 r ROLE_RELAY (HRelay ?rh)"
    using h by (intro handler_ok_add)
  with g1 rh1 have "safe ?w1 (put_relay r ?rh ?w1)" by (intro put_relay_safe) auto
  then obtain w2 where w2: "put_relay r ?rh ?w1 = Some w2" "good_step ?w1 w2" by (auto simp: safe_def)
  have g2: "good_step w w2" using g1 w2(2) by (rule good_step_trans)
  have "message_ok (MsgSubscribe (msg\<lparr>sub_SubscribeID := ?k\<rparr>))" using m by simp
  moreover have "has_cs w2 r" using g2 r(2) by (auto intro: has_cs_mono)
  ultimately have "safe w2 (WriteControlMessage qv r (MsgSubscribe (msg\<lparr>sub_SubscribeID := ?k\<rparr>)) w2)"
    using g2 by (intro WriteControlMessage_safe) auto
  then obtain w3 where w3: "WriteControlMessage qv r (MsgSubscribe (msg\<lparr>sub_SubscribeID := ?k\<rparr>)) w2 = Some w3" "good_step w2 w3"
    by (auto simp: safe_def)
  have "w_strm ?w1 ?p \<noteq> None" by simp
  then have "w_strm w3 ?p \<noteq> None" 
    using w2(2) w3(2) strm_ne_mono [OF good_stepD(2)] by blast
  then show ?thesis
    using rh w2(1) w3 g2 by (simp add: RelayHandler_SendSubscribe_def Let_def) (blast intro: good_step_trans)
qed

lemma GetObjectStream_safe:
  assumes ok: "world_ok w" and r: "is_relay w r" "has_cs w r" and m: "message_ok (MsgSubscribe msg)"
  shows "\<exists>c p w'. RelayHandler_GetObjectStream qv r msg rnd w = Some (c, p, w') \<and> good_step w w' \<and> w_strm w' p \<noteq> None"
proof -
  obtain rh where rh: "get_relay w r = Some rh" using r(1) by (auto simp: is_relay_get)
  have h: "handler_ok w r ROLE_RELAY (HRelay rh)" using ok rh by (rule get_relay_ok)
  obtain w' where w': "RelayHandler_SendSubscribe qv r msg rnd w = Some (w_next_strm w, w')" "good_step w w'"
    "w_strm w' (w_next_strm w) \<noteq> None" using SendSubscribe_safe [OF assms] by blast
  show ?thesis
  proof (cases "StreamIDGetStream (strm_StreamID w) (rh_IncomingStreams rh) (Subscribe_GetStreamID msg)")
    case None
    with rh w' show ?thesis by (auto simp: RelayHandler_GetObjectStream_def)
  next
    case (Some p)
    have "StreamsMap_ok (rh_IncomingStreams rh)" using h by simp
    from smap.stream_of_sound [OF this Some] have "w_strm w p \<noteq> None"
      using h by (auto simp: SubIDGetStream_def is_strm_def dest!: map_of_SomeD)
    with Some rh w' ok show ?thesis by (auto simp: RelayHandler_GetObjectStream_def intro: good_step_refl)
  qed
qed

lemma HandleSubscribe_register_safe:
  assumes ok: "world_ok w" and r: "is_relay w r" "has_cs w r" and m: "message_ok (MsgSubscribe msg)"
    and p: "w_strm w p \<noteq> None"
  shows "safe w (HandleSubscribe_register r msg c p w)"
proof (cases c)
  case False
  then show ?thesis
    using register_safe [OF ok r p, of "sub_SubscribeID msg"] m by (simp add: HandleSubscribe_register_def)
next
  case True
  let ?k = "sub_SubscribeID msg"
  let ?w1 = "spawn (TaskWrite r (subscribe_ok_msg ?k)) w"
  have k: "fits62 ?k" using m by simp
  have "message_ok (subscribe_ok_msg ?k)"
    using k by (simp add: subscribe_ok_msg_def zero_SubscribeOk_def fits62_def)
  then have g1: "good_step w ?w1" using ok r by (intro spawn_good) simp_all
  have r1: "is_relay ?w1 r" "has_cs ?w1 r" "w_strm ?w1 p \<noteq> None"
    using r p by (simp_all add: is_relay_def has_cs_def)
  obtain w2 where w2: "register r ?k p ?w1 = Some w2" "good_step ?w1 w2"
    using register_safe [OF good_stepD(1) [OF g1] r1 k] by (auto simp: safe_def)
  then obtain rs where rs: "w_strm w2 p = Some rs" using r1(3) strm_ne_mono by blast
  have g2: "good_step w w2" using g1 w2(2) by (rule good_step_trans)
  have "task_ok w2 (TaskReplay r p ?k)" using g2 r(1) rs k by (auto intro: is_relay_mono)
  with g2 have "good_step w (spawn (TaskReplay r p ?k) w2)" by (blast intro: good_step_trans spawn_good)
  with True w2 rs g2 show ?thesis by (auto simp: HandleSubscribe_register_def)
qed

lemma HandleSubscribe_safe:
  assumes ok: "world_ok w" and r: "is_relay w r" "has_cs w r" and m: "message_ok (MsgSubscribe msg)"
  shows "safe w (RelayHandler_HandleSubscribe qv r msg rnd w)"
proof (cases "getPublisher (sub_TrackNameSpace msg) w")
  case None
  with ok show ?thesis by (auto simp: RelayHandler_HandleSubscribe_def intro: good_step_refl)
next
  case (Some pub)
  then obtain c p w' where w': "RelayHandler_GetObjectStream qv pub msg rnd w = Some (c, p, w')" "good_step w w'" "w_strm w' p \<noteq> None"
    using GetObjectStream_safe [OF ok _ _ m, of pub rnd] getPublisher_ok [OF ok] by blast
  then have "safe w' (HandleSubscribe_register r msg c p w')"
    using r m by (intro HandleSubscribe_register_safe) (auto intro: is_relay_mono has_cs_mono)
  with w' Some show ?thesis by (auto simp: RelayHandler_HandleSubscribe_def intro: safe_trans)
qed

end

section \<open>What the operations do\<close>

lemma get_relay_sel [simp]:
  "get_relay (put_strm p rs w) r = get_relay w r" "get_relay (spawn t w) r = get_relay w r"
  "get_relay (w\<lparr>w_next_strm := n\<rparr>) r = get_relay w r" "get_relay (w\<lparr>w_sm := m\<rparr>) r = get_relay w r"
  by (simp_all add: get_relay_def)

lemma sent_sel [simp]:
  "sent (put_strm p rs w) r = sent w r" "sent (spawn t w) r = sent w r"
  "sent (w\<lparr>w_next_strm := n\<rparr>) r = sent w r" "sent (w\<lparr>w_sm := m\<rparr>) r = sent w r"
  by (simp_all add: sent_def)

lemma WriteControlMessage_relay:
  assumes "world_ok w" and "WriteControlMessage qv r msg w = Some w'"
  shows "get_relay w' q = get_relay w q"
proof (cases "w_sess w q")
  case None
  moreover have "w_sess w' q = None"
    using assms(2) None by (auto simp: WriteControlMessage_def bind_eq_Some_conv split: if_splits)
  ultimately show ?thesis by (simp add: get_relay_def)
next
  case (Some s)
  with WriteControlMessage_result(6) [OF assms] show ?thesis
    by (fastforce simp: get_relay_def session_RelayHandler_def)
qed

lemma put_relay_result:
  assumes "put_relay r rh w = Some w'"
  shows "w_strm w' = w_strm w" and "w_sm w' = w_sm w" and "w_tasks w' = w_tasks w" and "w_next_strm w' = w_next_strm w"
    and "sent w' q = sent w q" and "get_relay w' q = (if q = r then Some rh else get_relay w q)"
  using assms by (auto simp: put_relay_def bind_eq_Some_conv sent_def get_relay_def session_RelayHandler_def)

lemma put_relay_Some: "get_relay w r = Some rh0 \<Longrightarrow> \<exists>w'. put_relay r rh w = Some w'"
  by (auto simp: put_relay_def get_relay_def bind_eq_Some_conv)

lemma register_result:
  assumes "register r k p w = Some w'"
  shows "\<exists>s rs rh. w_sess w r = Some s \<and> w_strm w p = Some rs \<and> get_relay w r = Some rh \<and>
    w_strm w' = (w_strm w)(p := Some (RelayStream_AddSubscriber (s_Id s) r rs)) \<and>
    w_sm w' = w_sm w \<and> w_tasks w' = w_tasks w \<and> (\<forall>q. sent w' q = sent w q) \<and>
    (\<forall>q. get_relay w' q = (if q = r then Some (rh\<lparr>rh_SubscribedStreams := AddStream k p (rh_SubscribedStreams rh)\<rparr>)
                                      else get_relay w q))"
proof -
  obtain s rs rh where r: "w_sess w r = Some s" "w_strm w p = Some rs" "get_relay w r = Some rh"
    and p: "put_relay r (rh\<lparr>rh_SubscribedStreams := AddStream k p (rh_SubscribedStreams rh)\<rparr>)
      (put_strm p (RelayStream_AddSubscriber (s_Id s) r rs) w) = Some w'"
    using assms by (auto simp: register_def bind_eq_Some_conv Let_def)
  from put_relay_result [OF p] r show ?thesis by auto
qed

lemma strm_StreamID_cong: "w_strm w' p = w_strm w p \<Longrightarrow> strm_StreamID w' p = strm_StreamID w p"
  by (simp add: strm_StreamID_def)

lemma announce_each_result:
  "announce_each ns pubid peers w = Some w' \<Longrightarrow>
   w_tasks w' = w_tasks w @ map (\<lambda>r. TaskWrite r (announce_msg ns))
      (filter (\<lambda>r. \<exists>s. w_sess w r = Some s \<and> wants_announce pubid s) peers) \<and>
   w_sess w' = w_sess w \<and> w_sm w' = w_sm w \<and> w_strm w' = w_strm w"
proof (induction peers arbitrary: w)
  case (Cons r peers)
  then obtain s where s: "w_sess w r = Some s" by (auto simp: bind_eq_Some_conv)
  let ?w = "if wants_announce pubid s then spawn (TaskWrite r (announce_msg ns)) w else w"
  have "announce_each ns pubid peers ?w = Some w'" using Cons.prems s by simp
  from Cons.IH [OF this] s show ?case by (cases "wants_announce pubid s") simp_all
qed simp

text \<open>A new stream towards a publisher.\<close>

lemma SendSubscribe_result:
  assumes ok: "world_ok w" and c: "RelayHandler_SendSubscribe qv r msg rnd w = Some (p, w')"
  shows "p = w_next_strm w" and "w_strm w' = (w_strm w)(p := Some (NewRelayStream (ucast rnd) (Subscribe_GetStreamID msg) r))"
    and "w_sm w' = w_sm w" and "w_tasks w' = w_tasks w"
    and "\<exists>rh. get_relay w r = Some rh \<and> get_relay w' q =
      (if q = r then Some (rh\<lparr>rh_IncomingStreams := AddStream (ucast rnd) p (rh_IncomingStreams rh)\<rparr>) else get_relay w q)"
    and "sent w' q = sent w q @ (if q = r then [MsgSubscribe (msg\<lparr>sub_SubscribeID := ucast rnd\<rparr>)] else [])"
proof -
  let ?p = "w_next_strm w" and ?k = "ucast rnd :: u64"
  let ?w1 = "(put_strm ?p (NewRelayStream ?k (Subscribe_GetStreamID msg) r) w)\<lparr>w_next_strm := Suc ?p\<rparr>"
  obtain rh w2 where rh: "get_relay w r = Some rh"
    and w2: "put_relay r (rh\<lparr>rh_IncomingStreams := AddStream ?k ?p (rh_IncomingStreams rh)\<rparr>) ?w1 = Some w2"
    and w3: "WriteControlMessage qv r (MsgSubscribe (msg\<lparr>sub_SubscribeID := ?k\<rparr>)) w2 = Some w'" and p: "p = ?p"
    using c by (auto simp: RelayHandler_SendSubscribe_def bind_eq_Some_conv Let_def)
  have g1: "good_step w ?w1" using ok NewRelayStream_stream_ok by (rule new_strm_good)
  have h: "handler_ok ?w1 r ROLE_RELAY (HRelay rh)"
    using good_stepD(1) [OF g1] rh by (intro get_relay_ok) simp_all
  have "is_strm ?w1 ?p r ?k" by (simp add: is_strm_def NewRelayStream_def)
  with h have "handler_ok ?w1 r ROLE_RELAY (HRelay (rh\<lparr>rh_IncomingStreams := AddStream ?k ?p (rh_IncomingStreams rh)\<rparr>))"
    by (rule handler_ok_add)
  then have "safe ?w1 (put_relay r (rh\<lparr>rh_IncomingStreams := AddStream ?k ?p (rh_IncomingStreams rh)\<rparr>) ?w1)"
    using good_stepD(1) [OF g1] rh by (intro put_relay_safe) simp_all
  then have ok2: "world_ok w2" using w2 by (auto simp: safe_def)
  note W = WriteControlMessage_result [OF ok2 w3] and P = put_relay_result [OF w2]
  show "p = w_next_strm w" by (rule p)
  show "w_strm w' = (w_strm w)(p := Some (NewRelayStream (ucast rnd) (Subscribe_GetStreamID msg) r))"
    "w_sm w' = w_sm w" "w_tasks w' = w_tasks w"
    by (simp_all add: W P p)
  show "sent w' q = sent w q @ (if q = r then [MsgSubscribe (msg\<lparr>sub_SubscribeID := ucast rnd\<rparr>)] else [])"
    by (simp add: W P)
  show "\<exists>rh. get_relay w r = Some rh \<and> get_relay w' q =
      (if q = r then Some (rh\<lparr>rh_IncomingStreams := AddStream (ucast rnd) p (rh_IncomingStreams rh)\<rparr>) else get_relay w q)"
    using rh by (simp add: WriteControlMessage_relay [OF ok2 w3] P p)
qed

text \<open>The first subscription to a track of a publisher, by a session that has no other subscription to it.\<close>

definition new_track :: "world \<Rightarrow> ref \<Rightarrow> Subscribe \<Rightarrow> bool" where
  "new_track w pub msg \<longleftrightarrow> (\<exists>rh. get_relay w pub = Some rh \<and>
     StreamIDGetStream (strm_StreamID w) (rh_IncomingStreams rh) (Subscribe_GetStreamID msg) = None)"

definition not_subscribed :: "world \<Rightarrow> ref \<Rightarrow> string \<Rightarrow> bool" where
  "not_subscribed w r sid \<longleftrightarrow> (\<exists>rh. get_relay w r = Some rh \<and>
     (\<forall>(k, p) \<in> set (streams (rh_SubscribedStreams rh)). strm_StreamID w p \<noteq> sid))"

context varint_codec
begin

lemma request_upstream:
  assumes ok: "world_ok w" and pub: "is_relay w pub" "has_cs w pub" and m: "message_ok (MsgSubscribe msg)"
    and new: "new_track w pub msg"
  shows "\<exists>w1. RelayHandler_SendSubscribe qv pub msg rnd w = Some (w_next_strm w, w1) \<and>
    RelayHandler_GetObjectStream qv pub msg rnd w = Some (False, w_next_strm w, w1) \<and> good_step w w1"
  using SendSubscribe_safe [OF ok pub m, of rnd] new
  by (auto simp: RelayHandler_GetObjectStream_def new_track_def)

text \<open>The answer to a stream with exactly one subscriber.\<close>

lemma answer_one_subscriber:
  assumes ok: "world_ok w" and sub: "is_relay w sub" "has_cs w sub" and okm: "message_ok (MsgSubscribeOk okm)"
    and pub: "get_relay w pub = Some prh" "SubIDGetStream (rh_IncomingStreams prh) (subok_SubscribeID okm) = Some p"
    and rs: "w_strm w p = Some rs" "rs_Subscribers rs = [(sid, sub)]"
    and rh: "get_relay w sub = Some rh" "GetSubID (strm_StreamID w) (rh_SubscribedStreams rh) (rs_StreamID rs) = Inr k"
  shows "\<exists>w'. RelayHandler_HandleSubscribeOk qv pub okm w = Some w' \<and>
    (\<forall>q. sent w' q = sent w q @ (if q = sub then [MsgSubscribeOk (okm\<lparr>subok_SubscribeID := k\<rparr>)] else []))"
proof -
  have "safe w (RelayHandler_SendSubscribeOk qv sub (rs_StreamID rs) okm w)"
    using ok sub okm by (rule SendSubscribeOk_safe)
  then obtain w' where "RelayHandler_SendSubscribeOk qv sub (rs_StreamID rs) okm w = Some w'" by (auto simp: safe_def)
  moreover from this rh have "WriteControlMessage qv sub (MsgSubscribeOk (okm\<lparr>subok_SubscribeID := k\<rparr>)) w = Some w'"
    by (simp add: RelayHandler_SendSubscribeOk_def)
  ultimately show ?thesis
    using pub rs WriteControlMessage_result(5) [OF ok]
    by (simp add: RelayHandler_HandleSubscribeOk_def RelayStream_ForwardSubscribeOk_def RelayStream_GetStreamID_def)
qed

text \<open>A subscription to a track that the subscriber did not have is the one that is found for the track.\<close>

lemma only_new_subscription:
  assumes ok: "world_ok w" and rh: "get_relay w sub = Some rh" and fresh: "w_strm w p = None" and ns: "not_subscribed w sub sid"
    and p: "strm_StreamID w2 p = sid" and same: "\<And>q. q \<noteq> p \<Longrightarrow> w_strm w2 q = w_strm w q"
  shows "GetSubID (strm_StreamID w2) (AddStream k p (rh_SubscribedStreams rh)) sid = Inr k"
proof -
  have h: "handler_ok w sub ROLE_RELAY (HRelay rh)" using ok rh by (rule get_relay_ok)
  then have sm: "StreamsMap_ok (AddStream k p (rh_SubscribedStreams rh))" by simp
  show ?thesis
  proof (rule smap.only_subid [OF sm])
    show "SubIDGetStream (AddStream k p (rh_SubscribedStreams rh)) k = Some p" by (simp add: gomap_simps)
    show "strm_StreamID w2 p = sid" by (rule p)
    fix k' q
    assume q: "SubIDGetStream (AddStream k p (rh_SubscribedStreams rh)) k' = Some q" "strm_StreamID w2 q = sid"
    show "k' = k"
    proof (rule ccontr)
      assume "k' \<noteq> k"
      with q(1) have "SubIDGetStream (rh_SubscribedStreams rh) k' = Some q" by (simp add: gomap_simps)
      then have "(k', q) \<in> set (streams (rh_SubscribedStreams rh))" unfolding SubIDGetStream_def by (rule map_of_SomeD)
      moreover from this h have "w_strm w q \<noteq> None" by auto
      then have "strm_StreamID w2 q = strm_StreamID w q" using fresh by (intro strm_StreamID_cong same) auto
      ultimately show False using ns rh q(2) by (auto simp: not_subscribed_def)
    qed
  qed
qed

lemma register_new_track:
  assumes ok: "world_ok w" and req: "RelayHandler_SendSubscribe qv pub msg rnd w = Some (p, w1)"
    and sub: "is_relay w sub" "has_cs w sub" and m: "message_ok (MsgSubscribe msg)"
    and g: "good_step w w1" and ns: "not_subscribed w sub (Subscribe_GetStreamID msg)"
  shows "\<exists>w2 prh rh rs sid. register sub (sub_SubscribeID msg) p w1 = Some w2 \<and> good_step w w2 \<and>
    (\<forall>q. sent w2 q = sent w1 q) \<and>
    get_relay w2 pub = Some prh \<and> SubIDGetStream (rh_IncomingStreams prh) (ucast rnd) = Some p \<and>
    w_strm w2 p = Some rs \<and> rs_Subscribers rs = [(sid, sub)] \<and> rs_StreamID rs = Subscribe_GetStreamID msg \<and>
    get_relay w2 sub = Some rh \<and>
    GetSubID (strm_StreamID w2) (rh_SubscribedStreams rh) (Subscribe_GetStreamID msg) = Inr (sub_SubscribeID msg)"
proof -
  let ?k = "sub_SubscribeID msg" and ?sid = "Subscribe_GetStreamID msg"
  let ?new = "NewRelayStream (ucast rnd) ?sid pub"
  note R = SendSubscribe_result [OF ok req]
  have fresh: "w_strm w p = None" using ok R(1) by (simp add: world_ok_def)
  have sub1: "is_relay w1 sub" "has_cs w1 sub" using g sub by (auto intro: is_relay_mono has_cs_mono)
  have "safe w1 (register sub ?k p w1)"
    using g sub1 m R(2) by (intro register_safe) auto
  then obtain w2 where w2: "register sub ?k p w1 = Some w2" "good_step w1 w2" by (auto simp: safe_def)
  obtain s :: MOQTSession and rs1 rh1 where rs1: "w_strm w1 p = Some rs1"
    and rg0: "w_strm w2 = (w_strm w1)(p := Some (RelayStream_AddSubscriber (s_Id s) sub rs1))" "get_relay w1 sub = Some rh1"
      "\<forall>q. sent w2 q = sent w1 q"
      "\<forall>q. get_relay w2 q = (if q = sub then Some (rh1\<lparr>rh_SubscribedStreams := AddStream ?k p (rh_SubscribedStreams rh1)\<rparr>)
                                        else get_relay w1 q)"
    using register_result [OF w2(1)] by blast
  have "rs1 = ?new" using rs1 by (simp add: R(2))
  note rg = rg0 [unfolded this]
  obtain prh where prh: "get_relay w1 pub = Some prh" "SubIDGetStream (rh_IncomingStreams prh) (ucast rnd) = Some p"
    using R(5) [of pub] by (auto simp: gomap_simps)
  obtain rh0 where rh0: "get_relay w sub = Some rh0" "rh_SubscribedStreams rh1 = rh_SubscribedStreams rh0"
    using R(5) [of sub] rg(2) sub(1) by (auto simp: is_relay_get split: if_splits)
  let ?rh = "rh1\<lparr>rh_SubscribedStreams := AddStream ?k p (rh_SubscribedStreams rh1)\<rparr>"
  have "strm_StreamID w2 p = ?sid"
    by (simp add: strm_StreamID_def rg(1) RelayStream_GetStreamID_def RelayStream_AddSubscriber_def NewRelayStream_def)
  moreover have "w_strm w2 q = w_strm w q" if "q \<noteq> p" for q using that by (simp add: rg(1) R(2))
  ultimately have gs: "GetSubID (strm_StreamID w2) (rh_SubscribedStreams ?rh) ?sid = Inr ?k"
    using only_new_subscription [OF ok rh0(1) fresh ns] by (simp add: rh0(2))
  have "get_relay w2 pub = Some (if pub = sub then ?rh else prh)"
    using rg(2,4) prh(1) by auto
  moreover have "SubIDGetStream (rh_IncomingStreams (if pub = sub then ?rh else prh)) (ucast rnd) = Some p"
    using prh rg(2) by auto
  moreover have "rs_Subscribers (RelayStream_AddSubscriber (s_Id s) sub ?new) = [(s_Id s, sub)]"
    "rs_StreamID (RelayStream_AddSubscriber (s_Id s) sub ?new) = ?sid"
    by (simp_all add: RelayStream_AddSubscriber_def NewRelayStream_def gomap_set_def)
  ultimately show ?thesis
    using w2 g rg gs by (intro exI [of _ w2]) (auto intro: good_step_trans)
qed

end

section \<open>Forwarding a stream\<close>

fun MOQTStream_wg :: "MOQTStream \<Rightarrow> nat" where
  "MOQTStream_wg (SGroup gs) = gs_wg gs"
| "MOQTStream_wg (STrack ts) = ts_wg ts"

fun MOQTStream_header_ok :: "MOQTStream \<Rightarrow> bool" where
  "MOQTStream_header_ok (SGroup gs) \<longleftrightarrow> fits62 (gs_TrackAlias gs) \<and> fits62 (gs_GroupID gs) \<and> fits62 (gs_SendOrder gs)"
| "MOQTStream_header_ok (STrack ts) \<longleftrightarrow> fits62 (ts_TrackAlias ts) \<and> fits62 (ts_SendOrder ts)"

text \<open>The goroutines that \<open>ForwardStream\<close> started, run up to their \<open>WgDone\<close> in some order, each with the result of
  its \<open>OpenUniStream\<close>: the headers they wrote.\<close>

fun run_forwards :: "quicvarint \<Rightarrow> (ref \<times> goerror option) list \<Rightarrow> MOQTStream \<Rightarrow> world \<Rightarrow> ((ref \<times> bytes option) list \<times> MOQTStream) option" where
  "run_forwards qv [] stream w = Some ([], stream)"
| "run_forwards qv ((sub, opened) # subs) stream w = do {
     (h, stream) \<leftarrow> RelayHandler_ProcessMOQTStream qv sub stream opened w;
     (hs, stream) \<leftarrow> run_forwards qv subs stream w;
     Some ((sub, h) # hs, stream) }"

lemma MOQTStream_WgAdd_simps [simp]:
  "MOQTStream_wg (MOQTStream_WgAdd st) = Suc (MOQTStream_wg st)"
  "MOQTStream_header_ok (MOQTStream_WgAdd st) = MOQTStream_header_ok st"
  "MOQTStream_GetStreamID (MOQTStream_WgAdd st) = MOQTStream_GetStreamID st"
  "MOQTStream_GetHeaderSubIDBytes qv (MOQTStream_WgAdd st) k = MOQTStream_GetHeaderSubIDBytes qv st k"
  by (cases st; simp add: GroupStream_WgAdd_def TrackStream_WgAdd_def GroupStream_GetHeaderSubIDBytes_def
      TrackStream_GetHeaderSubIDBytes_def)+

lemma MOQTStream_WgDone_pos:
  assumes "0 < MOQTStream_wg st"
  shows "\<exists>st'. MOQTStream_WgDone st = Some st' \<and> MOQTStream_wg st' = MOQTStream_wg st - 1 \<and>
    MOQTStream_header_ok st' = MOQTStream_header_ok st \<and> MOQTStream_GetStreamID st' = MOQTStream_GetStreamID st \<and>
    (\<forall>qv k. MOQTStream_GetHeaderSubIDBytes qv st' k = MOQTStream_GetHeaderSubIDBytes qv st k)"
  using assms by (cases st) (simp_all add: GroupStream_WgDone_def TrackStream_WgDone_def
      GroupStream_GetHeaderSubIDBytes_def TrackStream_GetHeaderSubIDBytes_def)

lemma ForwardStream_result:
  "forward_each subs st = (st', started) \<Longrightarrow>
   started = map snd subs \<and> MOQTStream_wg st' = MOQTStream_wg st + length subs \<and>
   MOQTStream_header_ok st' = MOQTStream_header_ok st \<and> MOQTStream_GetStreamID st' = MOQTStream_GetStreamID st \<and>
   (\<forall>qv k. MOQTStream_GetHeaderSubIDBytes qv st' k = MOQTStream_GetHeaderSubIDBytes qv st k)"
  by (induction subs st arbitrary: st' started rule: forward_each.induct) (auto split: prod.splits)

text \<open>A header that was written is the stream's header with a subscription of the subscriber to this track.\<close>

definition own_header :: "quicvarint \<Rightarrow> world \<Rightarrow> MOQTStream \<Rightarrow> ref \<Rightarrow> bytes \<Rightarrow> bool" where
  "own_header qv w st sub h \<longleftrightarrow> (\<exists>rh k p. get_relay w sub = Some rh \<and>
     SubIDGetStream (rh_SubscribedStreams rh) k = Some p \<and> strm_StreamID w p = MOQTStream_GetStreamID st \<and>
     MOQTStream_GetHeaderSubIDBytes qv st k = Some h)"

context varint_codec
begin

lemma header_total: "MOQTStream_header_ok st \<Longrightarrow> fits62 k \<Longrightarrow> \<exists>h. MOQTStream_GetHeaderSubIDBytes qv st k = Some h"
  by (cases st) (auto simp: GroupStream_GetHeaderSubIDBytes_def TrackStream_GetHeaderSubIDBytes_def Append_fits)

lemma ProcessMOQTStream_done:
  assumes ok: "world_ok w" and sub: "is_relay w sub" and st: "MOQTStream_header_ok st" "0 < MOQTStream_wg st"
  shows "\<exists>h st'. RelayHandler_ProcessMOQTStream qv sub st opened w = Some (h, st') \<and>
    MOQTStream_WgDone st = Some st' \<and> (\<forall>b. h = Some b \<longrightarrow> opened = None \<and> own_header qv w st sub b)"
proof -
  obtain rh where rh: "get_relay w sub = Some rh" using sub by (auto simp: is_relay_get)
  have h: "handler_ok w sub ROLE_RELAY (HRelay rh)" using ok rh by (rule get_relay_ok)
  obtain st' where st': "MOQTStream_WgDone st = Some st'" using MOQTStream_WgDone_pos [OF st(2)] by blast
  show ?thesis
  proof (cases "GetSubID (strm_StreamID w) (rh_SubscribedStreams rh) (MOQTStream_GetStreamID st)")
    case (Inl e)
    with rh st' show ?thesis by (simp add: RelayHandler_ProcessMOQTStream_def)
  next
    case (Inr k)
    have sm: "StreamsMap_ok (rh_SubscribedStreams rh)" using h by simp
    obtain p where p: "SubIDGetStream (rh_SubscribedStreams rh) k = Some p" "strm_StreamID w p = MOQTStream_GetStreamID st"
      using smap.subid_of_sound [OF sm Inr] by blast
    then have "fits62 k" using h by (auto simp: SubIDGetStream_def dest!: map_of_SomeD)
    then obtain b where "MOQTStream_GetHeaderSubIDBytes qv st k = Some b" using header_total st(1) by blast
    with rh st' p Inr show ?thesis
      by (cases opened) (auto simp: RelayHandler_ProcessMOQTStream_def own_header_def)
  qed
qed

lemma run_forwards_done:
  assumes "world_ok w" and "\<forall>(sub, opened) \<in> set subs. is_relay w sub" and "MOQTStream_header_ok st"
    and "length subs \<le> MOQTStream_wg st"
  shows "\<exists>hs st'. run_forwards qv subs st w = Some (hs, st') \<and> map fst hs = map fst subs \<and>
    MOQTStream_wg st' = MOQTStream_wg st - length subs \<and>
    (\<forall>(sub, h) \<in> set hs. \<forall>b. h = Some b \<longrightarrow> own_header qv w st sub b)"
  using assms(2-4)
proof (induction subs arbitrary: st)
  case (Cons so subs)
  obtain sub opened where so: "so = (sub, opened)" by (cases so)
  have pos: "0 < MOQTStream_wg st" "is_relay w sub" using Cons.prems so by auto
  obtain h st1 where h: "RelayHandler_ProcessMOQTStream qv sub st opened w = Some (h, st1)" "MOQTStream_WgDone st = Some st1"
    "\<forall>b. h = Some b \<longrightarrow> opened = None \<and> own_header qv w st sub b"
    using ProcessMOQTStream_done [OF assms(1) pos(2) Cons.prems(2) pos(1)] by blast
  have st1: "MOQTStream_wg st1 = MOQTStream_wg st - 1" "MOQTStream_header_ok st1"
      "MOQTStream_GetStreamID st1 = MOQTStream_GetStreamID st"
      "\<forall>k. MOQTStream_GetHeaderSubIDBytes qv st1 k = MOQTStream_GetHeaderSubIDBytes qv st k"
    using MOQTStream_WgDone_pos [OF pos(1)] h(2) Cons.prems(2) by auto
  have own: "own_header qv w st1 = own_header qv w st" by (intro ext) (simp add: own_header_def st1)
  obtain hs st2 where "run_forwards qv subs st1 w = Some (hs, st2)" "map fst hs = map fst subs"
    "MOQTStream_wg st2 = MOQTStream_wg st1 - length subs"
    "\<forall>(sub, h) \<in> set hs. \<forall>b. h = Some b \<longrightarrow> own_header qv w st1 sub b"
  proof -
    have "\<forall>(sub, opened) \<in> set subs. is_relay w sub" "length subs \<le> MOQTStream_wg st1"
      using Cons.prems(1,3) st1(1) by auto
    with that Cons.IH [OF _ st1(2)] show ?thesis by blast
  qed
  with h so st1(1) own show ?case by auto
qed simp

end

section \<open>Properties\<close>

text \<open>A relay with a publisher (session 0, namespace \<open>live\<close>) and a subscriber (session 1), for the witnesses.\<close>

definition sample_session :: "string \<Rightarrow> u64 \<Rightarrow> MOQTSession" where
  "sample_session sid role = \<lparr>s_CS = Some (NewControlStream\<lparr>cs_ishandshakedone := True\<rparr>), s_cancelled = False, s_Id = sid,
     s_RemoteRole = role, s_LocalRole = ROLE_RELAY, s_Handler = HRelay NewRelayHandler, s_Mode = SERVER_MODE,
     s_HandshakeDone = 1, s_HandshakeTaken = 0, s_closes = []\<rparr>"

definition sample_world :: world where
  "sample_world = \<lparr>w_sess = [0 \<mapsto> sample_session ''a'' ROLE_PUBLISHER, 1 \<mapsto> sample_session ''b'' ROLE_SUBSCRIBER],
     w_strm = (\<lambda>_. None), w_next_sess = 2, w_next_strm = 0,
     w_sm = \<lparr>sm_sessions = [(''a'', 0), (''b'', 1)], sm_namespaces = [(''live'', 0)]\<rparr>, w_schans = [], w_tasks = []\<rparr>"

lemma sample_world_refs:
  "is_relay sample_world 0" "has_cs sample_world 0" "is_relay sample_world 1" "has_cs sample_world 1"
  "get_relay sample_world 0 = Some NewRelayHandler" "get_relay sample_world 1 = Some NewRelayHandler"
  by (simp_all add: is_relay_def has_cs_def get_relay_def session_RelayHandler_def sample_world_def sample_session_def)

lemma sample_world_ok: "world_ok sample_world"
proof -
  have "handler_ok sample_world r ROLE_RELAY (HRelay NewRelayHandler)" for r
    by (simp add: NewRelayHandler_def) (simp add: NewStreamsMap_def)
  then have "session_ok sample_world r s" if "w_sess sample_world r = Some s" for r s
    using that by (auto simp: session_ok_def sample_world_def sample_session_def NewControlStream_def simp del: handler_ok.simps split: if_splits)
  moreover have "sm_ok sample_world"
    using sample_world_refs by (auto simp: sm_ok_def gomap_ok_def sample_world_def sample_session_def has_id_def)
  ultimately show ?thesis by (auto simp: world_ok_def sample_world_def)
qed

definition sample_sub :: Subscribe where
  "sample_sub = zero_Subscribe\<lparr>sub_SubscribeID := 7, sub_TrackNameSpace := ''live'', sub_TrackName := ''video'',
     sub_FilterType := LatestGroup\<rparr>"

lemma sample_sub_ok: "message_ok (MsgSubscribe sample_sub)"
  by (simp add: sample_sub_def zero_Subscribe_def string_ok_def LatestGroup_def fits62_def maxAlloc_def)

text \<open>What \<open>HandleAnnounce\<close> does, from the registration, the announcements and the answer.\<close>

lemma announce_handled:
  assumes "varint_codec qv" and "world_ok w" and "is_relay w pub" and "w_sess w pub = Some s" and "has_cs w pub"
    and "message_ok (MsgAnnounce msg)"
  shows "\<exists>w'. RelayHandler_HandleAnnounce qv pub msg w = Some w' \<and> good_step w w' \<and>
    getPublisher (ann_TrackNameSpace msg) w' = Some pub \<and>
    sent w' pub = sent w pub @ [MsgAnnounceOk \<lparr>annok_TrackNameSpace = ann_TrackNameSpace msg\<rparr>] \<and>
    w_tasks w' = w_tasks w @ map (\<lambda>r. TaskWrite r (announce_msg (ann_TrackNameSpace msg)))
      (filter (\<lambda>r. \<exists>t. w_sess w r = Some t \<and> s_RemoteRole t \<in> {ROLE_RELAY, ROLE_SUBSCRIBER} \<and> s_Id t \<noteq> s_Id s)
        (map snd (sm_sessions (w_sm w))))"
proof -
  let ?ns = "ann_TrackNameSpace msg"
  let ?w1 = "w\<lparr>w_sm := (w_sm w)\<lparr>sm_namespaces := gomap_set ?ns pub (sm_namespaces (w_sm w))\<rparr>\<rparr>"
  have "safe w (RelayHandler_HandleAnnounce qv pub msg w)"
    using assms by (intro varint_codec.HandleAnnounce_safe)
  then obtain w' where w': "RelayHandler_HandleAnnounce qv pub msg w = Some w'" "good_step w w'" by (auto simp: safe_def)
  have "safe w (addPublisher ?ns pub w)" using assms by (intro addPublisher_safe) auto
  then obtain w2 where w2: "addPublisher ?ns pub w = Some w2" "good_step w w2" by (auto simp: safe_def)
  then have a: "announce_each ?ns (s_Id s) (map snd (sm_sessions (w_sm w))) ?w1 = Some w2"
    using assms(4) by (simp add: addPublisher_def)
  have wr: "WriteControlMessage qv pub (MsgAnnounceOk \<lparr>annok_TrackNameSpace = ?ns\<rparr>) w2 = Some w'"
    using w'(1) w2(1) by (simp add: RelayHandler_HandleAnnounce_def)
  have A: "w_tasks w2 = w_tasks w @ map (\<lambda>r. TaskWrite r (announce_msg ?ns))
      (filter (\<lambda>r. \<exists>t. w_sess w r = Some t \<and> s_RemoteRole t \<in> {ROLE_RELAY, ROLE_SUBSCRIBER} \<and> s_Id t \<noteq> s_Id s)
        (map snd (sm_sessions (w_sm w))))"
    "w_sess w2 = w_sess w" "w_sm w2 = w_sm ?w1"
    using announce_each_result [OF a] by (simp_all add: wants_announce_def)
  note W = WriteControlMessage_result [OF good_stepD(1) [OF w2(2)] wr]
  have "sent w2 pub = sent w pub" by (simp add: sent_def A)
  with w' W A show ?thesis by (auto simp: getPublisher_def gomap_simps)
qed

text \<open>Property C21 (an announcement is answered and passed on). When a relay handles an ANNOUNCE, the session becomes
  the publisher of the namespace, an ANNOUNCE_OK for the namespace is written to it, and an ANNOUNCE is sent to exactly the
  sessions whose remote side is a relay or a subscriber, other than the publisher's own.\<close>

theorem announce_reaches_interested_peers:
  assumes "varint_codec qv" and "world_ok w" and "is_relay w pub" and "w_sess w pub = Some s" and "has_cs w pub"
    and "message_ok (MsgAnnounce msg)"
  shows "\<exists>w'. RelayHandler_HandleAnnounce qv pub msg w = Some w' \<and> world_ok w' \<and>
    getPublisher (ann_TrackNameSpace msg) w' = Some pub \<and>
    sent w' pub = sent w pub @ [MsgAnnounceOk \<lparr>annok_TrackNameSpace = ann_TrackNameSpace msg\<rparr>] \<and>
    w_tasks w' = w_tasks w @ map (\<lambda>r. TaskWrite r (announce_msg (ann_TrackNameSpace msg)))
      (filter (\<lambda>r. \<exists>t. w_sess w r = Some t \<and> s_RemoteRole t \<in> {ROLE_RELAY, ROLE_SUBSCRIBER} \<and> s_Id t \<noteq> s_Id s)
        (map snd (sm_sessions (w_sm w))))"
  using announce_handled [OF assms] by blast

theorem announce_reaches_interested_peers_witness:
  "\<exists>w'. RelayHandler_HandleAnnounce rfc9000 0 (zero_Announce\<lparr>ann_TrackNameSpace := ''live''\<rparr>) sample_world = Some w' \<and>
    getPublisher ''live'' w' = Some 0 \<and> w_tasks w' = [TaskWrite 1 (announce_msg ''live'')]"
proof -
  have s: "w_sess sample_world 0 = Some (sample_session ''a'' ROLE_PUBLISHER)" by (simp add: sample_world_def)
  have m: "message_ok (MsgAnnounce (zero_Announce\<lparr>ann_TrackNameSpace := ''live''\<rparr>))"
    by (simp add: zero_Announce_def string_ok_def maxAlloc_def)
  have f: "filter (\<lambda>r. \<exists>t. w_sess sample_world r = Some t \<and> s_RemoteRole t \<in> {ROLE_RELAY, ROLE_SUBSCRIBER}
        \<and> s_Id t \<noteq> s_Id (sample_session ''a'' ROLE_PUBLISHER)) (map snd (sm_sessions (w_sm sample_world))) = [1]" "w_tasks sample_world = []"
    by (simp_all add: sample_world_def sample_session_def role_defs)
  from announce_reaches_interested_peers [OF rfc9000_codec sample_world_ok sample_world_refs(1) s sample_world_refs(2) m]
  show ?thesis unfolding f by (auto simp: zero_Announce_def)
qed

text \<open>A first subscription and its answer, with the steps of the request, the registration and the answer put together.\<close>

lemma subscription_answered:
  assumes "varint_codec qv" and "world_ok w" and "is_relay w sub" and "has_cs w sub" and "message_ok (MsgSubscribe msg)"
    and "getPublisher (sub_TrackNameSpace msg) w = Some pub" and "new_track w pub msg"
    and "not_subscribed w sub (Subscribe_GetStreamID msg)"
    and "message_ok (MsgSubscribeOk okm)" and "subok_SubscribeID okm = ucast rnd"
  shows "\<exists>w1 w2. RelayHandler_HandleSubscribe qv sub msg rnd w = Some w1 \<and>
    sent w1 pub = sent w pub @ [MsgSubscribe (msg\<lparr>sub_SubscribeID := ucast rnd\<rparr>)] \<and>
    RelayHandler_HandleSubscribeOk qv pub okm w1 = Some w2 \<and>
    (\<forall>q. sent w2 q = sent w1 q @ (if q = sub then [MsgSubscribeOk (okm\<lparr>subok_SubscribeID := sub_SubscribeID msg\<rparr>)] else []))"
proof -
  have pub: "is_relay w pub" "has_cs w pub" using getPublisher_ok [OF assms(2,6)] by auto
  from varint_codec.request_upstream [OF assms(1,2) pub assms(5,7), of rnd] obtain w0 where
    w0: "RelayHandler_SendSubscribe qv pub msg rnd w = Some (w_next_strm w, w0)"
      "RelayHandler_GetObjectStream qv pub msg rnd w = Some (False, w_next_strm w, w0)" "good_step w w0" by blast
  obtain w1 prh rh rs sid where w1: "register sub (sub_SubscribeID msg) (w_next_strm w) w0 = Some w1" "good_step w w1"
      "\<forall>q. sent w1 q = sent w0 q"
    and r: "get_relay w1 pub = Some prh" "SubIDGetStream (rh_IncomingStreams prh) (ucast rnd) = Some (w_next_strm w)"
      "w_strm w1 (w_next_strm w) = Some rs" "rs_Subscribers rs = [(sid, sub)]" "rs_StreamID rs = Subscribe_GetStreamID msg"
      "get_relay w1 sub = Some rh"
      "GetSubID (strm_StreamID w1) (rh_SubscribedStreams rh) (Subscribe_GetStreamID msg) = Inr (sub_SubscribeID msg)"
    using varint_codec.register_new_track [OF assms(1,2) w0(1) assms(3,4,5) w0(3) assms(8)] by blast
  have sub1: "is_relay w1 sub" "has_cs w1 sub" using w1(2) assms(3,4) by (auto intro: is_relay_mono has_cs_mono)
  obtain w2 where w2: "RelayHandler_HandleSubscribeOk qv pub okm w1 = Some w2"
    "\<forall>q. sent w2 q = sent w1 q @ (if q = sub then [MsgSubscribeOk (okm\<lparr>subok_SubscribeID := sub_SubscribeID msg\<rparr>)] else [])"
    using varint_codec.answer_one_subscriber [OF assms(1) good_stepD(1) [OF w1(2)] sub1 assms(9) r(1) _ r(3,4,6)] r(2,5,7) assms(10)
    by fastforce
  have "RelayHandler_HandleSubscribe qv sub msg rnd w = Some w1"
    using w0(2) w1(1) assms(6) by (simp add: RelayHandler_HandleSubscribe_def HandleSubscribe_register_def)
  moreover have "sent w1 pub = sent w pub @ [MsgSubscribe (msg\<lparr>sub_SubscribeID := ucast rnd\<rparr>)]"
    using w1(3) SendSubscribe_result(6) [OF assms(2) w0(1)] by simp
  ultimately show ?thesis using w2 by blast
qed

text \<open>Property C9 (a subscription and its answer). A subscriber asks for a track that nobody has asked for yet. The
  relay sends the request to the publisher of the namespace under the new random ID, and when the publisher
  answers that ID with SUBSCRIBE_OK, exactly one SUBSCRIBE_OK is written to the subscriber, with the subscriber's
  own ID, and nothing to any other session.\<close>

theorem subscribe_answer_reaches_subscriber:
  assumes "varint_codec qv" and "world_ok w" and "is_relay w sub" and "has_cs w sub" and "message_ok (MsgSubscribe msg)"
    and "getPublisher (sub_TrackNameSpace msg) w = Some pub" and "new_track w pub msg"
    and "not_subscribed w sub (Subscribe_GetStreamID msg)"
    and "message_ok (MsgSubscribeOk okm)" and "subok_SubscribeID okm = ucast rnd"
  shows "\<exists>w1 w2. RelayHandler_HandleSubscribe qv sub msg rnd w = Some w1 \<and>
    sent w1 pub = sent w pub @ [MsgSubscribe (msg\<lparr>sub_SubscribeID := ucast rnd\<rparr>)] \<and>
    RelayHandler_HandleSubscribeOk qv pub okm w1 = Some w2 \<and>
    (\<forall>q. sent w2 q = sent w1 q @ (if q = sub then [MsgSubscribeOk (okm\<lparr>subok_SubscribeID := sub_SubscribeID msg\<rparr>)] else []))"
  by (rule subscription_answered [OF assms])

definition sample_answer :: SubscribeOk where
  "sample_answer = zero_SubscribeOk\<lparr>subok_SubscribeID := ucast (99 :: u32)\<rparr>"

lemma sample_subscription:
  "getPublisher (sub_TrackNameSpace sample_sub) sample_world = Some 0" "new_track sample_world 0 sample_sub"
  "not_subscribed sample_world 1 (Subscribe_GetStreamID sample_sub)" "message_ok (MsgSubscribeOk sample_answer)"
  "subok_SubscribeID sample_answer = ucast (99 :: u32)"
proof -
  show "getPublisher (sub_TrackNameSpace sample_sub) sample_world = Some 0"
    by (simp add: getPublisher_def sample_world_def sample_sub_def)
  show "new_track sample_world 0 sample_sub"
    by (simp add: new_track_def sample_world_refs NewRelayHandler_def StreamIDGetStream_def NewStreamsMap_def)
  show "not_subscribed sample_world 1 (Subscribe_GetStreamID sample_sub)"
    using sample_world_refs(6) by (simp add: not_subscribed_def NewRelayHandler_def NewStreamsMap_def)
  show "message_ok (MsgSubscribeOk sample_answer)" "subok_SubscribeID sample_answer = ucast (99 :: u32)"
    by (simp_all add: sample_answer_def zero_SubscribeOk_def fits62_def)
qed

theorem subscribe_answer_reaches_subscriber_witness:
  "\<exists>w1 w2. RelayHandler_HandleSubscribe rfc9000 1 sample_sub 99 sample_world = Some w1 \<and>
    sent w1 0 = sent sample_world 0 @ [MsgSubscribe (sample_sub\<lparr>sub_SubscribeID := ucast (99 :: u32)\<rparr>)] \<and>
    RelayHandler_HandleSubscribeOk rfc9000 0 sample_answer w1 = Some w2 \<and>
    (\<forall>q. sent w2 q = sent w1 q @ (if q = 1 then [MsgSubscribeOk (sample_answer\<lparr>subok_SubscribeID := sub_SubscribeID sample_sub\<rparr>)] else []))"
  by (rule subscribe_answer_reaches_subscriber [OF rfc9000_codec sample_world_ok sample_world_refs(3,4) sample_sub_ok
        sample_subscription])

text \<open>The answer can be lost. \<open>HandleSubscribe\<close> sends the request before it registers the subscriber. If
  the publisher's SUBSCRIBE_OK is handled in between, it changes nothing and nobody is told; the subscriber is
  registered afterwards, and no SUBSCRIBE_OK has been written to it.\<close>

lemma subscribe_ok_can_be_lost:
  assumes "varint_codec qv" and "world_ok w" and "is_relay w sub" and "has_cs w sub" and "message_ok (MsgSubscribe msg)"
    and "getPublisher (sub_TrackNameSpace msg) w = Some pub" and "new_track w pub msg" and "pub \<noteq> sub"
    and "subok_SubscribeID okm = ucast rnd"
  shows "\<exists>p w1 w2. RelayHandler_GetObjectStream qv pub msg rnd w = Some (False, p, w1) \<and>
    RelayHandler_HandleSubscribeOk qv pub okm w1 = Some w1 \<and>
    HandleSubscribe_register sub msg False p w1 = Some w2 \<and> sent w2 sub = sent w sub"
proof -
  have pub: "is_relay w pub" "has_cs w pub" using getPublisher_ok [OF assms(2,6)] by auto
  from varint_codec.request_upstream [OF assms(1,2) pub assms(5,7), of rnd] obtain w1 where
    w1: "RelayHandler_SendSubscribe qv pub msg rnd w = Some (w_next_strm w, w1)"
      "RelayHandler_GetObjectStream qv pub msg rnd w = Some (False, w_next_strm w, w1)" "good_step w w1" by blast
  note R = SendSubscribe_result [OF assms(2) w1(1)]
  obtain prh where prh: "get_relay w1 pub = Some prh"
      "SubIDGetStream (rh_IncomingStreams prh) (ucast rnd) = Some (w_next_strm w)"
    using R(5) [of pub] by (auto simp: gomap_simps)
  have rs: "w_strm w1 (w_next_strm w) = Some (NewRelayStream (ucast rnd) (Subscribe_GetStreamID msg) pub)"
    by (simp add: R(2))
  have "RelayHandler_HandleSubscribeOk qv pub okm w1 = Some w1"
    using prh rs assms(9)
    by (simp add: RelayHandler_HandleSubscribeOk_def RelayStream_ForwardSubscribeOk_def NewRelayStream_def)
  moreover have "safe w1 (register sub (sub_SubscribeID msg) (w_next_strm w) w1)"
    using w1(3) assms(3,4,5) rs by (intro register_safe) (auto intro: is_relay_mono has_cs_mono)
  then obtain w2 where w2: "register sub (sub_SubscribeID msg) (w_next_strm w) w1 = Some w2" by (auto simp: safe_def)
  moreover have "sent w2 sub = sent w1 sub" using register_result [OF w2] by blast
  then have "sent w2 sub = sent w sub" using R(6) [of sub] assms(8) by simp
  ultimately show ?thesis
    using w1(2) by (auto simp: HandleSubscribe_register_def)
qed

theorem subscribe_ok_can_be_lost_witness:
  "\<exists>p w1 w2. RelayHandler_GetObjectStream rfc9000 0 sample_sub 99 sample_world = Some (False, p, w1) \<and>
    RelayHandler_HandleSubscribeOk rfc9000 0 sample_answer w1 = Some w1 \<and>
    HandleSubscribe_register 1 sample_sub False p w1 = Some w2 \<and> sent w2 1 = sent sample_world 1"
  by (rule subscribe_ok_can_be_lost [OF rfc9000_codec sample_world_ok sample_world_refs(3,4) sample_sub_ok
        sample_subscription(1,2) _ sample_subscription(5)]) simp


definition sample_serving :: world where
  "sample_serving = (put_strm 0 (put_cached (cached_obj 0 0 [1]) (NewRelayStream 99 ''live_video'' 0))
     (put_sess 0 ((sample_session ''a'' ROLE_PUBLISHER)\<lparr>s_Handler := HRelay (NewRelayHandler\<lparr>rh_IncomingStreams :=
        AddStream 99 0 NewStreamsMap\<rparr>)\<rparr>) sample_world))\<lparr>w_next_strm := 1\<rparr>"

lemma sample_serving_refs:
  "w_sess sample_serving 1 = Some (sample_session ''b'' ROLE_SUBSCRIBER)"
  "get_relay sample_serving 0 = Some (NewRelayHandler\<lparr>rh_IncomingStreams := AddStream 99 0 NewStreamsMap\<rparr>)"
  "w_strm sample_serving 0 = Some (put_cached (cached_obj 0 0 [1]) (NewRelayStream 99 ''live_video'' 0))"
  "getPublisher ''live'' sample_serving = Some 0" "is_relay sample_serving 1" "has_cs sample_serving 1"
  by (simp_all add: sample_serving_def sample_world_def get_relay_Some getPublisher_def is_relay_def has_cs_def sample_session_def)

lemma sample_serving_ok: "world_ok sample_serving"
proof -
  let ?rs = "put_cached (cached_obj 0 0 [1]) (NewRelayStream 99 ''live_video'' 0)"
  let ?rh = "NewRelayHandler\<lparr>rh_IncomingStreams := AddStream 99 0 NewStreamsMap\<rparr>"
  let ?w1 = "(put_strm 0 ?rs sample_world)\<lparr>w_next_strm := 1\<rparr>"
  have "stream_ok sample_world ?rs"
    by (simp add: stream_ok_def put_cached_def NewRelayStream_def [of 99] cache_ok_def RelayStream_cacheObject_def
        cached_obj_def DEFAULT_CACHE_SIZE_def DEFAULT_CACHE_SIZE_MB_def)
  from new_strm_good [OF sample_world_ok this] have g: "good_step sample_world ?w1"
    by (simp add: sample_world_def)
  have "is_strm ?w1 0 0 99"
    by (simp add: is_strm_def put_cached_def NewRelayStream_def)
  moreover have "get_relay ?w1 0 = Some NewRelayHandler" using sample_world_refs(5) by simp
  moreover from this good_stepD(1) [OF g] have "handler_ok ?w1 0 ROLE_RELAY (HRelay NewRelayHandler)"
    by (rule get_relay_ok [rotated])
  ultimately have "safe ?w1 (put_relay 0 ?rh ?w1)"
    using good_stepD(1) [OF g] handler_ok_add(2) [of ?w1 0 ROLE_RELAY NewRelayHandler 0 99]
    by (intro put_relay_safe) (auto simp: NewRelayHandler_def)
  moreover have "put_relay 0 ?rh ?w1 = Some sample_serving"
    by (simp add: put_relay_def sample_serving_def sample_world_def put_sess_def put_strm_def)
  ultimately show ?thesis by (auto simp: safe_def)
qed


text \<open>Forwarding waits for every subscriber and no longer. \<open>ForwardStream\<close> starts one goroutine per
  subscriber. Whatever order these run in, and whichever of them cannot open a stream or find the subscription, none of
  them panics, and when they have passed \<open>WgDone\<close> the counter is back where it was, so that \<open>WgWait\<close> returns; each header
  that was written carries a subscription of that subscriber to this track.\<close>

lemma forward_wait_group_balanced:
  assumes "varint_codec qv" and "world_ok w" and "w_strm w p = Some rs" and "MOQTStream_header_ok stream"
    and "RelayStream_ForwardStream rs stream = (stream', started)" and "mset (map fst order) = mset started"
  shows "\<exists>hs st. run_forwards qv order stream' w = Some (hs, st) \<and> map fst hs = map fst order \<and>
    MOQTStream_wg st = MOQTStream_wg stream \<and>
    (\<forall>(sub, h) \<in> set hs. \<forall>b. h = Some b \<longrightarrow> own_header qv w stream sub b)"
proof -
  have F: "started = map snd (rs_Subscribers rs)" "MOQTStream_wg stream' = MOQTStream_wg stream + length (rs_Subscribers rs)"
    "MOQTStream_header_ok stream'" "MOQTStream_GetStreamID stream' = MOQTStream_GetStreamID stream"
    "\<forall>qv k. MOQTStream_GetHeaderSubIDBytes qv stream' k = MOQTStream_GetHeaderSubIDBytes qv stream k"
    using ForwardStream_result [OF assms(5) [unfolded RelayStream_ForwardStream_def]] assms(4) by auto
  have "stream_ok w rs" using assms(2,3) by (rule world_okD)
  then have "\<forall>h \<in> set started. is_relay w h" by (auto simp: F stream_ok_def)
  then have r: "\<forall>(sub, opened) \<in> set order. is_relay w sub"
    using mset_eq_setD [OF assms(6)] by force
  have l: "length order = length (rs_Subscribers rs)"
    using arg_cong [OF assms(6), of size] by (simp add: F(1))
  have own: "own_header qv w stream' = own_header qv w stream" by (intro ext) (simp add: own_header_def F)
  show ?thesis
    using varint_codec.run_forwards_done [OF assms(1,2) r F(3)] l F(2) own by simp
qed

definition sample_forwarding :: world where
  "sample_forwarding = the (register 1 7 0 sample_serving)"

lemma sample_forwarding_reg: "register 1 7 0 sample_serving = Some sample_forwarding" "world_ok sample_forwarding"
proof -
  have "fits62 7" by (simp add: fits62_def)
  then have "safe sample_serving (register 1 7 0 sample_serving)"
    using sample_serving_ok sample_serving_refs by (intro register_safe) simp_all
  then show "register 1 7 0 sample_serving = Some sample_forwarding" "world_ok sample_forwarding"
    by (auto simp: safe_def sample_forwarding_def)
qed

theorem forward_wait_group_balanced_witness:
  "\<exists>rs stream' hs st. w_strm sample_forwarding 0 = Some rs \<and>
    RelayStream_ForwardStream rs (SGroup sample_group) = (stream', [1]) \<and>
    run_forwards rfc9000 [(1, None)] stream' sample_forwarding = Some (hs, st) \<and> MOQTStream_wg st = 0"
proof -
  obtain rs where rs: "w_strm sample_forwarding 0 = Some rs" "map snd (rs_Subscribers rs) = [1]"
  proof -
    from register_result [OF sample_forwarding_reg(1)] obtain s :: MOQTSession and rs0 where
      "w_strm sample_serving 0 = Some rs0" "w_strm sample_forwarding = (w_strm sample_serving)(0 := Some (RelayStream_AddSubscriber (s_Id s) 1 rs0))"
      by blast
    moreover from this(1) have "rs_Subscribers rs0 = []"
      using sample_serving_refs(3) by (auto simp: put_cached_def NewRelayStream_def)
    ultimately show ?thesis using that by (auto simp: RelayStream_AddSubscriber_def gomap_set_def)
  qed
  obtain stream' started where f: "RelayStream_ForwardStream rs (SGroup sample_group) = (stream', started)"
    by (cases "RelayStream_ForwardStream rs (SGroup sample_group)")
  then have st: "started = [1]"
    using ForwardStream_result [of "rs_Subscribers rs"] rs(2) by (auto simp: RelayStream_ForwardStream_def)
  have h: "MOQTStream_header_ok (SGroup sample_group)" "MOQTStream_wg (SGroup sample_group) = 0"
    by (simp_all add: sample_group_def NewGroupStream_def zero_GroupStream_def fits62_def)
  from forward_wait_group_balanced [OF rfc9000_codec sample_forwarding_reg(2) rs(1) h(1) f, of "[(1, None)]"] st
  show ?thesis using rs(1) f h(2) by auto
qed

end
