(* ===== verification/WT_Streams.thy ===== *)
theory WT_Streams
  imports Web_Transport Pub_Sub_Handlers "HOL-Library.Sublist"
begin

text \<open>
  The incoming streams of a WebTransport session with both goroutines that handle them (\<open>src/wt/wtsession.go\<close>): \<open>ProcesUniStreams\<close>, which
  \<open>AcceptSession\<close> starts, reads the headers and sends the streams to \<open>uniStreamsChan\<close>, a channel of 1024 places; \<open>DoHandle\<close>
  of the session's handler takes them from there with \<open>AcceptUniStream\<close>. \<open>Web_Transport\<close> has the two loops one by one; here they run together, in any
  interleaving, and a send waits while the channel is full.

  Shown here: the two goroutines implement the loop of \<open>Web_Transport\<close> (\<open>uni_outcome_step\<close>, a refinement), so that \<open>DoHandle\<close> gets the streams in order
  and all of them, whatever the interleaving; the channel keeps its bound; every run ends with \<open>AcceptUniStream\<close> waiting for a stream that never comes.
\<close>

section \<open>The two goroutines\<close>

definition uniStreamsChan_cap :: nat where
  "uniStreamsChan_cap = 1024"

text \<open>\<open>us_incoming\<close>: what the calls of \<open>quicConn.AcceptUniStream\<close> will return; \<open>us_loop\<close>: whether \<open>ProcesUniStreams\<close> runs, or how it ended;
  \<open>us_accepted\<close>: the streams that \<open>AcceptUniStream\<close> of the session has returned.\<close>

record uni_sys =
  us_incoming :: "(goerror + reader) list"
  us_loop :: uni_loop
  us_wts :: WTSession
  us_accepted :: "reader list"

definition uni_init :: "WTSession \<Rightarrow> (goerror + reader) list \<Rightarrow> uni_sys \<Rightarrow> bool" where
  "uni_init wts evs s \<longleftrightarrow> wts_uniStreamsChan wts = [] \<and> s = \<lparr>us_incoming = evs, us_loop = UniRuns, us_wts = wts, us_accepted = []\<rparr>"

inductive uni_step :: "quicvarint \<Rightarrow> uni_sys \<Rightarrow> uni_sys \<Rightarrow> bool" for qv where
  uni_conn_error: "us_loop s = UniRuns \<Longrightarrow> us_incoming s = Inl err # es \<Longrightarrow>
    uni_step qv s (s\<lparr>us_incoming := es, us_loop := UniAcceptError\<rparr>)"
| uni_timeout: "us_loop s = UniRuns \<Longrightarrow> us_incoming s = Inr r # es \<Longrightarrow>
    StreamHeader_Read qv zero_StreamHeader r = (h, Some NetTimeout, r') \<Longrightarrow> uni_step qv s (s\<lparr>us_incoming := es\<rparr>)"
| uni_header_error: "us_loop s = UniRuns \<Longrightarrow> us_incoming s = Inr r # es \<Longrightarrow>
    StreamHeader_Read qv zero_StreamHeader r = (h, Some err, r') \<Longrightarrow> err \<noteq> NetTimeout \<Longrightarrow>
    uni_step qv s (s\<lparr>us_incoming := es, us_loop := UniHeaderError\<rparr>)"
| uni_send: "us_loop s = UniRuns \<Longrightarrow> us_incoming s = Inr r # es \<Longrightarrow>
    StreamHeader_Read qv zero_StreamHeader r = (h, None, r') \<Longrightarrow> length (wts_uniStreamsChan (us_wts s)) < uniStreamsChan_cap \<Longrightarrow>
    uni_step qv s (s\<lparr>us_incoming := es, us_wts := (us_wts s)\<lparr>wts_uniStreamsChan := wts_uniStreamsChan (us_wts s) @ [r']\<rparr>\<rparr>)"
| uni_accept: "WTSession_AcceptUniStream (us_wts s) = Some (r, wts) \<Longrightarrow>
    uni_step qv s (s\<lparr>us_wts := wts, us_accepted := us_accepted s @ [r]\<rparr>)"

section \<open>Refinement\<close>

text \<open>What the session's handler is still to get in the end, and how the loop ends.\<close>

definition uni_outcome :: "quicvarint \<Rightarrow> uni_sys \<Rightarrow> uni_loop \<times> reader list" where
  "uni_outcome qv s = (if us_loop s = UniRuns
     then (case ProcesUniStreams qv (us_incoming s) (us_wts s) of (res, wts) \<Rightarrow> (res, us_accepted s @ wts_uniStreamsChan wts))
     else (us_loop s, us_accepted s @ wts_uniStreamsChan (us_wts s)))"

lemma ProcesUniStreams_appends:
  "\<exists>res ds. \<forall>wts. ProcesUniStreams qv evs wts = (res, wts\<lparr>wts_uniStreamsChan := wts_uniStreamsChan wts @ ds\<rparr>)"
proof (induction evs)
  case Nil
  show ?case by (intro exI [of _ UniRuns] exI [of _ "[]"]) simp
next
  case (Cons ev evs)
  from Cons obtain res ds where IH: "ProcesUniStreams qv evs wts = (res, wts\<lparr>wts_uniStreamsChan := wts_uniStreamsChan wts @ ds\<rparr>)" for wts
    by blast
  show ?case
  proof (cases ev)
    case (Inl err)
    then show ?thesis by (intro exI [of _ UniAcceptError] exI [of _ "[]"]) simp
  next
    case (Inr r)
    obtain h err r' where h: "StreamHeader_Read qv zero_StreamHeader r = (h, err, r')" by (cases "StreamHeader_Read qv zero_StreamHeader r")
    consider (none) "err = None" | (timeout) "err = Some NetTimeout" | (error) e where "err = Some e" "e \<noteq> NetTimeout" by (cases err) auto
    then show ?thesis
    proof cases
      case none
      then show ?thesis using Inr h IH by (intro exI [of _ res] exI [of _ "r' # ds"]) simp
    next
      case timeout
      then show ?thesis using Inr h IH by (intro exI [of _ res] exI [of _ ds]) simp
    next
      case error
      then show ?thesis using Inr h by (intro exI [of _ UniHeaderError] exI [of _ "[]"]) (cases e; simp)
    qed
  qed
qed

lemma uni_outcome_step:
  assumes "uni_step qv s t"
  shows "uni_outcome qv t = uni_outcome qv s"
  using assms
proof cases
  case (uni_header_error r es h err r')
  then show ?thesis by (cases err) (simp_all add: uni_outcome_def)
next
  case (uni_accept r wts)
  then have "wts_uniStreamsChan (us_wts s) = r # wts_uniStreamsChan wts" "wts = (us_wts s)\<lparr>wts_uniStreamsChan := wts_uniStreamsChan wts\<rparr>"
    by (auto simp: WTSession_AcceptUniStream_def split: list.splits)
  moreover obtain res ds where "\<And>wts. ProcesUniStreams qv (us_incoming s) wts = (res, wts\<lparr>wts_uniStreamsChan := wts_uniStreamsChan wts @ ds\<rparr>)"
    using ProcesUniStreams_appends by metis
  ultimately show ?thesis using uni_accept by (simp add: uni_outcome_def)
qed (simp_all add: uni_outcome_def)

definition uni_ok :: "quicvarint \<Rightarrow> uni_loop \<times> reader list \<Rightarrow> uni_sys \<Rightarrow> bool" where
  "uni_ok qv out s \<longleftrightarrow> uni_outcome qv s = out \<and> length (wts_uniStreamsChan (us_wts s)) \<le> uniStreamsChan_cap"

lemma uni_ok_step: "uni_ok qv out s \<Longrightarrow> uni_step qv s t \<Longrightarrow> uni_ok qv out t"
  using uni_outcome_step [of qv s t] by (auto simp: uni_ok_def WTSession_AcceptUniStream_def elim!: uni_step.cases split: list.splits)

section \<open>Every run ends\<close>

definition uni_work :: "uni_sys \<Rightarrow> nat" where
  "uni_work s = 2 * length (us_incoming s) + length (wts_uniStreamsChan (us_wts s))"

lemma uni_step_work: "uni_step qv s t \<Longrightarrow> uni_work t < uni_work s"
  by (auto simp: uni_work_def WTSession_AcceptUniStream_def elim!: uni_step.cases split: list.splits)

lemma uni_final:
  assumes "\<nexists>t. uni_step qv s t"
  shows "WTSession_AcceptUniStream (us_wts s) = None" and "uni_outcome qv s = (us_loop s, us_accepted s)"
proof -
  show a: "WTSession_AcceptUniStream (us_wts s) = None"
    using assms uni_accept by (metis option.exhaust surj_pair)
  then have c: "wts_uniStreamsChan (us_wts s) = []" by (simp add: WTSession_AcceptUniStream_def split: list.splits)
  have "us_incoming s = []" if "us_loop s = UniRuns"
  proof (rule ccontr)
    assume "us_incoming s \<noteq> []"
    then obtain ev es where ev: "us_incoming s = ev # es" by (cases "us_incoming s") auto
    show False
    proof (cases ev)
      case (Inl err)
      then show False using uni_conn_error [OF that] ev assms by blast
    next
      case (Inr r)
      obtain h err r' where h: "StreamHeader_Read qv zero_StreamHeader r = (h, err, r')" by (cases "StreamHeader_Read qv zero_StreamHeader r")
      have "length (wts_uniStreamsChan (us_wts s)) < uniStreamsChan_cap" by (simp add: c uniStreamsChan_cap_def)
      then show False using uni_timeout [OF that] uni_header_error [OF that] uni_send [OF that] ev Inr h assms by (cases err) blast+
    qed
  qed
  then show "uni_outcome qv s = (us_loop s, us_accepted s)" by (simp add: uni_outcome_def c)
qed

lemma uni_run_ends:
  "\<exists>t. (uni_step qv)\<^sup>*\<^sup>* s t \<and> (\<nexists>u. uni_step qv t u)"
proof (induction s rule: measure_induct_rule [of uni_work])
  case (less s)
  show ?case
  proof (cases "\<exists>t. uni_step qv s t")
    case True
    then obtain t where t: "uni_step qv s t" by blast
    with less [OF uni_step_work [OF t]] show ?thesis by (meson converse_rtranclp_into_rtranclp)
  qed blast
qed

section \<open>Properties\<close>

lemma uni_ok_init:
  "uni_init wts evs s \<Longrightarrow> uni_ok qv (case ProcesUniStreams qv evs wts of (res, wts') \<Rightarrow> (res, wts_uniStreamsChan wts')) s"
  by (auto simp: uni_init_def uni_ok_def uni_outcome_def split: prod.splits)

interpretation uni: invariant_system "uni_init wts evs" "uni_step qv"
  "uni_ok qv (case ProcesUniStreams qv evs wts of (res, wts') \<Rightarrow> (res, wts_uniStreamsChan wts'))"
  by unfold_locales (rule uni_ok_init uni_ok_step; assumption)+

lemma uni_accepted_prefix: "prefix (us_accepted s) (snd (uni_outcome qv s))"
  by (simp add: uni_outcome_def split: prod.splits)

lemma uni_reach_ok:
  assumes "ProcesUniStreams qv evs wts = (res, wts')" and "reach (uni_init wts evs) (uni_step qv) s"
  shows "uni_outcome qv s = (res, wts_uniStreamsChan wts')" and "length (wts_uniStreamsChan (us_wts s)) \<le> uniStreamsChan_cap"
  using uni.inv_reach [OF assms(2)] assms(1) by (simp_all add: uni_ok_def)

text \<open>Property C38 (both ends of a session's channel). Let \<open>ProcesUniStreams\<close> pass on, by itself, the streams \<open>wts_uniStreamsChan wts'\<close> of a sequence of incoming
  streams and errors, and end with \<open>res\<close>. When it runs beside the handler's \<open>AcceptUniStream\<close>, with a channel that holds 1024 streams, then in every interleaving
  the handler gets a prefix of these streams and the channel keeps its bound. Every run can go on to an end and, at each end, the handler has all the streams in order, the
  loop has ended with \<open>res\<close>, and \<open>AcceptUniStream\<close> waits: it never returns an error, not even when the connection is closed.\<close>

theorem webtransport_streams_handled:
  assumes "ProcesUniStreams qv evs wts = (res, wts')" and "reach (uni_init wts evs) (uni_step qv) s"
  shows "prefix (us_accepted s) (wts_uniStreamsChan wts') \<and> length (wts_uniStreamsChan (us_wts s)) \<le> 1024 \<and>
    (\<exists>t. (uni_step qv)\<^sup>*\<^sup>* s t \<and> (\<nexists>u. uni_step qv t u)) \<and>
    (\<forall>t. (uni_step qv)\<^sup>*\<^sup>* s t \<and> (\<nexists>u. uni_step qv t u) \<longrightarrow>
      us_accepted t = wts_uniStreamsChan wts' \<and> us_loop t = res \<and> WTSession_AcceptUniStream (us_wts t) = None)"
proof (intro conjI allI impI)
  show "prefix (us_accepted s) (wts_uniStreamsChan wts')" using uni_accepted_prefix [of s qv] uni_reach_ok(1) [OF assms] by simp
  show "length (wts_uniStreamsChan (us_wts s)) \<le> 1024" using uni_reach_ok(2) [OF assms] by (simp add: uniStreamsChan_cap_def)
  show "\<exists>t. (uni_step qv)\<^sup>*\<^sup>* s t \<and> (\<nexists>u. uni_step qv t u)" by (rule uni_run_ends)
  fix t
  assume t: "(uni_step qv)\<^sup>*\<^sup>* s t \<and> (\<nexists>u. uni_step qv t u)"
  with assms(2) have "reach (uni_init wts evs) (uni_step qv) t" by (blast intro: reach_rtranclp)
  from uni_reach_ok(1) [OF assms(1) this] uni_final [of qv t] t
  show "us_accepted t = wts_uniStreamsChan wts'" "us_loop t = res" "WTSession_AcceptUniStream (us_wts t) = None" by simp_all
qed

text \<open>Two streams, one whose header comes too late, and the end of the connection.\<close>

abbreviation sample_uni_events :: "(goerror + reader) list" where
  "sample_uni_events \<equiv> map (uni_event rfc9000) [Some \<lparr>rd_data = [9, 8], rd_end = EOF\<rparr>, None, Some \<lparr>rd_data = [7], rd_end = EOF\<rparr>] @
     [Inl (Errorf ''closed'')]"

theorem webtransport_streams_handled_witness:
  "\<exists>s t. uni_init new_WTSession sample_uni_events s \<and> (uni_step rfc9000)\<^sup>*\<^sup>* s t \<and> (\<nexists>u. uni_step rfc9000 t u) \<and>
    us_accepted t = [\<lparr>rd_data = [9, 8], rd_end = EOF\<rparr>, \<lparr>rd_data = [7], rd_end = EOF\<rparr>] \<and> us_loop t = UniAcceptError \<and>
    WTSession_AcceptUniStream (us_wts t) = None"
proof -
  let ?s = "\<lparr>us_incoming = sample_uni_events, us_loop = UniRuns, us_wts = new_WTSession, us_accepted = []\<rparr>"
  have init: "uni_init new_WTSession sample_uni_events ?s" by (simp add: uni_init_def new_WTSession_def)
  have "ProcesUniStreams rfc9000 sample_uni_events new_WTSession = (UniAcceptError, new_WTSession
      \<lparr>wts_uniStreamsChan := [\<lparr>rd_data = [9, 8], rd_end = EOF\<rparr>, \<lparr>rd_data = [7], rd_end = EOF\<rparr>]\<rparr>)"
    unfolding rfc.ProcesUniStreams_events by (simp add: new_WTSession_def)
  note r = webtransport_streams_handled [OF this reach_init [of "uni_init new_WTSession sample_uni_events", OF init]]
  then obtain t where "(uni_step rfc9000)\<^sup>*\<^sup>* ?s t \<and> (\<nexists>u. uni_step rfc9000 t u)" by blast
  with r init show ?thesis by (intro exI [of _ ?s] exI [of _ t]) simp
qed

section \<open>Streams of a peer\<close>

text \<open>The streams that a peer opens with \<open>OpenUniStream\<close> are handed to \<open>DoHandle\<close> as they would be on a plain QUIC connection: in order, and without the header.\<close>

context varint_codec
begin

lemma opened_streams_accepted:
  assumes "WTSession_OpenUniStream qv None = Some (Inr h)" and "\<nexists>u. uni_step qv s u"
    and "reach (uni_init wts (map (\<lambda>b. Inr \<lparr>rd_data = h @ b, rd_end = EOF\<rparr>) bs)) (uni_step qv) s"
  shows "us_accepted s = map (\<lambda>b. \<lparr>rd_data = b, rd_end = EOF\<rparr>) bs"
proof -
  let ?rs = "map (\<lambda>b. \<lparr>rd_data = b, rd_end = EOF\<rparr>) bs"
  have h: "h = venc qv STREAM_WEBTRANSPORT_UNI_STREAM @ venc qv 0" using assms(1) uni_header_trip(1) by simp
  have "map (\<lambda>b. Inr \<lparr>rd_data = h @ b, rd_end = EOF\<rparr>) bs = map (uni_event qv) (map Some ?rs)" by (simp add: h uni_event_def)
  moreover have "map the (filter (\<lambda>e. e \<noteq> None) (map Some ?rs)) = ?rs" by (induction bs) simp_all
  ultimately have p: "ProcesUniStreams qv (map (\<lambda>b. Inr \<lparr>rd_data = h @ b, rd_end = EOF\<rparr>) bs) wts =
      (UniRuns, wts\<lparr>wts_uniStreamsChan := wts_uniStreamsChan wts @ ?rs\<rparr>)"
    using ProcesUniStreams_events [where evs = "map Some ?rs" and es = "[]" and wts = wts] by (simp only: append_Nil2 ProcesUniStreams.simps)
  have "wts_uniStreamsChan wts = []" using assms(3) by (induction rule: reach.induct) (simp_all add: uni_init_def)
  then show ?thesis using uni_reach_ok(1) [OF p assms(3)] uni_final(2) [OF assms(2)] by simp
qed

end

end
