(* ===== verification/Wire_Progress.thy ===== *)
theory Wire_Progress
  imports Wire_Messages
begin

text \<open>
  The parsers of the wire package only move forward: what they leave of a stream is a suffix of what they were
  given, and a message that was parsed has taken at least one byte. The loops over control messages end for
  this reason.
\<close>

definition step_rest :: "'m step \<Rightarrow> bool" where
  "step_rest s \<longleftrightarrow> (\<forall>m r m' e r'. s m r = Some (m', e, r') \<longrightarrow> suffix (rd_data r') (rd_data r))"

lemma step_restI: "(\<And>m r m' e r'. s m r = Some (m', e, r') \<Longrightarrow> suffix (rd_data r') (rd_data r)) \<Longrightarrow> step_rest s"
  by (auto simp: step_rest_def)

lemma step_restD: "step_rest s \<Longrightarrow> s m r = Some (m', e, r') \<Longrightarrow> suffix (rd_data r') (rd_data r)"
  unfolding step_rest_def by blast

lemma run_steps_rest:
  assumes "\<And>s. s \<in> set ss \<Longrightarrow> step_rest s"
  shows "step_rest (run_steps ss)"
proof (rule step_restI)
  fix m r m' e r'
  assume "run_steps ss m r = Some (m', e, r')"
  then show "suffix (rd_data r') (rd_data r)" using assms
  proof (induction ss m r rule: run_steps.induct)
    case (2 s ss m r)
    then obtain m1 e1 r1 where s: "s m r = Some (m1, e1, r1)" by (auto split: option.splits prod.splits)
    have "step_rest s" using 2(3) by simp
    then have r1: "suffix (rd_data r1) (rd_data r)" using s by (rule step_restD)
    show ?case
    proof (cases e1)
      case None
      with 2 s have "suffix (rd_data r') (rd_data r1)" by simp
      with r1 show ?thesis by (rule suffix_order.trans [rotated])
    qed (use 2(2) s r1 in auto)
  qed simp
qed

lemma when_step_rest: "step_rest s \<Longrightarrow> step_rest (when_step c s)"
  by (auto simp: step_rest_def when_step_def)

lemma byte_step_rest: "step_rest (byte_step upd)"
  by (auto simp: step_rest_def byte_step_def split: prod.splits sum.splits dest: ReadByte_rest)

context varint_codec
begin

lemma varint_step_rest: "step_rest (varint_step qv upd)"
  by (auto simp: step_rest_def varint_step_def split: prod.splits sum.splits dest: Read_rest)

lemma ParseVarIntString_rest:
  assumes "ParseVarIntString qv r = Some (v, r')"
  shows "suffix (rd_data r') (rd_data r)"
proof -
  obtain x r1 where r1: "qv_Read qv r = (x, r1)" by (cases "qv_Read qv r")
  then have s1: "suffix (rd_data r1) (rd_data r)" using Read_rest by blast
  show ?thesis
  proof (cases x)
    case (Inr len)
    then obtain y r2 where "make_ReadFull len r1 = Some (y, r2)" "r' = r2"
      using assms r1 by (auto simp: ParseVarIntString_def split: option.splits prod.splits)
    then have "suffix (rd_data r') (rd_data r1)" using make_ReadFull_rest by blast
    with s1 show ?thesis by (rule suffix_order.trans [rotated])
  qed (use assms r1 s1 in \<open>auto simp: ParseVarIntString_def\<close>)
qed

lemma string_step_rest: "step_rest (string_step qv upd)"
  by (auto simp: step_rest_def string_step_def split: option.splits prod.splits sum.splits dest: ParseVarIntString_rest)

lemma parameter_rest: "step_rest (IntParameter_Parse qv)" "step_rest (StringParameter_Parse qv)"
  by (auto simp: IntParameter_Parse_def StringParameter_Parse_def intro!: run_steps_rest varint_step_rest string_step_rest)

lemma Parameters_loop_rest: "Parameters_loop qv n ps r = Some (ps', e, r') \<Longrightarrow> suffix (rd_data r') (rd_data r)"
proof (induction n arbitrary: ps r)
  case (Suc n)
  obtain x r1 where r1: "qv_Read qv r = (x, r1)" by (cases "qv_Read qv r")
  then have s1: "suffix (rd_data r1) (rd_data r)" using Read_rest by blast
  have "suffix (rd_data r') (rd_data r1)"
  proof (cases x)
    case (Inl e)
    with Suc.prems r1 show ?thesis by auto
  next
    case (Inr t)
    consider "t = ROLE_PARAM" | "t \<noteq> ROLE_PARAM" "t = ROLE_PATH" | "t \<noteq> ROLE_PARAM" "t \<noteq> ROLE_PATH" by blast
    then show ?thesis
    proof cases
      case 1
      with Suc.prems r1 Inr show ?thesis
        by (auto split: option.splits prod.splits dest: step_restD [OF parameter_rest(1)]
            intro: suffix_order.trans [OF Suc.IH step_restD [OF parameter_rest(1)]])
    next
      case 2
      with Suc.prems r1 Inr show ?thesis
        by (auto split: option.splits prod.splits dest: step_restD [OF parameter_rest(2)]
            intro: suffix_order.trans [OF Suc.IH step_restD [OF parameter_rest(2)]])
    next
      case 3
      obtain y r2 where r2: "qv_Read qv r1 = (y, r2)" by (cases "qv_Read qv r1")
      then have s2: "suffix (rd_data r2) (rd_data r1)" using Read_rest by blast
      show ?thesis
        using Suc.prems r1 Inr 3 r2 s2
        by (auto split: option.splits prod.splits sum.splits dest!: make_ReadFull_rest intro: suffix_order.trans)
    qed
  qed
  with s1 show ?case by (rule suffix_order.trans [rotated])
qed simp

lemma Parameters_Parse_rest: "Parameters_Parse qv ps r = Some (ps', e, r') \<Longrightarrow> suffix (rd_data r') (rd_data r)"
  by (auto simp: Parameters_Parse_def split: prod.splits sum.splits dest!: Parameters_loop_rest Read_rest
      intro: suffix_order.trans)

lemma params_step_rest: "step_rest (params_step qv upd)" "step_rest (params_step_unchecked qv upd)"
  by (auto simp: step_rest_def params_step_def params_step_unchecked_def split: option.splits prod.splits
      dest: Parameters_Parse_rest)

lemma versions_loop_rest: "versions_loop qv n s r = Some (s', e, r') \<Longrightarrow> suffix (rd_data r') (rd_data r)"
proof (induction n arbitrary: s r)
  case (Suc n)
  obtain x r1 where r1: "qv_Read qv r = (x, r1)" by (cases "qv_Read qv r")
  then have s1: "suffix (rd_data r1) (rd_data r)" using Read_rest by blast
  with Suc r1 show ?case by (cases x) (auto intro: suffix_order.trans)
qed simp

lemma ClientSetup_Parse_rest: "step_rest (ClientSetup_Parse qv)"
proof (rule step_restI)
  fix m r m' e r'
  assume c: "ClientSetup_Parse qv m r = Some (m', e, r')"
  obtain x r1 where r1: "qv_Read qv r = (x, r1)" by (cases "qv_Read qv r")
  then have s1: "suffix (rd_data r1) (rd_data r)" using Read_rest by blast
  have "step_rest (run_steps [versions_loop qv n, params_step_unchecked qv upd])" for n upd
    using params_step_rest(2) versions_loop_rest by (intro run_steps_rest) (auto intro: step_restI)
  with c r1 s1 show "suffix (rd_data r') (rd_data r)"
    by (cases x) (auto simp: ClientSetup_Parse_def simp del: run_steps.simps dest!: step_restD intro: suffix_order.trans)
qed

lemma Parse_rest:
  "step_rest (ServerSetup_Parse qv)" "step_rest (Announce_Parse qv)" "step_rest (AnnounceOk_Parse qv)"
  "step_rest (Subscribe_Parse qv)" "step_rest (SubscribeOk_Parse qv)" "step_rest (Unsubcribe_Parse qv)"
  "step_rest (SubscribeDone_Parse qv)"
  by (auto simp: Parse_defs intro!: run_steps_rest varint_step_rest string_step_rest byte_step_rest when_step_rest
      params_step_rest)

lemma parse_unchecked_rest:
  "parse_unchecked con parse zero r = Some (x, r') \<Longrightarrow> step_rest parse \<Longrightarrow> suffix (rd_data r') (rd_data r)"
  by (auto simp: parse_unchecked_def split: option.splits prod.splits dest: step_restD)

text \<open>A message that was parsed has taken at least one byte, and left the rest.\<close>

lemma ParseMOQTMessage_progress:
  assumes "ParseMOQTMessage qv r = Some (Inr m, r')"
  shows "suffix (rd_data r') (rd_data r) \<and> length (rd_data r') < length (rd_data r)"
proof -
  obtain x r1 where r1: "qv_Read qv r = (x, r1)" by (cases "qv_Read qv r")
  then obtain t where t: "x = Inr t" using assms by (cases x) (auto simp: ParseMOQTMessage_def)
  have "suffix (rd_data r') (rd_data r1)"
    using assms r1 t Parse_rest ClientSetup_Parse_rest
    by (auto simp: ParseMOQTMessage_def split: if_splits dest: parse_unchecked_rest)
  moreover have "suffix (rd_data r1) (rd_data r)" "length (rd_data r1) < length (rd_data r)"
    using r1 t Read_rest Read_progress by auto
  ultimately show ?thesis
    using suffix_length_le [of "rd_data r'" "rd_data r1"] by (auto intro: suffix_order.trans)
qed

end

end
