(* ===== verification/Control_Stream.thy ===== *)
theory Control_Stream
  imports Pub_Sub_Handlers Wire_Progress
begin

text \<open>
  Sessions and their control streams: \<open>src/moqt/moqtsession.go\<close>, \<open>controlstream.go\<close> and \<open>handler.go\<close>. A session is
  created, gets a control stream (accepted by a server, opened by a client), exchanges the setup messages and then
  dispatches control messages to its handler. Results of the connection and random numbers are arguments; the ID of a session, the
  first part of a UUID, is an argument of \<open>CreateMOQSession\<close>.

  The whole process is the transition system \<open>moq_step\<close>: one step per control message, per accepted stream, per
  goroutine step and per call of the application, of any session, in any order.

  Shown here: the invariant of the heaps holds in every reachable state; a relay handles every message that can be parsed,
  in every reachable state, without a panic, and any bytes up to the first position at which nothing can be parsed; messages that are written
  one after the other are handled one after the other; the handshake of a client and a server completes with each side knowing the
  other's role, is refused otherwise, and is finished once at most; what closing a session removes and what it leaves.
\<close>

section \<open>Creating and closing\<close>

definition CreateNewHandler :: "u64 \<Rightarrow> goerror + Handler" where
  "CreateNewHandler role =
    (if role = ROLE_RELAY then Inr (HRelay NewRelayHandler)
     else if role = ROLE_PUBLISHER then Inr (HPub NewPubHandler)
     else if role = ROLE_SUBSCRIBER then Inr (HSub NewSubHandler)
     else Inl (Errorf ''[Local Role not Supported]''))"

definition new_session :: "string \<Rightarrow> u64 \<Rightarrow> u8 \<Rightarrow> Handler \<Rightarrow> MOQTSession" where
  "new_session sid LocalRole mode handler = \<lparr>s_CS = None, s_cancelled = False, s_Id = sid, s_RemoteRole = 0,
     s_LocalRole = LocalRole, s_Handler = handler, s_Mode = mode, s_HandshakeDone = 0, s_HandshakeTaken = 0, s_closes = []\<rparr>"

definition CreateMOQSession :: "string \<Rightarrow> u64 \<Rightarrow> u8 \<Rightarrow> world \<Rightarrow> ((goerror + ref) \<times> world) option" where
  "CreateMOQSession sid LocalRole mode w = (case CreateNewHandler LocalRole of
      Inl err \<Rightarrow> Some (Inl err, w)
    | Inr handler \<Rightarrow> do {
        let r = w_next_sess w;
        w \<leftarrow> addSession r ((put_sess r (new_session sid LocalRole mode handler) w)\<lparr>w_next_sess := Suc r\<rparr>);
        Some (Inr r, w) })"

definition isUpstream :: "MOQTSession \<Rightarrow> bool" where
  "isUpstream s \<longleftrightarrow> s_RemoteRole s = ROLE_PUBLISHER \<or> s_RemoteRole s = ROLE_RELAY"

definition Handler_HandleClose :: "ref \<Rightarrow> world \<Rightarrow> world option" where
  "Handler_HandleClose r w = do {
     s \<leftarrow> w_sess w r;
     case s_Handler s of
       HRelay _ \<Rightarrow> RelayHandler_HandleClose r w
     | HPub _ \<Rightarrow> PubHandler_HandleClose r w
     | HSub _ \<Rightarrow> SubHandler_HandleClose r w }"

definition cancelFunc :: "ref \<Rightarrow> world \<Rightarrow> world option" where
  "cancelFunc r w = do { s \<leftarrow> w_sess w r; Some (put_sess r (s\<lparr>s_cancelled := True\<rparr>) w) }"

definition MOQTSession_Close :: "ref \<Rightarrow> u64 \<Rightarrow> string \<Rightarrow> world \<Rightarrow> world option" where
  "MOQTSession_Close r code msg w = do {
     w \<leftarrow> CloseWithError r code msg w;
     w \<leftarrow> cancelFunc r w;
     w \<leftarrow> Handler_HandleClose r w;
     removeSession r w }"

definition ServeMOQ :: "ref \<Rightarrow> world \<Rightarrow> world option" where
  "ServeMOQ r w = do {
     s \<leftarrow> w_sess w r;
     let w = (if s_Mode s = SERVER_MODE then spawn (TaskHandleControlStream r) w
              else if s_Mode s = CLIENT_MODE then spawn (TaskInitiateHandshake r) w
              else w);
     Some (spawn (TaskDoHandle r) w) }"

definition MOQTSession_SendSubscribe :: "quicvarint \<Rightarrow> ref \<Rightarrow> Subscribe \<Rightarrow> world \<Rightarrow> world option" where
  "MOQTSession_SendSubscribe qv r submsg w = WriteControlMessage qv r (MsgSubscribe submsg) w"

definition MOQTSession_SendUnsubscribe :: "quicvarint \<Rightarrow> ref \<Rightarrow> u64 \<Rightarrow> world \<Rightarrow> world option" where
  "MOQTSession_SendUnsubscribe qv r subid w = WriteControlMessage qv r (MsgUnsubcribe \<lparr>SubscriptionID = subid\<rparr>) w"

section \<open>The control stream\<close>

definition set_CS :: "ref \<Rightarrow> world \<Rightarrow> world option" where
  "set_CS r w = do {
     s \<leftarrow> w_sess w r;
     Some (spawn (TaskServeCS r) (put_sess r (s\<lparr>s_CS := Some NewControlStream\<rparr>) w)) }"

text \<open>\<open>handleControlStream\<close>: one event per \<open>AcceptStream\<close>; every branch but the first good stream ends the loop.\<close>

datatype accept_cs = AcceptTimeout | AcceptError string | AcceptStream

fun handleControlStream :: "ref \<Rightarrow> accept_cs list \<Rightarrow> world \<Rightarrow> world option" where
  "handleControlStream r [] w = Some w"
| "handleControlStream r (AcceptTimeout # evs) w = MOQTSession_Close r MOQERR_INTERNAL_ERROR ''[Session Closed]'' w"
| "handleControlStream r (AcceptError err # evs) w =
     MOQTSession_Close r MOQERR_INTERNAL_ERROR (''[Error Accepting Control Stream]['' @ err @ '']'') w"
| "handleControlStream r (AcceptStream # evs) w = do {
     s \<leftarrow> w_sess w r;
     if s_CS s \<noteq> None then MOQTSession_Close r MOQERR_PROTOCOL_VIOLATION ''Received Control Stream Twice'' w
     else do {
       w \<leftarrow> set_CS r w;
       handleControlStream r evs w } }"

definition client_setup_msg :: "u64 \<Rightarrow> MOQTMessage" where
  "client_setup_msg role = MsgClientSetup \<lparr>SupportedVersions = [DRAFT_04],
     csetup_Params = [(ROLE_PARAM, IntP \<lparr>Ptype = ROLE_PARAM, Pvalue = role\<rparr>)]\<rparr>"

definition server_setup_msg :: "u64 \<Rightarrow> MOQTMessage" where
  "server_setup_msg role = MsgServerSetup (NewServerSetup DRAFT_04 [(ROLE_PARAM, NewIntParameter ROLE_PARAM role)])"

definition InitiateHandshake :: "quicvarint \<Rightarrow> ref \<Rightarrow> goerror option \<Rightarrow> world \<Rightarrow> world option" where
  "InitiateHandshake qv r opened w = (case opened of
      Some _ \<Rightarrow> MOQTSession_Close r MOQERR_INTERNAL_ERROR ''[Handshake Failed][Error Opening ControlStream]'' w
    | None \<Rightarrow> do {
        w \<leftarrow> set_CS r w;
        s \<leftarrow> w_sess w r;
        WriteControlMessage qv r (client_setup_msg (s_LocalRole s)) w })"

text \<open>\<open>SetRemoteRole\<close> stores the role first and checks it then.\<close>

definition role_error :: "u64 \<Rightarrow> u64 \<Rightarrow> string option" where
  "role_error LocalRole RemoteRole =
    (if LocalRole = ROLE_PUBLISHER then
       (if RemoteRole = ROLE_PUBLISHER then Some ''I am a Pub. Role Error'' else None)
     else if LocalRole = ROLE_SUBSCRIBER then
       (if RemoteRole = ROLE_SUBSCRIBER then Some ''I am a Sub. Role Error'' else None)
     else if LocalRole = ROLE_RELAY then None
     else Some ''Unknown Role'')"

definition SetRemoteRole :: "ref \<Rightarrow> u64 \<Rightarrow> world \<Rightarrow> (string option \<times> world) option" where
  "SetRemoteRole r role w = do {
     s \<leftarrow> w_sess w r;
     Some (role_error (s_LocalRole s) role, put_sess r (s\<lparr>s_RemoteRole := role\<rparr>) w) }"

text \<open>\<open>cs.ishandshakedone = true; cs.HandshakeDone <- true\<close>. A send while a value is still in the channel blocks, which is \<^const>\<open>None\<close> here;
  when \<open>Dial\<close> has received the value, nothing in this function keeps it from sending another.\<close>

definition finish_handshake :: "ref \<Rightarrow> world \<Rightarrow> world option" where
  "finish_handshake r w = do {
     s \<leftarrow> w_sess w r;
     cs \<leftarrow> s_CS s;
     if s_HandshakeTaken s < s_HandshakeDone s then None
     else Some (put_sess r (s\<lparr>s_CS := Some (cs\<lparr>cs_ishandshakedone := True\<rparr>), s_HandshakeDone := Suc (s_HandshakeDone s)\<rparr>) w) }"

text \<open>The common end of both branches of \<open>handleSetupMessage\<close>: the role, and \<open>after\<close> for what follows success.\<close>

definition accept_role :: "ref \<Rightarrow> u64 \<Rightarrow> (world \<Rightarrow> world option) \<Rightarrow> world \<Rightarrow> world option" where
  "accept_role r role after w = do {
     (err, w) \<leftarrow> SetRemoteRole r role w;
     case err of
       Some e \<Rightarrow> MOQTSession_Close r MOQERR_PROTOCOL_VIOLATION e w
     | None \<Rightarrow> do { w \<leftarrow> finish_handshake r w; after w } }"

fun handleSetupMessage :: "quicvarint \<Rightarrow> ref \<Rightarrow> MOQTMessage \<Rightarrow> world \<Rightarrow> world option" where
  "handleSetupMessage qv r (MsgClientSetup clientSetup) w =
    (if \<not> CheckDraftSupport clientSetup then
       MOQTSession_Close r MOQERR_INTERNAL_ERROR ''CLIENT SETUP ERROR : PROTOCOL DRAFT NOT SUPPORTED'' w
     else do {
       role \<leftarrow> ClientSetup_GetRoleParam clientSetup;
       case role of
         Inl _ \<Rightarrow> MOQTSession_Close r MOQERR_INTERNAL_ERROR ''CLIENT SETUP ERROR : ROLE PARAM MISSING'' w
       | Inr role \<Rightarrow> accept_role r role (\<lambda>w. do {
           s \<leftarrow> w_sess w r;
           WriteControlMessage qv r (server_setup_msg (s_LocalRole s)) w }) w })"
| "handleSetupMessage qv r (MsgServerSetup serverSetup) w =
    (if SelectedVersion serverSetup \<noteq> DRAFT_04 then
       MOQTSession_Close r MOQERR_INTERNAL_ERROR ''SERVER SETUP ERRR : PROTOCOL DRAFT NOT SUPPORTED'' w
     else do {
       role \<leftarrow> ServerSetup_GetRoleParam serverSetup;
       case role of
         Inl _ \<Rightarrow> MOQTSession_Close r MOQERR_INTERNAL_ERROR ''CLIENT SETUP ERROR : ROLE PARAM MISSING'' w
       | Inr role \<Rightarrow> accept_role r role Some w })"
| "handleSetupMessage qv r m w = Some w"

text \<open>The methods of the \<open>Handler\<close> interface, by the kind of handler; those that are missing here are empty or only log.\<close>

fun handler_message :: "quicvarint \<Rightarrow> ref \<Rightarrow> Handler \<Rightarrow> MOQTMessage \<Rightarrow> u32 \<Rightarrow> world \<Rightarrow> world option" where
  "handler_message qv r (HRelay _) (MsgAnnounce m) rnd w = RelayHandler_HandleAnnounce qv r m w"
| "handler_message qv r (HRelay _) (MsgSubscribe m) rnd w = RelayHandler_HandleSubscribe qv r m rnd w"
| "handler_message qv r (HRelay _) (MsgSubscribeOk m) rnd w = RelayHandler_HandleSubscribeOk qv r m w"
| "handler_message qv r (HRelay _) (MsgAnnounceOk m) rnd w = RelayHandler_HandleAnnounceOk r m w"
| "handler_message qv r (HRelay _) (MsgUnsubcribe m) rnd w = RelayHandler_HandleUnsubscribe r m w"
| "handler_message qv r (HPub _) (MsgAnnounce m) rnd w = PubHandler_HandleAnnounce r m w"
| "handler_message qv r (HPub _) (MsgSubscribe m) rnd w = PubHandler_HandleSubscribe r m w"
| "handler_message qv r (HPub _) (MsgSubscribeOk m) rnd w = PubHandler_HandleSubscribeOk r m w"
| "handler_message qv r (HPub _) (MsgAnnounceOk m) rnd w = PubHandler_HandleAnnounceOk r m w"
| "handler_message qv r (HPub _) (MsgUnsubcribe m) rnd w = PubHandler_HandleUnsubscribe r m w"
| "handler_message qv r (HSub _) (MsgAnnounce m) rnd w = SubHandler_HandleAnnounce r m w"
| "handler_message qv r (HSub _) (MsgSubscribe m) rnd w = SubHandler_HandleSubscribe r m w"
| "handler_message qv r (HSub _) (MsgSubscribeOk m) rnd w = SubHandler_HandleSubscribeOk r m w"
| "handler_message qv r (HSub _) (MsgAnnounceOk m) rnd w = SubHandler_HandleAnnounceOk r m w"
| "handler_message qv r (HSub _) (MsgUnsubcribe m) rnd w = SubHandler_HandleUnsubscribe r m w"
| "handler_message qv r _ _ rnd w = Some w"

text \<open>\<open>handleControlMessage\<close>: SUBSCRIBE_DONE and setup messages are not dispatched.\<close>

definition handleControlMessage :: "quicvarint \<Rightarrow> ref \<Rightarrow> MOQTMessage \<Rightarrow> u32 \<Rightarrow> world \<Rightarrow> world option" where
  "handleControlMessage qv r m rnd w =
    (if MOQTMessage_Type m \<in> {ANNOUNCE, SUBSCRIBE, SUBSCRIBE_OK, ANNOUNCE_OK, UNSUBSCRIBE} then do {
       s \<leftarrow> w_sess w r;
       handler_message qv r (s_Handler s) m rnd w }
     else Some w)"

text \<open>One round of \<open>ServeCS\<close> on a message that was parsed.\<close>

definition ServeCS_message :: "quicvarint \<Rightarrow> ref \<Rightarrow> MOQTMessage \<Rightarrow> u32 \<Rightarrow> world \<Rightarrow> world option" where
  "ServeCS_message qv r m rnd w = do {
     s \<leftarrow> w_sess w r;
     cs \<leftarrow> s_CS s;
     if cs_ishandshakedone cs then handleControlMessage qv r m rnd w else handleSetupMessage qv r m w }"

text \<open>The loop of \<open>ServeCS\<close> on the bytes of the control stream: it ends at the first error, whatever it is. The second
  component is \<^const>\<open>None\<close> only if \<open>fuel\<close> ran out.\<close>

fun ServeCS :: "quicvarint \<Rightarrow> (nat \<Rightarrow> u32) \<Rightarrow> nat \<Rightarrow> ref \<Rightarrow> reader \<Rightarrow> world \<Rightarrow> (world \<times> goerror option) option" where
  "ServeCS qv rnds 0 r rd w = Some (w, None)"
| "ServeCS qv rnds (Suc fuel) r rd w = (case ParseMOQTMessage qv rd of
      None \<Rightarrow> None
    | Some (Inl err, _) \<Rightarrow> Some (w, Some err)
    | Some (Inr m, rd') \<Rightarrow> do {
        w \<leftarrow> ServeCS_message qv r m (rnds fuel) w;
        ServeCS qv rnds fuel r rd' w })"

section \<open>The invariant is kept\<close>

lemma safe_good: "safe w x \<Longrightarrow> x = Some w' \<Longrightarrow> good_step w w'"
  by (auto simp: safe_def)

text \<open>Operations that keep the invariant whenever they return.\<close>

definition keeps :: "world \<Rightarrow> world option \<Rightarrow> bool" where
  "keeps w x \<longleftrightarrow> (\<forall>w'. x = Some w' \<longrightarrow> good_step w w')"

lemma keepsI: "(\<And>w'. x = Some w' \<Longrightarrow> good_step w w') \<Longrightarrow> keeps w x"
  by (simp add: keeps_def)

lemma keepsD: "keeps w x \<Longrightarrow> x = Some w' \<Longrightarrow> good_step w w'"
  by (simp add: keeps_def)

lemma safe_keeps: "safe w x \<Longrightarrow> keeps w x"
  by (auto simp: safe_def keeps_def)

lemma keeps_None [simp]: "keeps w None"
  by (simp add: keeps_def)

lemma keeps_Some_refl: "world_ok w \<Longrightarrow> keeps w (Some w)"
  by (simp add: keeps_def good_step_refl)

lemma keeps_bind:
  assumes "keeps w x" and "\<And>w'. x = Some w' \<Longrightarrow> good_step w w' \<Longrightarrow> keeps w' (f w')"
  shows "keeps w (x \<bind> f)"
proof (rule keepsI)
  fix w' assume "x \<bind> f = Some w'"
  then obtain w1 where w1: "x = Some w1" "f w1 = Some w'" by (auto simp: bind_eq_Some_conv)
  have g: "good_step w w1" using assms(1) w1(1) by (rule keepsD)
  moreover have "good_step w1 w'" using assms(2) [OF w1(1) g] w1(2) by (rule keepsD)
  ultimately show "good_step w w'" by (rule good_step_trans)
qed

text \<open>Updates of fields of a session that the invariant leaves free.\<close>

lemma cancelFunc_safe: "world_ok w \<Longrightarrow> w_sess w r \<noteq> None \<Longrightarrow> safe w (cancelFunc r w)"
proof -
  assume ok: "world_ok w" and "w_sess w r \<noteq> None"
  then obtain s where s: "w_sess w r = Some s" by auto
  have "session_ok w r s" using ok s by (rule world_okD)
  then have "session_ok w r (s\<lparr>s_cancelled := True\<rparr>)" by (simp add: session_ok_def split: option.splits)
  then have "good_step w (put_sess r (s\<lparr>s_cancelled := True\<rparr>) w)"
    using ok s by (intro put_sess_good) (auto simp: sess_le_def session_RelayHandler_def)
  then show ?thesis using s by (auto simp: cancelFunc_def)
qed

lemma CloseWithError_safe: "world_ok w \<Longrightarrow> w_sess w r \<noteq> None \<Longrightarrow> safe w (CloseWithError r code msg w)"
  using CloseWithError_good [of w r code msg] by (auto simp: safe_def CloseWithError_def)

lemma Handler_HandleClose_keeps: "world_ok w \<Longrightarrow> keeps w (Handler_HandleClose r w)"
proof (rule keepsI)
  fix w' assume ok: "world_ok w" and c: "Handler_HandleClose r w = Some w'"
  then obtain s where s: "w_sess w r = Some s" by (auto simp: Handler_HandleClose_def bind_eq_Some_conv)
  show "good_step w w'"
  proof (cases "s_Handler s")
    case (HRelay rh)
    then have "is_relay w r" using s by (auto simp: is_relay_def)
    with HandleClose_safe [OF ok] c s HRelay show ?thesis by (auto simp: Handler_HandleClose_def dest: safe_good)
  qed (use c s ok in \<open>auto simp: Handler_HandleClose_def dest: PubHandler_good(2) SubHandler_good(3)\<close>)
qed

lemma sess_ne_mono: "world_le w w' \<Longrightarrow> w_sess w r \<noteq> None \<Longrightarrow> w_sess w' r \<noteq> None"
  unfolding world_le_def by (metis not_Some_eq)

lemma Close_keeps: "world_ok w \<Longrightarrow> keeps w (MOQTSession_Close r code msg w)"
  unfolding MOQTSession_Close_def
proof (intro keeps_bind)
  assume ok: "world_ok w"
  then show "keeps w (CloseWithError r code msg w)" by (auto intro!: keepsI dest: CloseWithError_good)
  fix w1 assume c1: "CloseWithError r code msg w = Some w1" and g1: "good_step w w1"
  have "w_sess w1 r \<noteq> None" using c1 by (auto simp: CloseWithError_def bind_eq_Some_conv)
  then show "keeps w1 (cancelFunc r w1)" using g1 by (auto intro: safe_keeps cancelFunc_safe)
  fix w2 assume "good_step w1 w2"
  then show "keeps w2 (Handler_HandleClose r w2)" by (auto intro: Handler_HandleClose_keeps)
next
  fix w1 w2 w3 assume g3: "good_step w2 w3"
  show "keeps w3 (removeSession r w3)"
    using removeSession_safe [OF good_stepD(1) [OF g3], of r]
    by (cases "w_sess w3 r") (auto simp: removeSession_def intro: safe_keeps)
qed

lemma Close_safe_relay:
  assumes ok: "world_ok w" and r: "is_relay w r"
  shows "safe w (MOQTSession_Close r code msg w)"
  unfolding MOQTSession_Close_def
proof (intro safe_bind)
  have ne: "w_sess v r \<noteq> None" if "is_relay v r" for v using that by (auto simp: is_relay_def)
  show "safe w (CloseWithError r code msg w)" using ok ne [OF r] by (rule CloseWithError_safe)
  fix w1 assume g1: "good_step w w1"
  have r1: "is_relay w1 r" using g1 r by (auto intro: is_relay_mono)
  show "safe w1 (cancelFunc r w1)" using g1 ne [OF r1] by (intro cancelFunc_safe) auto
  fix w2 assume g2: "good_step w1 w2"
  have r2: "is_relay w2 r" using g2 r1 by (auto intro: is_relay_mono)
  have "w_sess w2 r \<noteq> None" by (rule ne [OF r2])
  then show "safe w2 (Handler_HandleClose r w2)"
    using HandleClose_safe [OF good_stepD(1) [OF g2] r2] r2 by (auto simp: Handler_HandleClose_def is_relay_def)
  fix w3 assume g3: "good_step w2 w3"
  have "is_relay w3 r" using g3 r2 by (auto intro: is_relay_mono)
  then show "safe w3 (removeSession r w3)"
    using g3 by (auto simp: is_relay_def intro: removeSession_safe)
qed

lemma SetRemoteRole_good:
  assumes ok: "world_ok w" and cs: "has_cs w r" and c: "SetRemoteRole r role w = Some (e, w')"
  shows "good_step w w'"
proof -
  obtain s where s: "w_sess w r = Some s" "w' = put_sess r (s\<lparr>s_RemoteRole := role\<rparr>) w"
    using c by (auto simp: SetRemoteRole_def bind_eq_Some_conv)
  have "session_ok w r s" using ok s(1) by (rule world_okD)
  moreover have "s_CS s \<noteq> None" using cs s(1) by (auto simp: has_cs_def)
  ultimately have "session_ok w r (s\<lparr>s_RemoteRole := role\<rparr>)" by (auto simp: session_ok_def)
  with ok s show ?thesis by (auto intro!: put_sess_good simp: sess_le_def session_RelayHandler_def)
qed

lemma finish_handshake_good:
  assumes ok: "world_ok w" and s: "w_sess w r = Some s" "s_CS s = Some cs" "\<not> cs_ishandshakedone cs" and c: "finish_handshake r w = Some w'"
  shows "good_step w w'"
proof -
  have w': "w' = put_sess r (s\<lparr>s_CS := Some (cs\<lparr>cs_ishandshakedone := True\<rparr>), s_HandshakeDone := Suc (s_HandshakeDone s)\<rparr>) w"
    using c s by (simp add: finish_handshake_def split: if_splits)
  have "session_ok w r s" using ok s(1) by (rule world_okD)
  then have "session_ok w r (s\<lparr>s_CS := Some (cs\<lparr>cs_ishandshakedone := True\<rparr>), s_HandshakeDone := Suc (s_HandshakeDone s)\<rparr>)"
    using s by (simp add: session_ok_def)
  with ok s show ?thesis unfolding w' by (intro put_sess_good) (auto simp: sess_le_def session_RelayHandler_def)
qed

lemma set_CS_good:
  assumes ok: "world_ok w" and s: "w_sess w r = Some s" "s_CS s = None" and c: "set_CS r w = Some w'"
  shows "good_step w w'"
proof -
  let ?w = "put_sess r (s\<lparr>s_CS := Some NewControlStream\<rparr>) w"
  have "session_ok w r s" using ok s(1) by (rule world_okD)
  then have "session_ok w r (s\<lparr>s_CS := Some NewControlStream\<rparr>)"
    using s(2) by (simp add: session_ok_def NewControlStream_def)
  then have g: "good_step w ?w"
    using ok s by (intro put_sess_good) (auto simp: sess_le_def session_RelayHandler_def)
  moreover have "good_step ?w (spawn (TaskServeCS r) ?w)"
    using g by (intro spawn_good) (auto simp: has_cs_def)
  ultimately show ?thesis using c s(1) by (auto simp: set_CS_def intro: good_step_trans)
qed

lemma handleControlStream_keeps: "world_ok w \<Longrightarrow> keeps w (handleControlStream r evs w)"
proof (induction r evs w rule: handleControlStream.induct)
  case (4 r evs w)
  show ?case
  proof (cases "w_sess w r")
    case (Some s)
    show ?thesis
    proof (cases "s_CS s")
      case None
      have "keeps w (set_CS r w \<bind> handleControlStream r evs)"
      proof (rule keeps_bind)
        show "keeps w (set_CS r w)" using set_CS_good [OF 4(2) Some None] by (rule keepsI)
        show "keeps w' (handleControlStream r evs w')" if "set_CS r w = Some w'" "good_step w w'" for w'
          using 4(1) [OF Some _ that(1)] None that(2) by auto
      qed
      with Some None show ?thesis by simp
    qed (use Some 4(2) in \<open>simp add: Close_keeps\<close>)
  qed simp
qed (simp_all add: Close_keeps keeps_Some_refl)

lemma accept_role_keeps:
  assumes "world_ok w" and s: "w_sess w r = Some s" "s_CS s = Some cs" "\<not> cs_ishandshakedone cs" and "\<And>w'. good_step w w' \<Longrightarrow> keeps w' (after w')"
  shows "keeps w (accept_role r role after w)"
proof (rule keepsI)
  fix w' assume c: "accept_role r role after w = Some w'"
  obtain e w1 where w1: "SetRemoteRole r role w = Some (e, w1)"
    using c by (auto simp: accept_role_def bind_eq_Some_conv)
  have "has_cs w r" using world_okD(1) [OF assms(1) s(1)] s by (simp add: has_cs_def session_ok_def)
  with assms(1) have g1: "good_step w w1" using w1 by (rule SetRemoteRole_good)
  have s1: "w_sess w1 r = Some (s\<lparr>s_RemoteRole := role\<rparr>)" "s_CS (s\<lparr>s_RemoteRole := role\<rparr>) = Some cs"
    using w1 s by (auto simp: SetRemoteRole_def)
  show "good_step w w'"
  proof (cases e)
    case None
    with c w1 obtain w2 where w2: "finish_handshake r w1 = Some w2" "after w2 = Some w'"
      by (auto simp: accept_role_def bind_eq_Some_conv)
    have g2: "good_step w w2"
      using finish_handshake_good [OF good_stepD(1) [OF g1] s1 s(3) w2(1)] by (rule good_step_trans [OF g1])
    have "good_step w2 w'" using assms(5) [OF g2] w2(2) by (rule keepsD)
    with g2 show ?thesis by (rule good_step_trans)
  next
    case (Some x)
    with c w1 have "MOQTSession_Close r MOQERR_PROTOCOL_VIOLATION x w1 = Some w'"
      by (simp add: accept_role_def)
    then have "good_step w1 w'" using Close_keeps [OF good_stepD(1) [OF g1]] by (blast dest: keepsD)
    with g1 show ?thesis by (rule good_step_trans)
  qed
qed

lemma WriteControlMessage_keeps: "world_ok w \<Longrightarrow> keeps w (WriteControlMessage qv r msg w)"
  by (auto intro!: keepsI dest: WriteControlMessage_good)

lemma bind_sess_keeps: "(\<And>s. w_sess w r = Some s \<Longrightarrow> keeps w (f s)) \<Longrightarrow> keeps w (w_sess w r \<bind> f)"
  by (cases "w_sess w r") simp_all

lemma bind_opt_keeps: "(\<And>s. x = Some s \<Longrightarrow> keeps w (f s)) \<Longrightarrow> keeps w (x \<bind> f)"
  by (cases x) simp_all

lemma handleSetupMessage_keeps:
  assumes ok: "world_ok w" and s: "w_sess w r = Some s" "s_CS s = Some cs" "\<not> cs_ishandshakedone cs"
  shows "keeps w (handleSetupMessage qv r m w)"
proof (cases m)
  case (MsgClientSetup c)
  then show ?thesis
    using ok by (auto intro!: bind_opt_keeps Close_keeps accept_role_keeps [OF ok s] WriteControlMessage_keeps split: sum.splits)
next
  case (MsgServerSetup c)
  then show ?thesis
    using ok by (auto intro!: bind_opt_keeps Close_keeps accept_role_keeps [OF ok s] keeps_Some_refl split: sum.splits)
qed (simp_all add: ok keeps_Some_refl)

lemma handler_message_keeps:
  assumes codec: "varint_codec qv" and ok: "world_ok w" and s: "w_sess w r = Some s" and cs: "has_cs w r" and m: "message_ok m"
  shows "keeps w (handler_message qv r (s_Handler s) m rnd w)"
proof (cases "s_Handler s")
  case (HRelay rh)
  then have rel: "is_relay w r" using s by (auto simp: is_relay_def)
  note safes = varint_codec.HandleAnnounce_safe [OF codec ok rel cs] varint_codec.HandleSubscribe_safe [OF codec ok rel cs]
    varint_codec.HandleSubscribeOk_safe [OF codec ok rel] HandleUnsubscribe_safe [OF ok rel]
  show ?thesis
    using HRelay m safes
    by (cases m) (auto intro!: safe_keeps keeps_Some_refl [OF ok] simp: RelayHandler_HandleAnnounceOk_def simp del: message_ok.simps)
next
  case (HPub ph)
  then show ?thesis
    using ok by (cases m) (auto intro!: keepsI good_step_refl simp: PubHandler_HandleAnnounce_def
        dest: CloseWithError_good PubHandler_good(1))
next
  case (HSub sh)
  then show ?thesis
    using ok by (cases m) (auto intro!: keepsI good_step_refl dest: SubHandler_good)
qed

lemma ServeCS_message_keeps:
  assumes codec: "varint_codec qv" and ok: "world_ok w" and m: "message_ok m"
  shows "keeps w (ServeCS_message qv r m rnd w)"
proof (cases "has_cs w r")
  case True
  then show ?thesis
    using handler_message_keeps [OF codec ok _ True m] handleSetupMessage_keeps [OF ok]
    by (auto simp: ServeCS_message_def handleControlMessage_def intro!: bind_opt_keeps keeps_Some_refl [OF ok])
next
  case False
  then show ?thesis
    by (auto simp: ServeCS_message_def has_cs_def intro!: bind_opt_keeps)
qed

section \<open>A relay handles every message\<close>

lemma GetRoleParam_total:
  assumes "Parameters_ok ps"
  shows "\<exists>x. GetRoleParam ps = Some x"
  using role_param_int [OF assms] by (cases "Parameters_GetParameter ps ROLE_PARAM") (auto simp: GetRoleParam_def)

lemma setup_msg_ok: "fits62 role \<Longrightarrow> message_ok (server_setup_msg role)" "fits62 role \<Longrightarrow> message_ok (client_setup_msg role)"
proof -
  have "fits62 DRAFT_04" by (simp add: fits62_def DRAFT_04_def)
  then show "fits62 role \<Longrightarrow> message_ok (server_setup_msg role)" "fits62 role \<Longrightarrow> message_ok (client_setup_msg role)"
    by (simp_all add: server_setup_msg_def client_setup_msg_def NewServerSetup_def NewIntParameter_def Parameters_ok_def
        gomap_ok_def)
qed

lemma relay_role:
  "world_ok w \<Longrightarrow> is_relay w r \<Longrightarrow> w_sess w r = Some s \<Longrightarrow> s_LocalRole s = ROLE_RELAY"
  by (auto simp: is_relay_def session_ok_def dest!: world_okD(1))

lemma has_csD: "has_cs w r \<Longrightarrow> w_sess w r = Some s \<Longrightarrow> \<exists>cs. s_CS s = Some cs"
  by (auto simp: has_cs_def)

lemma accept_role_safe_relay:
  assumes ok: "world_ok w" and r: "is_relay w r" and cs: "has_cs w r"
    and s: "w_sess w r = Some s" "s_CS s = Some c" "\<not> cs_ishandshakedone c"
    and after: "\<And>w'. good_step w w' \<Longrightarrow> safe w' (after w')"
  shows "safe w (accept_role r role after w)"
proof -
  let ?w1 = "put_sess r (s\<lparr>s_RemoteRole := role\<rparr>) w"
  have e: "role_error (s_LocalRole s) role = None"
    using relay_role [OF ok r s(1)] by (simp add: role_error_def role_defs)
  then have S: "SetRemoteRole r role w = Some (None, ?w1)" using s by (simp add: SetRemoteRole_def)
  have g1: "good_step w ?w1" using ok cs S by (rule SetRemoteRole_good)
  have "session_ok w r s" using ok s(1) by (rule world_okD)
  then have "s_HandshakeDone s = 0" "s_HandshakeTaken s = 0" using s(2,3) by (simp_all add: session_ok_def)
  then obtain w2 where w2: "finish_handshake r ?w1 = Some w2" using s(2) by (auto simp: finish_handshake_def)
  have g2: "good_step w w2"
    using good_step_trans [OF g1 finish_handshake_good [OF good_stepD(1) [OF g1] _ _ s(3) w2]] s by simp
  have "safe w (after w2)" using g2 after [OF g2] by (rule safe_trans)
  then show ?thesis using S w2 by (simp add: accept_role_def)
qed

context varint_codec
begin

lemma setup_safe_relay:
  assumes ok: "world_ok w" and r: "is_relay w r" and cs: "has_cs w r" and m: "message_ok m"
    and s: "w_sess w r = Some s" "s_CS s = Some c" "\<not> cs_ishandshakedone c"
  shows "safe w (handleSetupMessage qv r m w)"
proof -
  have close: "safe w (MOQTSession_Close r code msg w)" for code msg using ok r by (rule Close_safe_relay)
  show ?thesis
  proof (cases m)
    case (MsgClientSetup x)
    then obtain role where "ClientSetup_GetRoleParam x = Some role"
      using m GetRoleParam_total by (auto simp: ClientSetup_GetRoleParam_def)
    moreover have "safe w (accept_role r v (\<lambda>w. w_sess w r \<bind> (\<lambda>s. WriteControlMessage qv r (server_setup_msg (s_LocalRole s)) w)) w)" for v
    proof (rule accept_role_safe_relay [OF ok r cs s])
      fix w' assume g: "good_step w w'"
      have r': "is_relay w' r" "has_cs w' r" using g r cs by (auto intro: is_relay_mono has_cs_mono)
      then obtain s' where s': "w_sess w' r = Some s'" by (auto simp: is_relay_def)
      have "s_LocalRole s' = ROLE_RELAY" using good_stepD(1) [OF g] r'(1) s' by (rule relay_role)
      then have "message_ok (server_setup_msg (s_LocalRole s'))" by (intro setup_msg_ok) (simp add: fits62_def role_defs)
      with WriteControlMessage_safe [OF good_stepD(1) [OF g] r'(2)] s'
      show "safe w' (w_sess w' r \<bind> (\<lambda>s. WriteControlMessage qv r (server_setup_msg (s_LocalRole s)) w'))" by simp
    qed
    ultimately show ?thesis using MsgClientSetup close by (cases role) simp_all
  next
    case (MsgServerSetup x)
    then obtain role where "ServerSetup_GetRoleParam x = Some role"
      using m GetRoleParam_total by (auto simp: ServerSetup_GetRoleParam_def)
    moreover have "safe w (accept_role r v Some w)" for v
      by (rule accept_role_safe_relay [OF ok r cs s]) (auto intro: good_step_refl)
    ultimately show ?thesis using MsgServerSetup close by (cases role) simp_all
  qed (use ok in \<open>auto intro: good_step_refl\<close>)
qed

lemma message_safe_relay:
  assumes ok: "world_ok w" and r: "is_relay w r" and cs: "has_cs w r" and m: "message_ok m"
  shows "safe w (ServeCS_message qv r m rnd w)"
proof -
  obtain s rh where s: "w_sess w r = Some s" "s_Handler s = HRelay rh" using r by (auto simp: is_relay_def)
  obtain c where c: "s_CS s = Some c" using has_csD [OF cs s(1)] by blast
  have h: "safe w (handler_message qv r (HRelay rh) m rnd w)"
    using m HandleAnnounce_safe [OF ok r cs] HandleSubscribe_safe [OF ok r cs] HandleSubscribeOk_safe [OF ok r]
      HandleUnsubscribe_safe [OF ok r] good_step_refl [OF ok]
    by (cases m) (auto simp: RelayHandler_HandleAnnounceOk_def simp del: message_ok.simps)
  show ?thesis
  proof (cases "cs_ishandshakedone c")
    case True
    with s c h ok show ?thesis by (auto simp: ServeCS_message_def handleControlMessage_def intro: good_step_refl)
  next
    case False
    with s c setup_safe_relay [OF ok r cs m s(1) c] show ?thesis by (simp add: ServeCS_message_def)
  qed
qed

end

section \<open>The process\<close>

lemma new_session_good:
  assumes ok: "world_ok w" and h: "CreateNewHandler role = Inr handler"
  shows "good_step w ((put_sess (w_next_sess w) (new_session sid role mode handler) w)\<lparr>w_next_sess := Suc (w_next_sess w)\<rparr>)"
proof -
  let ?r = "w_next_sess w" and ?s = "new_session sid role mode handler"
  let ?w = "(put_sess ?r ?s w)\<lparr>w_next_sess := Suc ?r\<rparr>"
  have fresh: "w_sess w ?r = None" using ok by (simp add: world_ok_def)
  then have wle: "world_le w ?w" by (auto simp: world_le_def)
  have "handler_ok w ?r role handler"
    using h by (auto simp: CreateNewHandler_def NewRelayHandler_def NewPubHandler_def NewSubHandler_def role_defs
        split: if_splits) (auto simp: NewStreamsMap_def)
  then have new: "session_ok w ?r ?s" by (simp add: session_ok_def new_session_def)
  have "session_ok ?w q t" if "w_sess ?w q = Some t" for q t
  proof (rule session_ok_mono [OF wle])
    show "session_ok w q t" using that new ok by (auto split: if_splits dest: world_okD)
  qed
  moreover have "stream_ok ?w rs'" if "w_strm ?w q = Some rs'" for q rs'
    using that ok by (auto intro: stream_ok_mono [OF wle] dest: world_okD)
  moreover have "sm_ok ?w" using ok by (auto intro: sm_ok_mono [OF wle] dest: world_okD)
  moreover have "task_ok ?w t" if "t \<in> set (w_tasks ?w)" for t
    using that ok by (auto intro: task_ok_mono [OF wle] dest: world_okD)
  ultimately show ?thesis using wle ok by (simp add: good_step_def world_ok_def)
qed

lemma CreateMOQSession_good:
  assumes ok: "world_ok w" and c: "CreateMOQSession sid role mode w = Some (res, w')"
  shows "good_step w w'"
proof (cases "CreateNewHandler role")
  case (Inl e)
  with c ok show ?thesis by (auto simp: CreateMOQSession_def intro: good_step_refl)
next
  case (Inr handler)
  let ?w = "(put_sess (w_next_sess w) (new_session sid role mode handler) w)\<lparr>w_next_sess := Suc (w_next_sess w)\<rparr>"
  have g: "good_step w ?w" using ok Inr by (rule new_session_good)
  have "safe ?w (addSession (w_next_sess w) ?w)"
    using g by (intro addSession_safe [where s = "new_session sid role mode handler"]) auto
  then have "good_step ?w w'" using c Inr by (auto simp: CreateMOQSession_def safe_def Let_def)
  with g show ?thesis by (rule good_step_trans)
qed

lemma ServeMOQ_keeps: "world_ok w \<Longrightarrow> keeps w (ServeMOQ r w)"
proof -
  assume ok: "world_ok w"
  have sp: "good_step v (spawn t v)" if "world_ok v" "w_sess v r = Some s" "t \<in> {TaskHandleControlStream r, TaskInitiateHandshake r, TaskDoHandle r}" for v t s
  proof -
    have "has_id v r (s_Id s)" using that(2) by (simp add: has_id_def)
    with that show ?thesis by (intro spawn_good) auto
  qed
  have "good_step w (spawn (TaskDoHandle r) (spawn t w))" if "w_sess w r = Some s" "t \<in> {TaskHandleControlStream r, TaskInitiateHandshake r}" for t s
  proof -
    have "good_step w (spawn t w)" using sp ok that by blast
    moreover from this have "good_step (spawn t w) (spawn (TaskDoHandle r) (spawn t w))"
      using that(1) by (intro sp) auto
    ultimately show ?thesis by (rule good_step_trans)
  qed
  moreover have "good_step w (spawn (TaskDoHandle r) w)" if "w_sess w r = Some s" for s
    using ok that by (intro sp) auto
  ultimately show ?thesis by (auto simp: ServeMOQ_def keeps_def bind_eq_Some_conv)
qed

lemma InitiateHandshake_good:
  assumes ok: "world_ok w" and s: "w_sess w r = Some s" "s_CS s = None" and c: "InitiateHandshake qv r opened w = Some w'"
  shows "good_step w w'"
proof (cases opened)
  case (Some e)
  with c Close_keeps [OF ok] show ?thesis by (auto simp: InitiateHandshake_def dest: keepsD)
next
  case None
  then obtain w1 and s1 :: MOQTSession where w1: "set_CS r w = Some w1" "WriteControlMessage qv r (client_setup_msg (s_LocalRole s1)) w1 = Some w'"
    using c by (auto simp: InitiateHandshake_def bind_eq_Some_conv)
  have g: "good_step w w1" using ok s w1(1) by (rule set_CS_good)
  moreover have "good_step w1 w'" using good_stepD(1) [OF g] w1(2) by (rule WriteControlMessage_good)
  ultimately show ?thesis by (rule good_step_trans)
qed

lemma drop_task_good:
  assumes ok: "world_ok w" and t: "set ts \<subseteq> set (w_tasks w)"
  shows "good_step w (w\<lparr>w_tasks := ts\<rparr>)"
proof -
  let ?w = "w\<lparr>w_tasks := ts\<rparr>"
  have wle: "world_le w ?w" by (simp add: world_le_def)
  have "session_ok ?w q s" if "w_sess ?w q = Some s" for q s
    using that ok by (auto intro: session_ok_mono [OF wle] dest: world_okD)
  moreover have "stream_ok ?w rs'" if "w_strm ?w q = Some rs'" for q rs'
    using that ok by (auto intro: stream_ok_mono [OF wle] dest: world_okD)
  moreover have "sm_ok ?w" using ok by (auto intro: sm_ok_mono [OF wle] dest: world_okD)
  moreover have "task_ok ?w t'" if "t' \<in> set (w_tasks ?w)" for t'
    using that t ok by (auto intro: task_ok_mono [OF wle] dest: world_okD)
  ultimately show ?thesis using wle ok by (simp add: good_step_def world_ok_def)
qed

lemma cache_strm_good:
  assumes ok: "world_ok w" and p: "w_strm w p = Some rs"
  shows "good_step w (put_strm p (RelayStream_cacheObject g i pl rs) w)"
proof (rule put_strm_good [OF ok p])
  show "strm_le rs (RelayStream_cacheObject g i pl rs)" by (simp add: strm_le_def)
  have "stream_ok w rs" using ok p by (rule world_okD)
  then show "stream_ok w (RelayStream_cacheObject g i pl rs)" by (simp add: stream_ok_def)
qed

lemma deliver_good: "world_ok w \<Longrightarrow> SubStream_ProcessObjects c st w = Some w' \<Longrightarrow> good_step w w'"
  by (auto simp: SubStream_ProcessObjects_def bind_eq_Some_conv split: if_splits intro!: schans_good)

text \<open>\<open><-session.HandshakeDone\<close> in \<open>Dial\<close>: blocks, here \<^const>\<open>None\<close>, while the channel is empty.\<close>

definition receive_HandshakeDone :: "ref \<Rightarrow> world \<Rightarrow> world option" where
  "receive_HandshakeDone r w = do {
     s \<leftarrow> w_sess w r;
     if s_HandshakeDone s \<le> s_HandshakeTaken s then None
     else Some (put_sess r (s\<lparr>s_HandshakeTaken := Suc (s_HandshakeTaken s)\<rparr>) w) }"

lemma receive_good: "world_ok w \<Longrightarrow> receive_HandshakeDone r w = Some w' \<Longrightarrow> good_step w w'"
proof -
  assume ok: "world_ok w" and c: "receive_HandshakeDone r w = Some w'"
  then obtain s where s: "w_sess w r = Some s" "s_HandshakeTaken s < s_HandshakeDone s"
      "w' = put_sess r (s\<lparr>s_HandshakeTaken := Suc (s_HandshakeTaken s)\<rparr>) w"
    by (auto simp: receive_HandshakeDone_def bind_eq_Some_conv split: if_splits)
  have "session_ok w r s" using ok s(1) by (rule world_okD)
  then have "session_ok w r (s\<lparr>s_HandshakeTaken := Suc (s_HandshakeTaken s)\<rparr>)"
    using s(2) by (auto simp: session_ok_def handshake_ok_def split: option.splits)
  with ok s show ?thesis by (auto intro!: put_sess_good simp: sess_le_def session_RelayHandler_def)
qed

text \<open>One step of the process. A session is served once, right after it was created (listener and dialer), so a client
  initiates the handshake before it has a control stream; messages are what the parser returns (\<open>message_ok\<close>).\<close>

inductive moq_step :: "quicvarint \<Rightarrow> world \<Rightarrow> world \<Rightarrow> bool" for qv :: quicvarint where
  step_create: "CreateMOQSession sid role mode w = Some (Inr r, w1) \<Longrightarrow> ServeMOQ r w1 = Some w' \<Longrightarrow> moq_step qv w w'"
| step_accept_cs: "handleControlStream r [ev] w = Some w' \<Longrightarrow> moq_step qv w w'"
| step_initiate: "w_sess w r = Some s \<Longrightarrow> s_CS s = None \<Longrightarrow> InitiateHandshake qv r opened w = Some w' \<Longrightarrow> moq_step qv w w'"
| step_message: "message_ok m \<Longrightarrow> ServeCS_message qv r m rnd w = Some w' \<Longrightarrow> moq_step qv w w'"
| step_write: "w_tasks w = ts @ TaskWrite r m # us \<Longrightarrow>
    WriteControlMessage qv r m (w\<lparr>w_tasks := ts @ us\<rparr>) = Some w' \<Longrightarrow> moq_step qv w w'"
| step_cache: "w_strm w p = Some rs \<Longrightarrow> moq_step qv w (put_strm p (RelayStream_cacheObject g i pl rs) w)"
| step_uni_relay: "RelayHandler_accept qv r rd w = Some w' \<Longrightarrow> moq_step qv w w'"
| step_uni_sub: "SubHandler_accept qv r rd w = Some w' \<Longrightarrow> moq_step qv w w'"
| step_deliver: "SubStream_ProcessObjects c st w = Some w' \<Longrightarrow> moq_step qv w w'"
| step_announce: "PubHandler_SendAnnounce qv r ns w = Some w' \<Longrightarrow> moq_step qv w w'"
| step_subscribe: "SubHandler_Subscribe qv r ns name alias rnd w = Some w' \<Longrightarrow> moq_step qv w w'"
| step_app_message: "WriteControlMessage qv r m w = Some w' \<Longrightarrow> moq_step qv w w'"
| step_close: "MOQTSession_Close r code msg w = Some w' \<Longrightarrow> moq_step qv w w'"
| step_dialed: "receive_HandshakeDone r w = Some w' \<Longrightarrow> moq_step qv w w'"

lemma moq_step_good:
  assumes codec: "varint_codec qv" and st: "moq_step qv w w'" and ok: "world_ok w"
  shows "good_step w w'"
  using st
proof cases
  case (step_create sid role mode r w1)
  have g: "good_step w w1" using ok step_create(1) by (rule CreateMOQSession_good)
  moreover have "good_step w1 w'" using ServeMOQ_keeps [OF good_stepD(1) [OF g]] step_create(2) by (rule keepsD)
  ultimately show ?thesis by (rule good_step_trans)
next
  case (step_write ts r m us)
  have g: "good_step w (w\<lparr>w_tasks := ts @ us\<rparr>)" using ok step_write(1) by (intro drop_task_good) auto
  moreover have "good_step (w\<lparr>w_tasks := ts @ us\<rparr>) w'"
    using good_stepD(1) [OF g] step_write(2) by (rule WriteControlMessage_good)
  ultimately show ?thesis by (rule good_step_trans)
next
  case (step_message m r rnd)
  then show ?thesis using ServeCS_message_keeps [OF codec ok] by (blast dest: keepsD)
next
  case (step_accept_cs r ev)
  then show ?thesis using handleControlStream_keeps [OF ok] by (blast dest: keepsD)
next
  case (step_close r code msg)
  then show ?thesis using Close_keeps [OF ok] by (blast dest: keepsD)
next
  case (step_cache p rs g i pl)
  then show ?thesis using cache_strm_good [OF ok] by simp
qed (use ok in \<open>auto intro: InitiateHandshake_good receive_good RelayHandler_accept_good SubHandler_accept_good deliver_good
    PubHandler_SendAnnounce_good SubHandler_Subscribe_good WriteControlMessage_good\<close>)

definition moq_init :: "world \<Rightarrow> bool" where
  "moq_init w \<longleftrightarrow> w = world_start"

sublocale varint_codec \<subseteq> process: invariant_system moq_init "moq_step qv" world_ok
proof unfold_locales
  show "world_ok w" if "moq_init w" for w using that world_start_ok by (simp add: moq_init_def)
  show "world_ok w'" if "world_ok w" "moq_step qv w w'" for w w'
    using moq_step_good [OF varint_codec_axioms that(2,1)] by auto
qed

context varint_codec
begin

lemmas process_invariant = process.inv_reach

end

section \<open>What closing does\<close>

definition has_left :: "string \<Rightarrow> world \<Rightarrow> ref \<Rightarrow> bool" where
  "has_left sid w p \<longleftrightarrow> (\<forall>rs. w_strm w p = Some rs \<longrightarrow> gomap_get (rs_Subscribers rs) sid = None)"

lemma leave_each_result:
  "leave_each sid ps w = Some w' \<Longrightarrow> w_sess w' = w_sess w \<and> w_sm w' = w_sm w \<and> w_tasks w' = w_tasks w"
  by (induction ps arbitrary: w) (fastforce simp: bind_eq_Some_conv)+

lemma leave_each_left:
  "leave_each sid ps w = Some w' \<Longrightarrow> p \<in> set ps \<or> has_left sid w p \<Longrightarrow> has_left sid w' p"
proof (induction ps arbitrary: w)
  case (Cons q ps)
  then obtain rs where rs: "w_strm w q = Some rs" by (auto simp: bind_eq_Some_conv)
  let ?w = "put_strm q (RelayStream_RemoveSubscriber sid rs) w"
  have c: "leave_each sid ps ?w = Some w'" using Cons.prems(1) rs by simp
  have "p \<in> set ps \<or> has_left sid ?w p"
    using Cons.prems(2) by (auto simp: has_left_def RelayStream_RemoveSubscriber_def gomap_simps)
  then show ?case using Cons.IH [OF c] by blast
qed simp

text \<open>Closing a relay's session.\<close>

lemma Close_relay_result:
  assumes s: "w_sess w r = Some s" "s_Handler s = HRelay rh" and c: "MOQTSession_Close r code msg w = Some w'"
  shows "w_sess w' r = Some (s\<lparr>s_closes := s_closes s @ [(code, msg)], s_cancelled := True\<rparr>)"
    and "gomap_get (sm_sessions (w_sm w')) (s_Id s) = None"
    and "sm_namespaces (w_sm w') = sm_namespaces (w_sm w)"
    and "sent w' q = sent w q"
    and "(k, p) \<in> set (streams (rh_SubscribedStreams rh)) \<Longrightarrow> w_strm w' p = Some rs \<Longrightarrow>
      gomap_get (rs_Subscribers rs) (s_Id s) = None"
proof -
  let ?s = "s\<lparr>s_closes := s_closes s @ [(code, msg)], s_cancelled := True\<rparr>"
  let ?w = "put_sess r ?s (put_sess r (s\<lparr>s_closes := s_closes s @ [(code, msg)]\<rparr>) w)"
  obtain w3 where w3: "leave_each (s_Id s) (map snd (streams (rh_SubscribedStreams rh))) ?w = Some w3"
    and w': "removeSession r w3 = Some w'"
    using c s by (auto simp: MOQTSession_Close_def CloseWithError_def cancelFunc_def Handler_HandleClose_def
        RelayHandler_HandleClose_def session_RelayHandler_def bind_eq_Some_conv)
  note L = leave_each_result [OF w3]
  have s3: "w_sess w3 r = Some ?s" using L by simp
  then have W: "w' = w3\<lparr>w_sm := (w_sm w3)\<lparr>sm_sessions := gomap_del (s_Id s) (sm_sessions (w_sm w3))\<rparr>\<rparr>"
    using w' by (simp add: removeSession_def)
  show "w_sess w' r = Some ?s" using s3 by (simp add: W)
  show "gomap_get (sm_sessions (w_sm w')) (s_Id s) = None" by (simp add: W gomap_simps)
  show "sm_namespaces (w_sm w') = sm_namespaces (w_sm w)" using L by (simp add: W)
  show "sent w' q = sent w q" using L s by (simp add: W sent_def)
  show "gomap_get (rs_Subscribers rs) (s_Id s) = None"
    if "(k, p) \<in> set (streams (rh_SubscribedStreams rh))" "w_strm w' p = Some rs"
  proof -
    have "p \<in> set (map snd (streams (rh_SubscribedStreams rh)))" using that(1) by force
    then have "has_left (s_Id s) w3 p" using leave_each_left [OF w3] by blast
    then show ?thesis using that(2) by (simp add: W has_left_def)
  qed
qed

section \<open>Properties\<close>

lemma relay_refs:
  assumes "world_ok w" and "w_sess w r = Some s" and "s_LocalRole s = ROLE_RELAY"
  obtains rh where "s_Handler s = HRelay rh" and "is_relay w r"
proof (cases "s_Handler s")
  case (HRelay rh)
  with assms that show ?thesis by (auto simp: is_relay_def)
qed (use world_okD(1) [OF assms(1,2)] assms(3) in \<open>auto simp: session_ok_def role_defs\<close>)

text \<open>A relay process with one server session whose control stream has just been accepted.\<close>

definition relay_started :: world where
  "relay_started = \<lparr>w_sess = [0 \<mapsto> (new_session ''r'' ROLE_RELAY SERVER_MODE (HRelay NewRelayHandler))\<lparr>s_CS := Some NewControlStream\<rparr>],
     w_strm = (\<lambda>_. None), w_next_sess = 1, w_next_strm = 0, w_sm = \<lparr>sm_sessions = [(''r'', 0)], sm_namespaces = []\<rparr>,
     w_schans = [], w_tasks = [TaskHandleControlStream 0, TaskDoHandle 0, TaskServeCS 0]\<rparr>"

lemma relay_started_reachable: "reach moq_init (moq_step qv) relay_started"
proof -
  let ?s = "new_session ''r'' ROLE_RELAY SERVER_MODE (HRelay NewRelayHandler)"
  let ?w1 = "\<lparr>w_sess = [0 \<mapsto> ?s], w_strm = (\<lambda>_. None), w_next_sess = 1, w_next_strm = 0,
     w_sm = \<lparr>sm_sessions = [(''r'', 0)], sm_namespaces = []\<rparr>, w_schans = [], w_tasks = []\<rparr>"
  let ?w2 = "?w1\<lparr>w_tasks := [TaskHandleControlStream 0, TaskDoHandle 0]\<rparr>"
  have "CreateMOQSession ''r'' ROLE_RELAY SERVER_MODE world_start = Some (Inr 0, ?w1)"
    by (simp add: CreateMOQSession_def CreateNewHandler_def addSession_def world_start_def NewSessionManager_def
        put_sess_def new_session_def gomap_set_def)
  moreover have "ServeMOQ 0 ?w1 = Some ?w2" by (simp add: ServeMOQ_def spawn_def new_session_def)
  ultimately have "moq_step qv world_start ?w2" by (rule step_create)
  then have "reach moq_init (moq_step qv) ?w2"
    by (intro reach_step [OF reach_init]) (auto simp: moq_init_def)
  moreover have "handleControlStream 0 [AcceptStream] ?w2 = Some relay_started"
    by (simp add: set_CS_def relay_started_def new_session_def put_sess_def spawn_def)
  then have "moq_step qv ?w2 relay_started" by (rule step_accept_cs)
  ultimately show ?thesis by (rule reach_step)
qed

lemma relay_started_session:
  "w_sess relay_started 0 = Some ((new_session ''r'' ROLE_RELAY SERVER_MODE (HRelay NewRelayHandler))\<lparr>s_CS := Some NewControlStream\<rparr>)"
  by (simp add: relay_started_def)

text \<open>Property C2 (the invariant of the process). In every state that a process can reach, with any number of sessions of any
  role, any messages from the peers and any interleaving, the heaps are consistent: tables are stored under the keys
  they should be, every reference points to something of the right kind, every registered subscriber and publisher has a
  control stream to write to, the cache counters are exact. And a session has finished its handshake, counted by all the values ever sent to
  \<open>HandshakeDone\<close>, exactly once if its control stream says so and never otherwise, even when \<open>Dial\<close> has emptied the channel.\<close>

theorem reachable_process_consistent:
  assumes "varint_codec qv" and "reach moq_init (moq_step qv) w"
  shows "world_ok w \<and> (\<forall>r s. w_sess w r = Some s \<longrightarrow>
    s_HandshakeDone s = (case s_CS s of None \<Rightarrow> 0 | Some cs \<Rightarrow> if cs_ishandshakedone cs then 1 else 0) \<and> s_HandshakeTaken s \<le> s_HandshakeDone s)"
proof -
  have ok: "world_ok w" using assms by (rule varint_codec.process_invariant)
  show ?thesis using ok world_okD(1) [OF ok] by (fastforce simp: session_ok_def handshake_ok_def split: option.splits)
qed

theorem reachable_process_consistent_witness:
  "reach moq_init (moq_step rfc9000) relay_started \<and> world_ok relay_started \<and>
    (\<exists>s. w_sess relay_started 0 = Some s \<and> s_HandshakeDone s = 0)"
  using relay_started_reachable reachable_process_consistent [OF rfc9000_codec relay_started_reachable] relay_started_session
  by (auto simp: new_session_def NewControlStream_def)

text \<open>Property C1 (no message can stop a relay). In every reachable state, whatever message the parser returns from the
  control stream of a session of a relay, before or after the handshake, the relay handles it: no nil dereference, no failed type
  assertion, no integer that cannot be encoded, no send that blocks for ever. The state after it is reachable again.\<close>

theorem relay_handles_every_message:
  assumes "varint_codec qv" and "reach moq_init (moq_step qv) w"
    and "w_sess w r = Some s" and "s_LocalRole s = ROLE_RELAY" and "s_CS s = Some cs"
    and "ParseMOQTMessage qv rd = Some (Inr m, rd')"
  shows "\<exists>w'. ServeCS_message qv r m rnd w = Some w' \<and> reach moq_init (moq_step qv) w'"
proof -
  have ok: "world_ok w" using assms(1,2) by (rule varint_codec.process_invariant)
  obtain rh where rel: "is_relay w r" using relay_refs [OF ok assms(3,4)] by blast
  have cs: "has_cs w r" using assms(3,5) by (auto simp: has_cs_def)
  have m: "message_ok m" using varint_codec.ParseMOQTMessage_ok [OF assms(1,6)] .
  obtain w' where w': "ServeCS_message qv r m rnd w = Some w'"
    using varint_codec.message_safe_relay [OF assms(1) ok rel cs m, of rnd] by (auto simp: safe_def)
  moreover have "moq_step qv w w'" using m w' by (rule step_message)
  ultimately show ?thesis using assms(2) by (blast intro: reach_step)
qed

theorem relay_handles_every_message_witness:
  "\<exists>m rd' w'. ParseMOQTMessage rfc9000 \<lparr>rd_data = [10, 7], rd_end = EOF\<rparr> = Some (Inr m, rd') \<and>
    ServeCS_message rfc9000 0 m 5 relay_started = Some w' \<and> reach moq_init (moq_step rfc9000) w'"
proof -
  have p: "ParseMOQTMessage rfc9000 \<lparr>rd_data = [10, 7], rd_end = EOF\<rparr>
     = Some (Inr (MsgUnsubcribe \<lparr>SubscriptionID = 7\<rparr>), \<lparr>rd_data = [], rd_end = EOF\<rparr>)"
    by (simp add: ParseMOQTMessage_def rfc9000_eval mtype_defs parse_unchecked_def Unsubcribe_Parse_def
        varint_step_def zero_defs)
  have "s_LocalRole ((new_session ''r'' ROLE_RELAY SERVER_MODE (HRelay NewRelayHandler))\<lparr>s_CS := Some NewControlStream\<rparr>) = ROLE_RELAY"
    "s_CS ((new_session ''r'' ROLE_RELAY SERVER_MODE (HRelay NewRelayHandler))\<lparr>s_CS := Some NewControlStream\<rparr>) = Some NewControlStream"
    by (simp_all add: new_session_def)
  from relay_handles_every_message [OF rfc9000_codec relay_started_reachable relay_started_session this p, of 5] p
  show ?thesis by blast
qed

subsection \<open>The loop over a control stream\<close>

text \<open>The messages that the parser returns one after the other, and the position it has then reached; and the messages handled one after
  the other, with the random numbers that the rounds of \<open>ServeCS\<close> use.\<close>

inductive parses :: "quicvarint \<Rightarrow> reader \<Rightarrow> MOQTMessage list \<Rightarrow> reader \<Rightarrow> bool" for qv :: quicvarint where
  parses_Nil: "parses qv rd [] rd"
| parses_Cons: "ParseMOQTMessage qv rd = Some (Inr m, rd1) \<Longrightarrow> parses qv rd1 ms rd2 \<Longrightarrow> parses qv rd (m # ms) rd2"

fun handle_all :: "quicvarint \<Rightarrow> (nat \<Rightarrow> u32) \<Rightarrow> nat \<Rightarrow> ref \<Rightarrow> MOQTMessage list \<Rightarrow> world \<Rightarrow> world option" where
  "handle_all qv rnds n r [] w = Some w"
| "handle_all qv rnds n r (m # ms) w = do {
     w \<leftarrow> ServeCS_message qv r m (rnds (n - 1)) w;
     handle_all qv rnds (n - 1) r ms w }"

context varint_codec
begin

lemma ServeCS_relay:
  assumes "reach moq_init (moq_step qv) w" and "is_relay w r" and "has_cs w r" and "length (rd_data rd) < fuel"
  shows "\<exists>ms rd' w'. parses qv rd ms rd' \<and> length ms < fuel \<and> handle_all qv rnds fuel r ms w = Some w' \<and> reach moq_init (moq_step qv) w' \<and>
    (case ParseMOQTMessage qv rd' of
       None \<Rightarrow> ServeCS qv rnds fuel r rd w = None
     | Some (Inl err, _) \<Rightarrow> ServeCS qv rnds fuel r rd w = Some (w', Some err)
     | Some (Inr _, _) \<Rightarrow> False)"
  using assms
proof (induction fuel arbitrary: rd w)
  case (Suc fuel)
  show ?case
  proof (cases "\<exists>m rd1. ParseMOQTMessage qv rd = Some (Inr m, rd1)")
    case False
    then show ?thesis using Suc.prems(1)
      by (intro exI [of _ "[]"] exI [of _ rd] exI [of _ w]) (auto intro: parses_Nil split: option.splits sum.splits)
  next
    case True
    then obtain m rd1 where p: "ParseMOQTMessage qv rd = Some (Inr m, rd1)" by blast
    note pr = ParseMOQTMessage_progress [OF p]
    obtain w1 where w1: "ServeCS_message qv r m (rnds fuel) w = Some w1" "good_step w w1"
      using message_safe_relay [OF process_invariant [OF Suc.prems(1)] Suc.prems(2,3) ParseMOQTMessage_ok [OF p], of "rnds fuel"]
      by (auto simp: safe_def)
    have "reach moq_init (moq_step qv) w1" using Suc.prems(1) step_message [OF ParseMOQTMessage_ok [OF p] w1(1)] by (rule reach_step)
    moreover have "is_relay w1 r" "has_cs w1 r" using Suc.prems(2,3) w1(2) by (auto intro: is_relay_mono has_cs_mono)
    moreover have "length (rd_data rd1) < fuel" using Suc.prems(4) pr by simp
    ultimately obtain ms rd' w' where "parses qv rd1 ms rd'" "length ms < fuel" "handle_all qv rnds fuel r ms w1 = Some w'" "reach moq_init (moq_step qv) w'"
        "case ParseMOQTMessage qv rd' of None \<Rightarrow> ServeCS qv rnds fuel r rd1 w1 = None
          | Some (Inl err, _) \<Rightarrow> ServeCS qv rnds fuel r rd1 w1 = Some (w', Some err) | Some (Inr _, _) \<Rightarrow> False"
      using Suc.IH by blast
    moreover have "ServeCS qv rnds (Suc fuel) r rd w = ServeCS qv rnds fuel r rd1 w1" using p w1(1) by simp
    ultimately show ?thesis using p w1(1)
      by (intro exI [of _ "m # ms"] exI [of _ rd'] exI [of _ w']) (simp only: parses_Cons handle_all.simps diff_Suc_1 bind.bind_lunit simp_thms list.size Suc_less_eq add_0_right add_Suc_right)
  qed
qed simp

lemma ServeCS_messages:
  assumes "list_all typed_ok ms" and "enc_all (MOQTMessage_GetBytes qv) ms = Some b" and "length ms < n"
  shows "ServeCS qv rnds n r \<lparr>rd_data = b, rd_end = e\<rparr> w = map_option (\<lambda>w. (w, Some e)) (handle_all qv rnds n r (map wire_view ms) w)"
  using assms
proof (induction ms arbitrary: b n w)
  case Nil
  then show ?case by (cases n) (auto simp: ParseMOQTMessage_at_end)
next
  case (Cons m ms)
  then obtain n' where n: "n = Suc n'" "length ms < n'" by (cases n) auto
  obtain b1 b2 where b: "MOQTMessage_GetBytes qv m = Some b1" "enc_all (MOQTMessage_GetBytes qv) ms = Some b2" "b = b1 @ b2"
    using Cons.prems(2) by (auto simp: bind_eq_Some_conv)
  have "ParseMOQTMessage qv \<lparr>rd_data = b, rd_end = e\<rparr> = Some (Inr (wire_view m), \<lparr>rd_data = b2, rd_end = e\<rparr>)"
    using msgs.dec_enc [where m = m and b = b1 and rest = b2 and r = "\<lparr>rd_data = [], rd_end = e\<rparr>"] Cons.prems(1) b by simp
  then show ?case using Cons.IH [OF _ b(2) n(2)] Cons.prems(1) n(1)
    by (cases "ServeCS_message qv r (wire_view m) (rnds n') w") simp_all
qed

end

text \<open>Property C13 (a control stream carries its messages). Any sequence of well-formed messages other than SUBSCRIBE_DONE can be written one after
  the other. When these bytes are all that arrives on a control stream, the loop of \<open>ServeCS\<close> does exactly what handling these messages one after the other, as
  the parser sees them (\<open>wire_view\<close>), does, and then ends with the end of the stream: no message is lost, split, joined with another or taken for one
  of another kind, in whatever state the session is.\<close>

theorem control_stream_carries_messages:
  assumes "varint_codec qv" and "list_all typed_ok ms"
  shows "\<exists>b. enc_all (MOQTMessage_GetBytes qv) ms = Some b \<and> (\<forall>rnds n r e w. length ms < n \<longrightarrow>
    ServeCS qv rnds n r \<lparr>rd_data = b, rd_end = e\<rparr> w = map_option (\<lambda>w. (w, Some e)) (handle_all qv rnds n r (map wire_view ms) w))"
  using varint_codec.message_stream_trip [OF assms] varint_codec.ServeCS_messages [OF assms] by blast

theorem control_stream_carries_messages_witness:
  "\<exists>b. enc_all (MOQTMessage_GetBytes rfc9000) [client_setup_msg ROLE_PUBLISHER, MsgUnsubcribe \<lparr>SubscriptionID = 77\<rparr>] = Some b \<and>
    ServeCS rfc9000 (\<lambda>_. 1) 3 0 \<lparr>rd_data = b, rd_end = EOF\<rparr> relay_started =
      map_option (\<lambda>w. (w, Some EOF)) (handle_all rfc9000 (\<lambda>_. 1) 3 0 [client_setup_msg ROLE_PUBLISHER, MsgUnsubcribe \<lparr>SubscriptionID = 77\<rparr>] relay_started)"
proof -
  have ok: "list_all typed_ok [client_setup_msg ROLE_PUBLISHER, MsgUnsubcribe \<lparr>SubscriptionID = 77\<rparr>]"
    using setup_msg_ok(2) [of ROLE_PUBLISHER] by (simp add: typed_ok_def client_setup_msg_def fits62_def role_defs)
  have v: "map wire_view [client_setup_msg ROLE_PUBLISHER, MsgUnsubcribe \<lparr>SubscriptionID = 77\<rparr>] =
      [client_setup_msg ROLE_PUBLISHER, MsgUnsubcribe \<lparr>SubscriptionID = 77\<rparr>]"
    by (simp add: client_setup_msg_def)
  have l: "length [client_setup_msg ROLE_PUBLISHER, MsgUnsubcribe \<lparr>SubscriptionID = 77\<rparr>] < 3" by simp
  show ?thesis using control_stream_carries_messages [OF rfc9000_codec ok] l unfolding v by blast
qed

text \<open>Property C20 (a relay serves any bytes to the end). Whatever finite bytes arrive on the control stream of a relay's
  session in a reachable state, the loop of \<open>ServeCS\<close> takes messages \<open>ms\<close> off the stream, one round for each and no more rounds than bytes, handles all of them without a
  panic, and gets to a position where the parser returns no message. If it returns an error there, the loop ends with that error and the state is reachable. The only
  other case is that the parser panics at this very position, which the allocation of a length that the peer chose can do.\<close>

theorem relay_serves_any_bytes:
  assumes "varint_codec qv" and "reach moq_init (moq_step qv) w"
    and "w_sess w r = Some s" and "s_LocalRole s = ROLE_RELAY" and "s_CS s = Some cs"
  shows "\<exists>ms rd' w'. parses qv rd ms rd' \<and> length ms \<le> length (rd_data rd) \<and> handle_all qv rnds (Suc (length (rd_data rd))) r ms w = Some w' \<and> reach moq_init (moq_step qv) w' \<and>
    (case ParseMOQTMessage qv rd' of
       None \<Rightarrow> ServeCS qv rnds (Suc (length (rd_data rd))) r rd w = None
     | Some (Inl err, _) \<Rightarrow> ServeCS qv rnds (Suc (length (rd_data rd))) r rd w = Some (w', Some err)
     | Some (Inr _, _) \<Rightarrow> False)"
proof -
  have ok: "world_ok w" using assms(1,2) by (rule varint_codec.process_invariant)
  obtain rh where rel: "is_relay w r" using relay_refs [OF ok assms(3,4)] by blast
  have cs: "has_cs w r" using assms(3,5) by (auto simp: has_cs_def)
  show ?thesis using varint_codec.ServeCS_relay [OF assms(1,2) rel cs, of rd "Suc (length (rd_data rd))"] by (simp add: less_Suc_eq_le del: ServeCS.simps)
qed

text \<open>An UNSUBSCRIBE, and then a SUBSCRIBE of which only the type arrives.\<close>

theorem relay_serves_any_bytes_witness:
  "\<exists>ms rd' w'. parses rfc9000 \<lparr>rd_data = [10, 7, 3], rd_end = EOF\<rparr> ms rd' \<and>
    handle_all rfc9000 (\<lambda>_. 1) 4 0 ms relay_started = Some w' \<and> reach moq_init (moq_step rfc9000) w' \<and>
    (case ParseMOQTMessage rfc9000 rd' of
       None \<Rightarrow> ServeCS rfc9000 (\<lambda>_. 1) 4 0 \<lparr>rd_data = [10, 7, 3], rd_end = EOF\<rparr> relay_started = None
     | Some (Inl err, _) \<Rightarrow> ServeCS rfc9000 (\<lambda>_. 1) 4 0 \<lparr>rd_data = [10, 7, 3], rd_end = EOF\<rparr> relay_started = Some (w', Some err)
     | Some (Inr _, _) \<Rightarrow> False)"
proof -
  have l: "s_LocalRole ((new_session ''r'' ROLE_RELAY SERVER_MODE (HRelay NewRelayHandler))\<lparr>s_CS := Some NewControlStream\<rparr>) = ROLE_RELAY"
    "s_CS ((new_session ''r'' ROLE_RELAY SERVER_MODE (HRelay NewRelayHandler))\<lparr>s_CS := Some NewControlStream\<rparr>) = Some NewControlStream"
    by (simp_all add: new_session_def)
  have "Suc (length (rd_data \<lparr>rd_data = [10, 7, 3 :: byte], rd_end = EOF\<rparr>)) = 4" by simp
  with relay_serves_any_bytes [OF rfc9000_codec relay_started_reachable relay_started_session l,
      where rnds = "\<lambda>_. 1" and rd = "\<lparr>rd_data = [10, 7, 3], rd_end = EOF\<rparr>"] show ?thesis by (simp only:) blast
qed

subsection \<open>The handshake\<close>

lemma local_role_fits: "world_ok w \<Longrightarrow> w_sess w r = Some s \<Longrightarrow> fits62 (s_LocalRole s)"
  by (cases "s_Handler s") (auto simp: session_ok_def fits62_def role_defs dest!: world_okD(1))

lemma setup_msg_role:
  "client_setup_msg role = MsgClientSetup c \<Longrightarrow> CheckDraftSupport c \<and> ClientSetup_GetRoleParam c = Some (Inr role)"
  "server_setup_msg role = MsgServerSetup v \<Longrightarrow> SelectedVersion v = DRAFT_04 \<and> ServerSetup_GetRoleParam v = Some (Inr role)"
  by (auto simp: client_setup_msg_def server_setup_msg_def CheckDraftSupport_def ClientSetup_GetRoleParam_def
      ServerSetup_GetRoleParam_def GetRoleParam_def NewServerSetup_def NewIntParameter_def)

text \<open>What \<open>accept_role\<close> does to a session whose handshake is open, when the roles go together.\<close>

lemma accept_role_result:
  assumes ok: "world_ok w" and s: "w_sess w r = Some s" "s_CS s = Some c" "\<not> cs_ishandshakedone c"
    and e: "role_error (s_LocalRole s) role = None"
  shows "accept_role r role after w = after (put_sess r (s\<lparr>s_RemoteRole := role, s_CS := Some (c\<lparr>cs_ishandshakedone := True\<rparr>),
    s_HandshakeDone := 1\<rparr>) w)"
proof -
  have "session_ok w r s" using ok s(1) by (rule world_okD)
  then have "s_HandshakeDone s = 0" "s_HandshakeTaken s = 0" using s(2,3) by (simp_all add: session_ok_def)
  then show ?thesis using s e by (simp add: accept_role_def SetRemoteRole_def finish_handshake_def put_sess_def)
qed

lemma accepted_role_ok:
  assumes ok: "world_ok w" and s: "w_sess w r = Some s" "s_CS s = Some c" "\<not> cs_ishandshakedone c"
  shows "world_ok (put_sess r (s\<lparr>s_RemoteRole := role, s_CS := Some (c\<lparr>cs_ishandshakedone := True\<rparr>), s_HandshakeDone := 1\<rparr>) w)"
proof -
  have "session_ok w r s" using ok s(1) by (rule world_okD)
  then have "session_ok w r (s\<lparr>s_RemoteRole := role, s_CS := Some (c\<lparr>cs_ishandshakedone := True\<rparr>), s_HandshakeDone := 1\<rparr>)"
    using s by (simp add: session_ok_def)
  with ok s have "good_step w (put_sess r (s\<lparr>s_RemoteRole := role, s_CS := Some (c\<lparr>cs_ishandshakedone := True\<rparr>), s_HandshakeDone := 1\<rparr>) w)"
    by (intro put_sess_good) (auto simp: sess_le_def session_RelayHandler_def)
  then show ?thesis by auto
qed

text \<open>A session whose handshake is finished, once, with the role of the other side; the value is still in the channel.\<close>

definition handshaken :: "world \<Rightarrow> ref \<Rightarrow> u64 \<Rightarrow> bool" where
  "handshaken w r role \<longleftrightarrow> (\<exists>s c. w_sess w r = Some s \<and> s_RemoteRole s = role \<and> s_CS s = Some c \<and>
     cs_ishandshakedone c \<and> s_HandshakeDone s = 1 \<and> s_HandshakeTaken s = 0)"

context varint_codec
begin

lemma server_accepts:
  assumes ok: "world_ok w" and s: "w_sess w r = Some s" "s_CS s = Some c" "\<not> cs_ishandshakedone c"
    and e: "role_error (s_LocalRole s) role = None"
  shows "\<exists>w'. ServeCS_message qv r (client_setup_msg role) rnd w = Some w' \<and> handshaken w' r role \<and>
    sent w' r = sent w r @ [server_setup_msg (s_LocalRole s)]"
proof -
  let ?s = "s\<lparr>s_RemoteRole := role, s_CS := Some (c\<lparr>cs_ishandshakedone := True\<rparr>), s_HandshakeDone := 1\<rparr>"
  let ?w = "put_sess r ?s w"
  have ok1: "world_ok ?w" using ok s by (rule accepted_role_ok)
  have "message_ok (server_setup_msg (s_LocalRole s))" using local_role_fits [OF ok s(1)] by (rule setup_msg_ok)
  moreover have "has_cs ?w r" by (simp add: has_cs_def)
  ultimately obtain w' where w': "WriteControlMessage qv r (server_setup_msg (s_LocalRole s)) ?w = Some w'"
    using WriteControlMessage_safe [OF ok1] by (auto simp: safe_def)
  have "ServeCS_message qv r (client_setup_msg role) rnd w = Some w'"
    using accept_role_result [OF ok s e] w' s setup_msg_role(1) [of role]
    by (cases "client_setup_msg role") (auto simp: ServeCS_message_def client_setup_msg_def)
  moreover have "s_HandshakeTaken s = 0" using world_okD(1) [OF ok s(1)] s(2,3) by (simp add: session_ok_def)
  then have "handshaken w' r role"
    using w' s(1,2) by (auto simp: WriteControlMessage_def handshaken_def bind_eq_Some_conv split: if_splits)
  moreover have "sent ?w r = sent w r" using s by (simp add: sent_def)
  ultimately show ?thesis using WriteControlMessage_result(5) [OF ok1 w', of r] by simp
qed

lemma client_accepts:
  assumes ok: "world_ok w" and s: "w_sess w r = Some s" "s_CS s = Some c" "\<not> cs_ishandshakedone c"
    and e: "role_error (s_LocalRole s) role = None"
  shows "\<exists>w'. ServeCS_message qv r (server_setup_msg role) rnd w = Some w' \<and> handshaken w' r role"
proof -
  let ?s = "s\<lparr>s_RemoteRole := role, s_CS := Some (c\<lparr>cs_ishandshakedone := True\<rparr>), s_HandshakeDone := 1\<rparr>"
  have "ServeCS_message qv r (server_setup_msg role) rnd w = Some (put_sess r ?s w)"
    using accept_role_result [OF ok s e] s setup_msg_role(2) [of role]
    by (cases "server_setup_msg role") (auto simp: ServeCS_message_def server_setup_msg_def)
  moreover have "s_HandshakeTaken s = 0" using world_okD(1) [OF ok s(1)] s(2,3) by (simp add: session_ok_def)
  then have "handshaken (put_sess r ?s w) r role" by (simp add: handshaken_def)
  ultimately show ?thesis by blast
qed

lemma client_starts:
  assumes ok: "world_ok w" and s: "w_sess w r = Some s" "s_CS s = None"
  shows "\<exists>w' c. InitiateHandshake qv r None w = Some w' \<and> world_ok w' \<and> w_sess w' r = Some (s\<lparr>s_CS := Some c\<rparr>) \<and>
    \<not> cs_ishandshakedone c \<and> sent w' r = [client_setup_msg (s_LocalRole s)]"
proof -
  let ?w = "spawn (TaskServeCS r) (put_sess r (s\<lparr>s_CS := Some NewControlStream\<rparr>) w)"
  have set: "set_CS r w = Some ?w" using s by (simp add: set_CS_def)
  have g: "good_step w ?w" using ok s set by (rule set_CS_good)
  have m: "message_ok (client_setup_msg (s_LocalRole s))" using local_role_fits [OF ok s(1)] by (rule setup_msg_ok)
  have "has_cs ?w r" by (simp add: has_cs_def)
  with m obtain w' where w': "WriteControlMessage qv r (client_setup_msg (s_LocalRole s)) ?w = Some w'" "good_step ?w w'"
    using WriteControlMessage_safe [OF good_stepD(1) [OF g]] by (auto simp: safe_def)
  have "InitiateHandshake qv r None w = Some w'" using set w'(1) by (simp add: InitiateHandshake_def)
  moreover have "\<exists>c. w_sess w' r = Some (s\<lparr>s_CS := Some c\<rparr>) \<and> \<not> cs_ishandshakedone c"
    using w'(1) by (auto simp: WriteControlMessage_def bind_eq_Some_conv NewControlStream_def split: if_splits)
  moreover have "sent w' r = [client_setup_msg (s_LocalRole s)]"
    using WriteControlMessage_result(5) [OF good_stepD(1) [OF g] w'(1), of r] by (simp add: sent_def NewControlStream_def)
  ultimately show ?thesis using w'(2) by blast
qed

end

text \<open>Property C10 (the handshake). A client session in one process and a server session in another, neither with a control
  stream yet, with roles that go together. The client opens the control stream and sends CLIENT_SETUP; the server accepts the
  stream and answers that message with SERVER_SETUP; when the client has handled the answer, the handshake is finished on
  both sides, exactly once, and each side knows the role of the other. Both messages survive the wire.\<close>

theorem handshake_completes:
  assumes "varint_codec qv" and "world_ok wc" and "w_sess wc c = Some sc" and "s_CS sc = None"
    and "world_ok wv" and "w_sess wv v = Some sv" and "s_CS sv = None"
    and "role_error (s_LocalRole sc) (s_LocalRole sv) = None" and "role_error (s_LocalRole sv) (s_LocalRole sc) = None"
  shows "\<exists>wc1 wc2 wv1 wv2. InitiateHandshake qv c None wc = Some wc1 \<and> sent wc1 c = [client_setup_msg (s_LocalRole sc)] \<and>
    handleControlStream v [AcceptStream] wv = Some wv1 \<and>
    ServeCS_message qv v (client_setup_msg (s_LocalRole sc)) rnd wv1 = Some wv2 \<and>
    sent wv2 v = [server_setup_msg (s_LocalRole sv)] \<and>
    ServeCS_message qv c (server_setup_msg (s_LocalRole sv)) rnd' wc1 = Some wc2 \<and>
    handshaken wv2 v (s_LocalRole sc) \<and> handshaken wc2 c (s_LocalRole sv) \<and>
    faithful (client_setup_msg (s_LocalRole sc)) \<and> faithful (server_setup_msg (s_LocalRole sv))"
proof -
  obtain wc1 cc where wc1: "InitiateHandshake qv c None wc = Some wc1" "world_ok wc1" "w_sess wc1 c = Some (sc\<lparr>s_CS := Some cc\<rparr>)"
    "\<not> cs_ishandshakedone cc" "sent wc1 c = [client_setup_msg (s_LocalRole sc)]"
    using varint_codec.client_starts [OF assms(1-4)] by blast
  let ?wv1 = "spawn (TaskServeCS v) (put_sess v (sv\<lparr>s_CS := Some NewControlStream\<rparr>) wv)"
  have set: "set_CS v wv = Some ?wv1" using assms(6) by (simp add: set_CS_def)
  have wv1: "handleControlStream v [AcceptStream] wv = Some ?wv1" using assms(6,7) set by simp
  have okv: "world_ok ?wv1" using set_CS_good [OF assms(5-7) set] by auto
  have e1: "role_error (s_LocalRole (sv\<lparr>s_CS := Some NewControlStream\<rparr>)) (s_LocalRole sc) = None" using assms(9) by simp
  have sv1: "w_sess ?wv1 v = Some (sv\<lparr>s_CS := Some NewControlStream\<rparr>)" "s_CS (sv\<lparr>s_CS := Some NewControlStream\<rparr>) = Some NewControlStream"
    "\<not> cs_ishandshakedone NewControlStream" "sent ?wv1 v = []"
    by (simp_all add: NewControlStream_def sent_def)
  obtain wv2 where wv2: "ServeCS_message qv v (client_setup_msg (s_LocalRole sc)) rnd ?wv1 = Some wv2" "handshaken wv2 v (s_LocalRole sc)"
    "sent wv2 v = [server_setup_msg (s_LocalRole sv)]"
    using varint_codec.server_accepts [OF assms(1) okv sv1(1-3) e1, of rnd] sv1(4) by auto
  have e2: "role_error (s_LocalRole (sc\<lparr>s_CS := Some cc\<rparr>)) (s_LocalRole sv) = None" using assms(8) by simp
  obtain wc2 where wc2: "ServeCS_message qv c (server_setup_msg (s_LocalRole sv)) rnd' wc1 = Some wc2" "handshaken wc2 c (s_LocalRole sv)"
    using varint_codec.client_accepts [OF assms(1) wc1(2,3) _ wc1(4) e2, of rnd'] by auto
  have "faithful (client_setup_msg (s_LocalRole sc))" "faithful (server_setup_msg (s_LocalRole sv))"
    using setup_msg_ok local_role_fits [OF assms(2,3)] local_role_fits [OF assms(5,6)]
    by (auto simp: faithful_def client_setup_msg_def server_setup_msg_def)
  with wc1 wv1 wv2 wc2 show ?thesis by blast
qed

definition fresh_process :: "u64 \<Rightarrow> u8 \<Rightarrow> Handler \<Rightarrow> world" where
  "fresh_process role mode h =
    (put_sess 0 (new_session ''x'' role mode h) world_start)\<lparr>w_next_sess := 1\<rparr>"

lemma fresh_process_ok:
  assumes "CreateNewHandler role = Inr h"
  shows "world_ok (fresh_process role mode h)"
  using new_session_good [OF world_start_ok assms, of "''x''" mode] by (auto simp: fresh_process_def world_start_def)

theorem handshake_completes_witness:
  "\<exists>wc1 wc2 wv1 wv2.
    InitiateHandshake rfc9000 0 None (fresh_process ROLE_PUBLISHER CLIENT_MODE (HPub NewPubHandler)) = Some wc1 \<and>
    handleControlStream 0 [AcceptStream] (fresh_process ROLE_RELAY SERVER_MODE (HRelay NewRelayHandler)) = Some wv1 \<and>
    ServeCS_message rfc9000 0 (client_setup_msg ROLE_PUBLISHER) 1 wv1 = Some wv2 \<and>
    ServeCS_message rfc9000 0 (server_setup_msg ROLE_RELAY) 2 wc1 = Some wc2 \<and>
    handshaken wv2 0 ROLE_PUBLISHER \<and> handshaken wc2 0 ROLE_RELAY"
proof -
  let ?sc = "new_session ''x'' ROLE_PUBLISHER CLIENT_MODE (HPub NewPubHandler)"
  let ?sv = "new_session ''x'' ROLE_RELAY SERVER_MODE (HRelay NewRelayHandler)"
  have ok: "world_ok (fresh_process ROLE_PUBLISHER CLIENT_MODE (HPub NewPubHandler))"
    "world_ok (fresh_process ROLE_RELAY SERVER_MODE (HRelay NewRelayHandler))"
    by (rule fresh_process_ok, simp add: CreateNewHandler_def role_defs)+
  have s: "w_sess (fresh_process ROLE_PUBLISHER CLIENT_MODE (HPub NewPubHandler)) 0 = Some ?sc" "s_CS ?sc = None"
    "w_sess (fresh_process ROLE_RELAY SERVER_MODE (HRelay NewRelayHandler)) 0 = Some ?sv" "s_CS ?sv = None"
    "role_error (s_LocalRole ?sc) (s_LocalRole ?sv) = None" "role_error (s_LocalRole ?sv) (s_LocalRole ?sc) = None"
    by (simp_all add: fresh_process_def new_session_def role_error_def role_defs)
  have l: "s_LocalRole ?sc = ROLE_PUBLISHER" "s_LocalRole ?sv = ROLE_RELAY" by (simp_all add: new_session_def)
  from handshake_completes [OF rfc9000_codec ok(1) s(1,2) ok(2) s(3-6), of 1 2]
  show ?thesis unfolding l by blast
qed

text \<open>Property C24 (a handshake that is refused). A CLIENT_SETUP that does not offer draft 4, or has no role, does not
  finish the handshake of a relay's session: the connection is closed with an internal error, the context is cancelled, the
  session is no longer listed, and nothing has been written to any control stream.\<close>

theorem handshake_refused:
  assumes "varint_codec qv" and "world_ok w" and "w_sess w r = Some s" and "s_LocalRole s = ROLE_RELAY"
    and "s_CS s = Some c" and "\<not> cs_ishandshakedone c" and "message_ok (MsgClientSetup m)"
    and "DRAFT_04 \<notin> set (SupportedVersions m) \<or> Parameters_GetParameter (csetup_Params m) ROLE_PARAM = None"
  shows "\<exists>w' reason. ServeCS_message qv r (MsgClientSetup m) rnd w = Some w' \<and>
    w_sess w' r = Some (s\<lparr>s_closes := s_closes s @ [(MOQERR_INTERNAL_ERROR, reason)], s_cancelled := True\<rparr>) \<and>
    gomap_get (sm_sessions (w_sm w')) (s_Id s) = None \<and> (\<forall>q. sent w' q = sent w q)"
proof -
  obtain rh where rh: "s_Handler s = HRelay rh" "is_relay w r" using relay_refs [OF assms(2-4)] by blast
  have d: "CheckDraftSupport_loop vs \<longleftrightarrow> DRAFT_04 \<in> set vs" for vs by (induction vs) auto
  have "\<exists>reason. ServeCS_message qv r (MsgClientSetup m) rnd w = MOQTSession_Close r MOQERR_INTERNAL_ERROR reason w"
  proof (cases "DRAFT_04 \<in> set (SupportedVersions m)")
    case True
    with assms(3,5,6,8) show ?thesis
      by (auto simp: ServeCS_message_def CheckDraftSupport_def d ClientSetup_GetRoleParam_def GetRoleParam_def)
  next
    case False
    with assms(3,5,6) show ?thesis by (auto simp: ServeCS_message_def CheckDraftSupport_def d)
  qed
  then obtain reason where t: "ServeCS_message qv r (MsgClientSetup m) rnd w = MOQTSession_Close r MOQERR_INTERNAL_ERROR reason w" by blast
  obtain w' where w': "MOQTSession_Close r MOQERR_INTERNAL_ERROR reason w = Some w'"
    using Close_safe_relay [OF assms(2) rh(2)] by (auto simp: safe_def)
  note R = Close_relay_result [OF assms(3) rh(1) w']
  show ?thesis using t w' R(1,2,4) by (intro exI [of _ w'] exI [of _ reason]) simp
qed

theorem handshake_refused_witness:
  "\<exists>w' reason. ServeCS_message rfc9000 0 (MsgClientSetup zero_ClientSetup) 1 relay_started = Some w' \<and>
    gomap_get (sm_sessions (w_sm w')) ''r'' = None"
proof -
  let ?s = "(new_session ''r'' ROLE_RELAY SERVER_MODE (HRelay NewRelayHandler))\<lparr>s_CS := Some NewControlStream\<rparr>"
  have ok: "world_ok relay_started" using rfc.process_invariant [OF relay_started_reachable] .
  have s: "s_LocalRole ?s = ROLE_RELAY" "s_CS ?s = Some NewControlStream" "\<not> cs_ishandshakedone NewControlStream"
    "message_ok (MsgClientSetup zero_ClientSetup)" "s_Id ?s = ''r''"
    by (simp_all add: new_session_def NewControlStream_def zero_ClientSetup_def)
  have "DRAFT_04 \<notin> set (SupportedVersions zero_ClientSetup) \<or> Parameters_GetParameter (csetup_Params zero_ClientSetup) ROLE_PARAM = None"
    by (simp add: zero_ClientSetup_def)
  from handshake_refused [OF rfc9000_codec ok relay_started_session s(1-4) this, of 1] s(5) show ?thesis by auto
qed

subsection \<open>Closing\<close>

text \<open>Property C23 (closing a subscriber's session). Closing a session of a relay always returns. The connection is closed
  with the given code, the session is no longer listed, and it is no longer a subscriber of any stream it had subscribed to, so
  no further stream is forwarded to it.\<close>

theorem close_removes_subscriptions:
  assumes "world_ok w" and "w_sess w r = Some s" and "s_Handler s = HRelay rh"
  shows "\<exists>w'. MOQTSession_Close r code msg w = Some w' \<and> world_ok w' \<and>
    w_sess w' r = Some (s\<lparr>s_closes := s_closes s @ [(code, msg)], s_cancelled := True\<rparr>) \<and>
    gomap_get (sm_sessions (w_sm w')) (s_Id s) = None \<and>
    (\<forall>(k, p) \<in> set (streams (rh_SubscribedStreams rh)). has_left (s_Id s) w' p)"
proof -
  have "is_relay w r" using assms(2,3) by (auto simp: is_relay_def)
  then obtain w' where w': "MOQTSession_Close r code msg w = Some w'" "good_step w w'"
    using Close_safe_relay [OF assms(1)] unfolding safe_def by blast
  note R = Close_relay_result [OF assms(2,3) w'(1)]
  show ?thesis using w' R(1,2,5) by (auto simp: has_left_def)
qed

theorem close_removes_subscriptions_witness:
  "\<exists>w' k p. MOQTSession_Close 1 0 ''bye'' sample_forwarding = Some w' \<and> (k, p) \<in> {(7, 0)} \<and> has_left ''b'' w' p"
proof -
  obtain s rh where s: "w_sess sample_forwarding 1 = Some s" "s_Handler s = HRelay rh" "s_Id s = ''b''"
    "(7, 0) \<in> set (streams (rh_SubscribedStreams rh))"
  proof -
    let ?s = "sample_session ''b'' ROLE_SUBSCRIBER"
    let ?rh = "NewRelayHandler\<lparr>rh_SubscribedStreams := AddStream 7 0 NewStreamsMap\<rparr>"
    have "w_sess sample_forwarding 1 = Some (?s\<lparr>s_Handler := HRelay ?rh\<rparr>)"
      using sample_serving_refs(1,3)
      by (simp add: sample_forwarding_def register_def get_relay_def session_RelayHandler_def put_relay_def sample_session_def
          NewRelayHandler_def)
    then show ?thesis
      using that by (simp add: sample_session_def AddStream_def NewStreamsMap_def gomap_set_def)
  qed
  from close_removes_subscriptions [OF sample_forwarding_reg(2) s(1,2), of 0 "''bye''"] s(3,4) show ?thesis by auto
qed

lemma new_track_stays:
  assumes "world_ok w" and "good_step w w1" and "get_relay w r = Some rh" and "get_relay w1 r = Some rh" and "new_track w r m"
  shows "new_track w1 r m"
proof -
  have old: "StreamIDGetStream (strm_StreamID w) (rh_IncomingStreams rh) (Subscribe_GetStreamID m) = None"
    using assms(3,5) by (simp add: new_track_def)
  have h: "handler_ok w r ROLE_RELAY (HRelay rh)" using assms(1,3) by (rule get_relay_ok)
  then have sm: "StreamsMap_ok (rh_IncomingStreams rh)" by simp
  have "StreamIDGetStream (strm_StreamID w1) (rh_IncomingStreams rh) (Subscribe_GetStreamID m) \<noteq> Some p" for p
  proof
    assume p: "StreamIDGetStream (strm_StreamID w1) (rh_IncomingStreams rh) (Subscribe_GetStreamID m) = Some p"
    obtain k where k: "SubIDGetStream (rh_IncomingStreams rh) k = Some p" "strm_StreamID w1 p = Subscribe_GetStreamID m"
      using smap.stream_of_sound [OF sm p] by blast
    then obtain rs where "w_strm w p = Some rs" using h by (auto simp: SubIDGetStream_def is_strm_def dest!: map_of_SomeD)
    then have "strm_StreamID w1 p = strm_StreamID w p"
      using good_stepD(2) [OF assms(2)] by (fastforce simp: world_le_def strm_le_def strm_StreamID_def RelayStream_GetStreamID_def)
    with smap.stream_of_complete [OF old k(1)] k(2) show False by simp
  qed
  then have "StreamIDGetStream (strm_StreamID w1) (rh_IncomingStreams rh) (Subscribe_GetStreamID m) = None"
    by (cases "StreamIDGetStream (strm_StreamID w1) (rh_IncomingStreams rh) (Subscribe_GetStreamID m)") auto
  with assms(4) show ?thesis by (auto simp: new_track_def)
qed

text \<open>A closed publisher keeps its namespace. Nothing removes the namespaces of a session that is closed. The
  relay goes on sending the subscriptions for them to the control stream of the closed session.\<close>

lemma closed_publisher_keeps_namespace:
  assumes "varint_codec qv" and "world_ok w" and "getPublisher ns w = Some r" and "w_sess w r = Some s"
    and "sub \<noteq> r" and "is_relay w sub" and "has_cs w sub"
    and "message_ok (MsgSubscribe m)" and "sub_TrackNameSpace m = ns" and "new_track w r m"
  shows "\<exists>w1 w2. MOQTSession_Close r code msg w = Some w1 \<and>
    (\<exists>s1. w_sess w1 r = Some s1 \<and> s_cancelled s1) \<and> getPublisher ns w1 = Some r \<and>
    RelayHandler_HandleSubscribe qv sub m rnd w1 = Some w2 \<and>
    sent w2 r = sent w r @ [MsgSubscribe (m\<lparr>sub_SubscribeID := ucast rnd\<rparr>)]"
proof -
  have pub: "is_relay w r" "has_cs w r" using getPublisher_ok [OF assms(2,3)] by auto
  obtain rh where rh: "s_Handler s = HRelay rh" using pub(1) assms(4) by (auto simp: is_relay_def)
  obtain w1 where w1: "MOQTSession_Close r code msg w = Some w1" "good_step w w1"
    using Close_safe_relay [OF assms(2) pub(1)] by (auto simp: safe_def)
  note R = Close_relay_result [OF assms(4) rh w1(1)]
  have ok1: "world_ok w1" and p1: "is_relay w1 r" "has_cs w1 r" "is_relay w1 sub" "has_cs w1 sub"
    using w1(2) pub assms(6,7) by (auto intro: is_relay_mono has_cs_mono)
  have ns1: "getPublisher ns w1 = Some r" using assms(3) R(3) by (simp add: getPublisher_def)
  have "get_relay w1 r = Some rh" "get_relay w r = Some rh" using R(1) assms(4) rh by (simp_all add: get_relay_Some)
  then have n1: "new_track w1 r m" using new_track_stays [OF assms(2) w1(2)] assms(10) by blast
  obtain w0 where w0: "RelayHandler_SendSubscribe qv r m rnd w1 = Some (w_next_strm w1, w0)"
    "RelayHandler_GetObjectStream qv r m rnd w1 = Some (False, w_next_strm w1, w0)" "good_step w1 w0"
    using varint_codec.request_upstream [OF assms(1) ok1 p1(1,2) assms(8) n1, of rnd] by blast
  note S = SendSubscribe_result [OF ok1 w0(1)]
  have "safe w0 (register sub (sub_SubscribeID m) (w_next_strm w1) w0)"
    using w0(3) p1(3,4) S(2) assms(8) by (intro register_safe) (auto intro: is_relay_mono has_cs_mono)
  then obtain w2 where w2: "register sub (sub_SubscribeID m) (w_next_strm w1) w0 = Some w2" by (auto simp: safe_def)
  have "RelayHandler_HandleSubscribe qv sub m rnd w1 = Some w2"
    using ns1 assms(9) w0(2) w2 by (simp add: RelayHandler_HandleSubscribe_def HandleSubscribe_register_def)
  moreover have "sent w2 r = sent w0 r" using register_result [OF w2] by blast
  then have "sent w2 r = sent w r @ [MsgSubscribe (m\<lparr>sub_SubscribeID := ucast rnd\<rparr>)]" using S(6) [of r] R(4) [of r] by simp
  ultimately show ?thesis using w1(1) R(1) ns1 by auto
qed

theorem closed_publisher_keeps_namespace_witness:
  "\<exists>w1 w2. MOQTSession_Close 0 0 ''bye'' sample_world = Some w1 \<and> getPublisher ''live'' w1 = Some 0 \<and>
    RelayHandler_HandleSubscribe rfc9000 1 sample_sub 3 w1 = Some w2 \<and>
    sent w2 0 = sent sample_world 0 @ [MsgSubscribe (sample_sub\<lparr>sub_SubscribeID := ucast (3 :: u32)\<rparr>)]"
proof -
  have s: "w_sess sample_world 0 = Some (sample_session ''a'' ROLE_PUBLISHER)" by (simp add: sample_world_def)
  have n: "sub_TrackNameSpace sample_sub = ''live''" by (simp add: sample_sub_def)
  have p: "getPublisher ''live'' sample_world = Some 0" using sample_subscription(1) n by simp
  have "(1::nat) \<noteq> 0" by simp
  from closed_publisher_keeps_namespace [OF rfc9000_codec sample_world_ok p s this sample_world_refs(3,4) sample_sub_ok n
      sample_subscription(2), of 0 "''bye''" 3]
  show ?thesis by blast
qed

end
