(* ===== verification/Endpoints.thy ===== *)
theory Endpoints
  imports Control_Stream Web_Transport
begin

text \<open>
  Where sessions come from: the listener (\<open>src/moqt/moqlistener.go\<close>), the dialer (\<open>src/moqt/moqtdialer.go\<close>) and the interface
  for applications (\<open>src/moqt/api\<close>). What loading certificates and opening or dialing a QUIC connection return is an argument, \<open>network\<close>.
  What a connection does during the upgrade to WebTransport, and the ID that \<open>uuid.New\<close> gives its session, are part of the
  connection (\<open>incoming\<close>).

  \<open>Listen\<close> accepts one connection after the other: it creates sessions for plain MOQ connections itself and runs
  \<open>UpgradeWTS\<close> itself, while the handler of an upgraded connection is a goroutine of its own (\<open>l_handlers\<close>, run by
  \<open>webTransportHandler\<close>). \<open>Dial\<close> is in two parts: what it does before it waits, and the \<open>select\<close>.

  Shown here: the listener serves every connection and only takes steps of the process of \<open>Control_Stream\<close>, unless an upgrade
  does not return, and then it accepts nobody any more; a dialer whose peer answers gets a session with the right handler,
  and a dialer that gives up leaves its session behind.
\<close>

section \<open>Options\<close>

text \<open>The part of \<open>quic.Config\<close> that the programs set; durations are in nanoseconds.\<close>

record quic_Config =
  EnableDatagrams :: bool
  MaxIncomingUniStreams :: int
  MaxIdleTimeout :: int
  KeepAlivePeriod :: int

record ListenerOptions =
  lo_ListenAddr :: string
  lo_CertPath :: string
  lo_KeyPath :: string
  lo_ALPNs :: "string list"
  lo_QuicConfig :: quic_Config

record MOQTListener =
  ml_Options :: ListenerOptions
  ml_Role :: u64

record DialerOptions =
  do_QuicConfig :: quic_Config
  do_ALPNs :: "string list"
  do_InsecureSkipVerify :: bool

record MOQTDialer =
  md_Options :: DialerOptions
  md_Role :: u64

text \<open>What the outside answers: loading the certificates, \<open>quic.ListenAddr\<close> and \<open>quic.DialAddr\<close>, each with the error it returns.\<close>

record network =
  LoadX509KeyPair :: "string \<Rightarrow> string \<Rightarrow> goerror option"
  ListenAddr :: "string \<Rightarrow> string list \<Rightarrow> quic_Config \<Rightarrow> goerror option"
  DialAddr :: "string \<Rightarrow> string list \<Rightarrow> bool \<Rightarrow> quic_Config \<Rightarrow> goerror option"

section \<open>The listener\<close>

record incoming =
  in_alpn :: string
  in_id :: string
  in_opened :: "goerror option"
  in_client :: "goerror + reader"
  in_request :: "goerror + reader"

record listener =
  l_world :: world
  l_handlers :: "(string \<times> WTSession) list"
  l_refused :: "string list"

definition MOQTListener_handleMOQ :: "u64 \<Rightarrow> string \<Rightarrow> world \<Rightarrow> world option" where
  "MOQTListener_handleMOQ Role sid w = do {
     (res, w) \<leftarrow> CreateMOQSession sid Role SERVER_MODE w;
     case res of
       Inl err \<Rightarrow> Some w
     | Inr session \<Rightarrow> ServeMOQ session w }"

text \<open>The handler that \<open>Listen\<close> registers, in the goroutine of \<open>ServeHTTP\<close>.\<close>

definition webTransportHandler :: "quicvarint \<Rightarrow> qpack \<Rightarrow> u64 \<Rightarrow> string \<Rightarrow> WTSession \<Rightarrow> world \<Rightarrow> (WTSession \<times> world) option" where
  "webTransportHandler qv qp Role sid wts w = do {
     wts \<leftarrow> WTSession_AcceptSession qv qp wts;
     w \<leftarrow> MOQTListener_handleMOQ Role sid w;
     Some (wts, w) }"

definition MOQTListener_handleWebTransport ::
  "quicvarint \<Rightarrow> qpack \<Rightarrow> (string \<Rightarrow> goerror + 'u) \<Rightarrow> incoming \<Rightarrow> listener \<Rightarrow> listener option" where
  "MOQTListener_handleWebTransport qv qp parse_uri conn l = do {
     (_, res) \<leftarrow> UpgradeWTS qv qp parse_uri (in_opened conn) (in_client conn) (in_request conn);
     case res of
       Inl err \<Rightarrow> Some l
     | Inr (wts, req) \<Rightarrow> Some (l\<lparr>l_handlers := l_handlers l @ [(in_id conn, wts)]\<rparr>) }"

definition Listen_conn ::
  "quicvarint \<Rightarrow> qpack \<Rightarrow> (string \<Rightarrow> goerror + 'u) \<Rightarrow> u64 \<Rightarrow> incoming \<Rightarrow> listener \<Rightarrow> listener option" where
  "Listen_conn qv qp parse_uri Role conn l =
    (if in_alpn conn = ''moq-00'' then
       map_option (\<lambda>w. l\<lparr>l_world := w\<rparr>) (MOQTListener_handleMOQ Role (in_id conn) (l_world l))
     else if in_alpn conn = ''h3'' then MOQTListener_handleWebTransport qv qp parse_uri conn l
     else Some (l\<lparr>l_refused := l_refused l @ [in_id conn]\<rparr>))"

text \<open>The loop over \<open>Accept\<close>. The second component says that the loop has ended with an error of \<open>Accept\<close>.\<close>

fun Listen_loop ::
  "quicvarint \<Rightarrow> qpack \<Rightarrow> (string \<Rightarrow> goerror + 'u) \<Rightarrow> u64 \<Rightarrow> (goerror + incoming) list \<Rightarrow> listener \<Rightarrow> (listener \<times> bool) option" where
  "Listen_loop qv qp parse_uri Role [] l = Some (l, False)"
| "Listen_loop qv qp parse_uri Role (Inl err # evs) l = Some (l, True)"
| "Listen_loop qv qp parse_uri Role (Inr conn # evs) l = do {
     l \<leftarrow> Listen_conn qv qp parse_uri Role conn l;
     Listen_loop qv qp parse_uri Role evs l }"

text \<open>\<open>http.Handle\<close> panics when the pattern is registered already in the server of the process.\<close>

definition http_Handle :: "string \<Rightarrow> string list \<Rightarrow> string list option" where
  "http_Handle pattern mux = (if pattern \<in> set mux then None else Some (pattern # mux))"

text \<open>\<open>Listen\<close>: it loads the certificates, opens the QUIC listener, registers its handler and accepts connections. The result is
  the patterns that are registered, the listener and the error that \<open>Listen\<close> returns.\<close>

definition Listen ::
  "quicvarint \<Rightarrow> qpack \<Rightarrow> (string \<Rightarrow> goerror + 'u) \<Rightarrow> network \<Rightarrow> MOQTListener \<Rightarrow> (goerror + incoming) list \<Rightarrow> string list \<times> listener
    \<Rightarrow> (string list \<times> listener \<times> goerror option) option" where
  "Listen qv qp parse_uri net lis evs st = (case st of (mux, l) \<Rightarrow>
    (let Options = ml_Options lis
     in case LoadX509KeyPair net (lo_CertPath Options) (lo_KeyPath Options) of
          Some _ \<Rightarrow> Some (mux, l, Some (Errorf (''[Certificates Failed to Load][Key - '' @ lo_KeyPath Options @ ''][Cert - '' @ lo_CertPath Options @ '']'')))
        | None \<Rightarrow> (case ListenAddr net (lo_ListenAddr Options) (lo_ALPNs Options) (lo_QuicConfig Options) of
              Some err \<Rightarrow> Some (mux, l, Some err)
            | None \<Rightarrow> do {
                mux \<leftarrow> http_Handle ''/'' mux;
                mux \<leftarrow> http_Handle ''/moqt'' mux;
                (l, _) \<leftarrow> Listen_loop qv qp parse_uri (ml_Role lis) evs l;
                Some (mux, l, None) })))"

text \<open>\<open>Run\<close> logs the error of \<open>Listen\<close> and returns nil.\<close>

record MOQRelay =
  mr_Options :: ListenerOptions
  mr_Peers :: "string list"

definition NewMOQTRelay :: "ListenerOptions \<Rightarrow> string list \<Rightarrow> MOQRelay" where
  "NewMOQTRelay options peers = \<lparr>mr_Options = options, mr_Peers = peers\<rparr>"

definition MOQRelay_Run ::
  "quicvarint \<Rightarrow> qpack \<Rightarrow> (string \<Rightarrow> goerror + 'u) \<Rightarrow> network \<Rightarrow> MOQRelay \<Rightarrow> (goerror + incoming) list \<Rightarrow> string list \<times> listener
    \<Rightarrow> (string list \<times> listener \<times> goerror option) option" where
  "MOQRelay_Run qv qp parse_uri net relay evs st = do {
     (mux, l, err) \<leftarrow> Listen qv qp parse_uri net \<lparr>ml_Options = mr_Options relay, ml_Role = ROLE_RELAY\<rparr> evs st;
     Some (mux, l, None) }"

section \<open>The dialer\<close>

text \<open>Up to the \<open>select\<close>: \<open>dialed\<close> is the error of \<open>quic.DialAddr\<close>.\<close>

definition Dial_start :: "goerror option \<Rightarrow> string \<Rightarrow> u64 \<Rightarrow> world \<Rightarrow> ((goerror + ref) \<times> world) option" where
  "Dial_start dialed sid Role w = (case dialed of
      Some err \<Rightarrow> Some (Inl err, w)
    | None \<Rightarrow> do {
        (res, w) \<leftarrow> CreateMOQSession sid Role CLIENT_MODE w;
        case res of
          Inl err \<Rightarrow> Some (Inl err, w)
        | Inr session \<Rightarrow> do { w \<leftarrow> ServeMOQ session w; Some (Inr session, w) } })"

definition MOQTDialer_Dial_start :: "network \<Rightarrow> MOQTDialer \<Rightarrow> string \<Rightarrow> string \<Rightarrow> world \<Rightarrow> ((goerror + ref) \<times> world) option" where
  "MOQTDialer_Dial_start net d addr sid w =
    (let Options = md_Options d
     in Dial_start (DialAddr net addr (do_ALPNs Options) (do_InsecureSkipVerify Options) (do_QuicConfig Options)) sid (md_Role d) w)"

text \<open>The \<open>select\<close>: the channel, or the timer after five seconds.\<close>

definition Dial_select :: "ref \<Rightarrow> bool \<Rightarrow> world \<Rightarrow> ((goerror + ref) \<times> world) option" where
  "Dial_select session timeout w =
    (if timeout then Some (Inl (Errorf ''[Error Dialing MOQT][Timeout]''), w)
     else do { w \<leftarrow> receive_HandshakeDone session w; Some (Inr session, w) })"

text \<open>\<open>Connect\<close> of a publisher and of a subscriber, after \<open>Dial\<close>: the type assertion on the session's handler.\<close>

definition MOQPub_Connect :: "goerror + ref \<Rightarrow> world \<Rightarrow> (goerror + PubHandler) option" where
  "MOQPub_Connect dialed w = (case dialed of
      Inl err \<Rightarrow> Some (Inl err)
    | Inr session \<Rightarrow> map_option Inr (get_pub w session))"

definition MOQSub_Connect :: "goerror + ref \<Rightarrow> world \<Rightarrow> (goerror + SubHandler) option" where
  "MOQSub_Connect dialed w = (case dialed of
      Inl err \<Rightarrow> Some (Inl err)
    | Inr session \<Rightarrow> map_option Inr (get_sub w session))"

section \<open>Serving connections\<close>

definition is_moq :: "incoming \<Rightarrow> bool" where
  "is_moq c \<longleftrightarrow> in_alpn c = ''moq-00''"

definition is_h3 :: "incoming \<Rightarrow> bool" where
  "is_h3 c \<longleftrightarrow> in_alpn c = ''h3''"

lemma alpn_distinct [simp]: "is_moq c \<Longrightarrow> \<not> is_h3 c"
  by (simp add: is_moq_def is_h3_def)

abbreviation upgrade_of :: "quicvarint \<Rightarrow> qpack \<Rightarrow> (string \<Rightarrow> goerror + 'u) \<Rightarrow> incoming
    \<Rightarrow> (bytes \<times> (goerror + WTSession \<times> 'u Request)) option" where
  "upgrade_of qv qp parse_uri c \<equiv> UpgradeWTS qv qp parse_uri (in_opened c) (in_client c) (in_request c)"

definition upgraded :: "quicvarint \<Rightarrow> qpack \<Rightarrow> (string \<Rightarrow> goerror + 'u) \<Rightarrow> incoming \<Rightarrow> (string \<times> WTSession) list" where
  "upgraded qv qp parse_uri c = (case upgrade_of qv qp parse_uri c of
      Some (_, Inr (wts, _)) \<Rightarrow> [(in_id c, wts)] | _ \<Rightarrow> [])"

text \<open>The sessions that a list of IDs gives, and the goroutines that serve them, from the first free reference on.\<close>

fun served :: "u64 \<Rightarrow> Handler \<Rightarrow> string list \<Rightarrow> world \<Rightarrow> world" where
  "served Role h [] w = w"
| "served Role h (sid # sids) w = served Role h sids
    (w\<lparr>w_sess := (w_sess w)(w_next_sess w \<mapsto> new_session sid Role SERVER_MODE h), w_next_sess := Suc (w_next_sess w),
       w_sm := (w_sm w)\<lparr>sm_sessions := gomap_set sid (w_next_sess w) (sm_sessions (w_sm w))\<rparr>,
       w_tasks := w_tasks w @ [TaskHandleControlStream (w_next_sess w), TaskDoHandle (w_next_sess w)]\<rparr>)"

lemma create_result:
  assumes "CreateNewHandler Role = Inr h"
  shows "CreateMOQSession sid Role mode w = Some (Inr (w_next_sess w),
    w\<lparr>w_sess := (w_sess w)(w_next_sess w \<mapsto> new_session sid Role mode h), w_next_sess := Suc (w_next_sess w),
      w_sm := (w_sm w)\<lparr>sm_sessions := gomap_set sid (w_next_sess w) (sm_sessions (w_sm w))\<rparr>\<rparr>)"
  using assms by (simp add: CreateMOQSession_def addSession_def put_sess_def new_session_def Let_def)

lemma handleMOQ_result:
  assumes "CreateNewHandler Role = Inr h"
  shows "MOQTListener_handleMOQ Role sid w = Some (served Role h [sid] w)" and "moq_step qv w (served Role h [sid] w)"
proof -
  let ?w1 = "w\<lparr>w_sess := (w_sess w)(w_next_sess w \<mapsto> new_session sid Role SERVER_MODE h), w_next_sess := Suc (w_next_sess w),
      w_sm := (w_sm w)\<lparr>sm_sessions := gomap_set sid (w_next_sess w) (sm_sessions (w_sm w))\<rparr>\<rparr>"
  have c: "CreateMOQSession sid Role SERVER_MODE w = Some (Inr (w_next_sess w), ?w1)" using assms by (rule create_result)
  have s: "ServeMOQ (w_next_sess w) ?w1 = Some (served Role h [sid] w)"
    by (simp add: ServeMOQ_def spawn_def new_session_def)
  show "MOQTListener_handleMOQ Role sid w = Some (served Role h [sid] w)"
    unfolding MOQTListener_handleMOQ_def c by (simp add: s)
  show "moq_step qv w (served Role h [sid] w)" using c s by (rule step_create)
qed

lemma served_append: "served Role h (sids @ sids') w = served Role h sids' (served Role h sids w)"
  by (induction sids arbitrary: w) simp_all

lemma served_steps: "CreateNewHandler Role = Inr h \<Longrightarrow> (moq_step qv)\<^sup>*\<^sup>* w (served Role h sids w)"
proof (induction sids arbitrary: w)
  case (Cons sid sids)
  have "moq_step qv w (served Role h [sid] w)" using Cons.prems by (rule handleMOQ_result(2))
  also have "(moq_step qv)\<^sup>*\<^sup>* \<dots> (served Role h sids (served Role h [sid] w))" using Cons by blast
  finally show ?case by simp
qed simp

lemma Listen_loop_result:
  assumes "CreateNewHandler Role = Inr h" and "\<And>c. c \<in> set conns \<Longrightarrow> is_h3 c \<Longrightarrow> upgrade_of qv qp parse_uri c \<noteq> None"
  shows "Listen_loop qv qp parse_uri Role (map Inr conns @ evs) l = Listen_loop qv qp parse_uri Role evs
    \<lparr>l_world = served Role h (map in_id (filter is_moq conns)) (l_world l),
     l_handlers = l_handlers l @ concat (map (upgraded qv qp parse_uri) (filter is_h3 conns)),
     l_refused = l_refused l @ map in_id (filter (\<lambda>c. \<not> is_moq c \<and> \<not> is_h3 c) conns)\<rparr>"
  using assms(2)
proof (induction conns arbitrary: l)
  case Nil
  show ?case by (cases l) simp
next
  case (Cons c conns)
  note IH = Cons.IH [OF Cons.prems]
  show ?case
  proof (cases "is_moq c")
    case True
    then show ?thesis using IH handleMOQ_result(1) [OF assms(1)]
      by (simp add: Listen_conn_def is_moq_def is_h3_def)
  next
    case no_moq: False
    show ?thesis
    proof (cases "is_h3 c")
      case True
      then obtain out res where up: "upgrade_of qv qp parse_uri c = Some (out, res)" using Cons.prems by fastforce
      have "Listen_conn qv qp parse_uri Role c l
          = Some (l\<lparr>l_handlers := l_handlers l @ upgraded qv qp parse_uri c\<rparr>)"
        using True no_moq up
        by (auto simp: Listen_conn_def MOQTListener_handleWebTransport_def is_moq_def is_h3_def upgraded_def split: sum.split)
      then show ?thesis using IH True no_moq by simp
    next
      case False
      then show ?thesis using IH no_moq by (simp add: Listen_conn_def is_moq_def is_h3_def)
    qed
  qed
qed

lemma served_next: "w_next_sess (served Role h sids w) = w_next_sess w + length sids"
  by (induction sids arbitrary: w) simp_all

lemma served_old: "r < w_next_sess w \<Longrightarrow> w_sess (served Role h sids w) r = w_sess w r"
  by (induction sids arbitrary: w) simp_all

lemma served_new:
  "i < length sids \<Longrightarrow> w_sess (served Role h sids w) (w_next_sess w + i) = Some (new_session (sids ! i) Role SERVER_MODE h)"
proof (induction sids arbitrary: w i)
  case (Cons sid sids)
  let ?w = "served Role h [sid] w"
  show ?case
  proof (cases i)
    case 0
    have "w_sess (served Role h sids ?w) (w_next_sess w) = w_sess ?w (w_next_sess w)" by (rule served_old) simp
    then show ?thesis using 0 by simp
  next
    case (Suc j)
    then have "w_sess (served Role h sids ?w) (w_next_sess ?w + j) = Some (new_session (sids ! j) Role SERVER_MODE h)"
      using Cons.prems by (intro Cons.IH) simp
    then show ?thesis using Suc by simp
  qed
qed simp

lemma served_tasks: "w_tasks (served Role h sids w) = w_tasks w @
    concat (map (\<lambda>i. [TaskHandleControlStream (w_next_sess w + i), TaskDoHandle (w_next_sess w + i)]) [0..<length sids])"
proof (induction sids arbitrary: w)
  case (Cons sid sids)
  have "map (\<lambda>i. [TaskHandleControlStream (Suc (w_next_sess w) + i), TaskDoHandle (Suc (w_next_sess w) + i)]) [0..<length sids]
      = map (\<lambda>i. [TaskHandleControlStream (w_next_sess w + i), TaskDoHandle (w_next_sess w + i)]) [1..<Suc (length sids)]"
    by (rule nth_equalityI) (simp_all del: upt_Suc)
  then show ?case using Cons.IH by (simp add: upt_conv_Cons del: upt_Suc)
qed simp

section \<open>Upgrades that do not return\<close>

text \<open>What a client has to send: a control stream with a settings frame of one byte.\<close>

definition one_byte_settings :: "quicvarint \<Rightarrow> byte \<Rightarrow> bytes \<Rightarrow> bytes" where
  "one_byte_settings qv b rest = venc qv STREAM_CONTROL @ venc qv FRAME_SETTINGS @ venc qv 1 @ b # rest"

lemma upgrade_hangs:
  assumes "varint_codec qv" and "in_opened c = None" and "in_client c = Inr (r\<lparr>rd_data := one_byte_settings qv b rest\<rparr>)"
  shows "upgrade_of qv qp parse_uri c = None"
proof -
  have "SettingsFrame_Parse qv \<lparr>sf_Settings = []\<rparr> (r\<lparr>rd_data := venc qv 1 @ b # rest\<rparr>) = None"
    using assms(1) by (rule varint_codec.short_settings_frame)
  then have "ParseFrame qv qp (r\<lparr>rd_data := venc qv FRAME_SETTINGS @ venc qv 1 @ b # rest\<rparr>) = None"
    using varint_codec.Read_venc [OF assms(1) frame_type_fits(1)] by (simp add: ParseFrame_def parse_frame_body_def)
  then have "upgrade_settings qv qp (in_client c) = None"
    unfolding assms(3) one_byte_settings_def by (simp add: upgrade_settings_def varint_codec.control_header_trip [OF assms(1)])
  then show ?thesis by (simp add: UpgradeWTS_def assms(2) bind_eq_None_conv split: option.split)
qed

lemma Listen_loop_stuck:
  assumes "\<And>l. Listen_conn qv qp parse_uri Role c l = None"
  shows "Listen_loop qv qp parse_uri Role (map Inr conns @ Inr c # evs) l = None"
  using assms by (induction conns arbitrary: l) (auto simp: bind_eq_None_conv split: option.split)

section \<open>Properties\<close>

text \<open>Property C30 (the listener serves every connection). Let a listener for a supported role accept any connections, of which
  those for HTTP/3 have upgrades that return. Then, in one run and with steps of the process only, each plain MOQ connection has
  got a new session of its own in server mode, with a goroutine for its control stream and one for its object streams; each
  successful upgrade has started its handler; and the connections with any other protocol, and only these, were refused.\<close>

theorem listener_serves_connections:
  assumes "CreateNewHandler Role = Inr h" and "\<And>c. c \<in> set conns \<Longrightarrow> is_h3 c \<Longrightarrow> upgrade_of qv qp parse_uri c \<noteq> None"
  shows "\<exists>l'. Listen_loop qv qp parse_uri Role (map Inr conns) l = Some (l', False) \<and>
    (moq_step qv)\<^sup>*\<^sup>* (l_world l) (l_world l') \<and>
    (let ids = map in_id (filter is_moq conns); n = w_next_sess (l_world l) in
      (\<forall>i < length ids. w_sess (l_world l') (n + i) = Some (new_session (ids ! i) Role SERVER_MODE h)) \<and>
      (\<forall>r < n. w_sess (l_world l') r = w_sess (l_world l) r) \<and>
      w_tasks (l_world l') = w_tasks (l_world l) @
        concat (map (\<lambda>i. [TaskHandleControlStream (n + i), TaskDoHandle (n + i)]) [0..<length ids])) \<and>
    l_handlers l' = l_handlers l @ concat (map (upgraded qv qp parse_uri) (filter is_h3 conns)) \<and>
    l_refused l' = l_refused l @ map in_id (filter (\<lambda>c. \<not> is_moq c \<and> \<not> is_h3 c) conns)"
proof -
  let ?l = "\<lparr>l_world = served Role h (map in_id (filter is_moq conns)) (l_world l),
     l_handlers = l_handlers l @ concat (map (upgraded qv qp parse_uri) (filter is_h3 conns)),
     l_refused = l_refused l @ map in_id (filter (\<lambda>c. \<not> is_moq c \<and> \<not> is_h3 c) conns)\<rparr>"
  have "Listen_loop qv qp parse_uri Role (map Inr conns) l = Some (?l, False)"
    using Listen_loop_result [where evs = "[]", OF assms] by simp
  moreover have "(moq_step qv)\<^sup>*\<^sup>* (l_world l) (l_world ?l)" using served_steps [OF assms(1)] by simp
  ultimately show ?thesis by (intro exI [of _ ?l]) (simp add: Let_def served_new served_old served_tasks)
qed

definition sample_conns :: "incoming list" where
  "sample_conns = [\<lparr>in_alpn = ''moq-00'', in_id = ''a'', in_opened = None, in_client = Inl EOF, in_request = Inl EOF\<rparr>,
     \<lparr>in_alpn = ''h3'', in_id = ''b'', in_opened = Some EOF, in_client = Inl EOF, in_request = Inl EOF\<rparr>,
     \<lparr>in_alpn = ''hq'', in_id = ''c'', in_opened = None, in_client = Inl EOF, in_request = Inl EOF\<rparr>]"

theorem listener_serves_connections_witness:
  "\<exists>l'. Listen_loop rfc9000 qpack_literal (Inr :: string \<Rightarrow> goerror + string) ROLE_RELAY (map Inr sample_conns)
      \<lparr>l_world = world_start, l_handlers = [], l_refused = []\<rparr> = Some (l', False) \<and> l_refused l' = [''c''] \<and>
    w_sess (l_world l') 0 = Some (new_session ''a'' ROLE_RELAY SERVER_MODE (HRelay NewRelayHandler))"
proof -
  have h: "CreateNewHandler ROLE_RELAY = Inr (HRelay NewRelayHandler)" by (simp add: CreateNewHandler_def)
  have up: "upgrade_of rfc9000 qpack_literal (Inr :: string \<Rightarrow> goerror + string) c \<noteq> None" if "c \<in> set sample_conns" "is_h3 c" for c
    using that by (auto simp: sample_conns_def is_h3_def UpgradeWTS_def)
  have f: "filter is_moq sample_conns = [sample_conns ! 0]" "filter (\<lambda>c. \<not> is_moq c \<and> \<not> is_h3 c) sample_conns = [sample_conns ! 2]"
    by (simp_all add: sample_conns_def is_moq_def is_h3_def)
  have i: "in_id (sample_conns ! 0) = ''a''" "in_id (sample_conns ! 2) = ''c''" by (simp_all add: sample_conns_def)
  show ?thesis
    using listener_serves_connections [where conns = sample_conns and l = "\<lparr>l_world = world_start, l_handlers = [], l_refused = []\<rparr>",
        OF h up] by (auto simp: f i Let_def world_start_def)
qed

text \<open>Property C40 (one client can stop the listener). A client that opens its control stream with a settings frame of one
  byte keeps the listener in \<open>UpgradeWTS\<close> for ever: however many connections came before and whatever comes after, the accept
  loop does not return and no later connection is served.\<close>

theorem listener_stuck_in_upgrade:
  assumes "varint_codec qv" and "is_h3 c" and "in_opened c = None"
    and "in_client c = Inr (r\<lparr>rd_data := one_byte_settings qv b rest\<rparr>)"
  shows "Listen_loop qv qp parse_uri Role (map Inr conns @ Inr c # evs) l = None"
proof -
  have "Listen_conn qv qp parse_uri Role c l = None" for l
    using assms(2) upgrade_hangs [OF assms(1,3,4), of qp parse_uri]
    by (simp add: Listen_conn_def is_h3_def MOQTListener_handleWebTransport_def)
  then show ?thesis by (rule Listen_loop_stuck)
qed

theorem listener_stuck_in_upgrade_witness:
  "Listen_loop rfc9000 qpack_literal (Inr :: string \<Rightarrow> goerror + string) ROLE_RELAY
     (map Inr sample_conns @ [Inr \<lparr>in_alpn = ''h3'', in_id = ''x'', in_opened = None,
        in_client = Inr \<lparr>rd_data = [0, 4, 1, 0], rd_end = EOF\<rparr>, in_request = Inl EOF\<rparr>])
     \<lparr>l_world = world_start, l_handlers = [], l_refused = []\<rparr> = None"
proof -
  have b: "one_byte_settings rfc9000 0 [] = [0, 4, 1, 0]"
    by (simp add: one_byte_settings_def rfc9000_eval stream_type_defs frame_type_defs)
  show ?thesis
    by (rule listener_stuck_in_upgrade [where evs = "[]" and b = 0 and rest = "[]" and r = "\<lparr>rd_data = [], rd_end = EOF\<rparr>"])
      (simp_all add: is_h3_def b)
qed

section \<open>Dialing\<close>

definition dialed :: "string \<Rightarrow> u64 \<Rightarrow> Handler \<Rightarrow> world \<Rightarrow> world" where
  "dialed sid Role h w = w\<lparr>w_sess := (w_sess w)(w_next_sess w \<mapsto> new_session sid Role CLIENT_MODE h),
     w_next_sess := Suc (w_next_sess w),
     w_sm := (w_sm w)\<lparr>sm_sessions := gomap_set sid (w_next_sess w) (sm_sessions (w_sm w))\<rparr>,
     w_tasks := w_tasks w @ [TaskInitiateHandshake (w_next_sess w), TaskDoHandle (w_next_sess w)]\<rparr>"

lemma Dial_start_result:
  assumes "CreateNewHandler Role = Inr h"
  shows "Dial_start None sid Role w = Some (Inr (w_next_sess w), dialed sid Role h w)"
    and "moq_step qv w (dialed sid Role h w)"
proof -
  let ?w1 = "w\<lparr>w_sess := (w_sess w)(w_next_sess w \<mapsto> new_session sid Role CLIENT_MODE h), w_next_sess := Suc (w_next_sess w),
      w_sm := (w_sm w)\<lparr>sm_sessions := gomap_set sid (w_next_sess w) (sm_sessions (w_sm w))\<rparr>\<rparr>"
  have c: "CreateMOQSession sid Role CLIENT_MODE w = Some (Inr (w_next_sess w), ?w1)" using assms by (rule create_result)
  have s: "ServeMOQ (w_next_sess w) ?w1 = Some (dialed sid Role h w)"
    by (simp add: ServeMOQ_def spawn_def new_session_def dialed_def SERVER_MODE_def CLIENT_MODE_def)
  show "Dial_start None sid Role w = Some (Inr (w_next_sess w), dialed sid Role h w)"
    unfolding Dial_start_def c by (simp add: s)
  show "moq_step qv w (dialed sid Role h w)" using c s by (rule step_create)
qed

lemma session_handler:
  assumes "world_ok w" and "w_sess w r = Some s"
  shows "s_LocalRole s = ROLE_PUBLISHER \<Longrightarrow> \<exists>h. get_pub w r = Some h"
    and "s_LocalRole s = ROLE_SUBSCRIBER \<Longrightarrow> \<exists>h. get_sub w r = Some h"
  using world_okD(1) [OF assms] assms(2)
  by (cases "s_Handler s"; simp add: session_ok_def get_pub_def get_sub_def session_PubHandler_def session_SubHandler_def role_defs)+

text \<open>Property C33 (dialing). An application dials a relay as a publisher or a subscriber; the connection is made, the
  control stream opens, and the peer answers the client's setup with its own, in a role that goes with the client's. Then the
  wait in \<open>Dial\<close> ends with the new session, which knows the peer's role, and \<open>Connect\<close> finds in it the handler of the
  application's role. All of it is a run of the process.\<close>

theorem dial_connects:
  assumes "varint_codec qv" and "reach moq_init (moq_step qv) w"
    and "Role = ROLE_PUBLISHER \<or> Role = ROLE_SUBSCRIBER" and "fits62 peer" and "role_error Role peer = None"
  shows "\<exists>c w1 w2 w3 w4 s. Dial_start None sid Role w = Some (Inr c, w1) \<and> InitiateHandshake qv c None w1 = Some w2 \<and>
    sent w2 c = [client_setup_msg Role] \<and> ServeCS_message qv c (server_setup_msg peer) rnd w2 = Some w3 \<and>
    Dial_select c False w3 = Some (Inr c, w4) \<and> reach moq_init (moq_step qv) w4 \<and>
    w_sess w4 c = Some s \<and> s_RemoteRole s = peer \<and>
    (if Role = ROLE_PUBLISHER then \<exists>h. MOQPub_Connect (Inr c) w4 = Some (Inr h) else \<exists>h. MOQSub_Connect (Inr c) w4 = Some (Inr h))"
proof -
  define c where "c = w_next_sess w"
  obtain h where h: "CreateNewHandler Role = Inr h" using assms(3) by (auto simp: CreateNewHandler_def role_defs)
  let ?w1 = "dialed sid Role h w" and ?s = "new_session sid Role CLIENT_MODE h"
  have d: "Dial_start None sid Role w = Some (Inr c, ?w1)" unfolding c_def using h by (rule Dial_start_result(1))
  have r1: "reach moq_init (moq_step qv) ?w1" using assms(2) Dial_start_result(2) [OF h] by (rule reach_step)
  have s1: "w_sess ?w1 c = Some ?s" "s_CS ?s = None" "s_LocalRole ?s = Role" by (simp_all add: dialed_def c_def new_session_def)
  note ok = varint_codec.process_invariant [OF assms(1)]
  obtain w2 cs where w2: "InitiateHandshake qv c None ?w1 = Some w2" "w_sess w2 c = Some (?s\<lparr>s_CS := Some cs\<rparr>)"
    "\<not> cs_ishandshakedone cs" "sent w2 c = [client_setup_msg Role]"
    using varint_codec.client_starts [OF assms(1) ok [OF r1] s1(1,2)] s1(3) by auto
  have r2: "reach moq_init (moq_step qv) w2" using r1 step_initiate [OF s1(1,2) w2(1)] by (rule reach_step)
  have e: "role_error (s_LocalRole (?s\<lparr>s_CS := Some cs\<rparr>)) peer = None" using assms(5) s1(3) by simp
  obtain w3 where w3: "ServeCS_message qv c (server_setup_msg peer) rnd w2 = Some w3" "handshaken w3 c peer"
    using varint_codec.client_accepts [OF assms(1) ok [OF r2] w2(2) _ w2(3) e] by auto
  have r3: "reach moq_init (moq_step qv) w3"
    using r2 step_message [OF setup_msg_ok(1) [OF assms(4)] w3(1)] by (rule reach_step)
  have "good_step w2 w3" using ServeCS_message_keeps [OF assms(1) ok [OF r2] setup_msg_ok(1) [OF assms(4)]] w3(1) by (rule keepsD)
  then have "world_le w2 w3" by (rule good_stepD)
  then obtain s3 :: MOQTSession where s3: "w_sess w3 c = Some s3" "s_LocalRole s3 = Role" "s_RemoteRole s3 = peer" "s_HandshakeDone s3 = 1" "s_HandshakeTaken s3 = 0"
    using w2(2) w3(2) s1(3) by (fastforce simp: world_le_def sess_le_def handshaken_def)
  let ?s4 = "s3\<lparr>s_HandshakeTaken := 1\<rparr>"
  let ?w4 = "put_sess c ?s4 w3"
  have rc: "receive_HandshakeDone c w3 = Some ?w4" using s3 by (simp add: receive_HandshakeDone_def)
  have r4: "reach moq_init (moq_step qv) ?w4" using r3 step_dialed [OF rc] by (rule reach_step)
  have s4: "w_sess ?w4 c = Some ?s4" by simp
  have "if Role = ROLE_PUBLISHER then \<exists>h. MOQPub_Connect (Inr c) ?w4 = Some (Inr h) else \<exists>h. MOQSub_Connect (Inr c) ?w4 = Some (Inr h)"
    using session_handler [OF ok [OF r4] s4] s3(2) assms(3) by (auto simp: MOQPub_Connect_def MOQSub_Connect_def)
  moreover have "Dial_select c False w3 = Some (Inr c, ?w4)" using rc by (simp add: Dial_select_def)
  ultimately show ?thesis using d w2 w3(1) r4 s4 s3(3) by (intro exI [of _ c] exI [of _ ?w1] exI [of _ w2] exI [of _ w3] exI [of _ ?w4] exI [of _ ?s4]) simp
qed

theorem dial_connects_witness:
  "\<exists>c w1 w4. Dial_start None ''p'' ROLE_PUBLISHER world_start = Some (Inr c, w1) \<and>
    (\<exists>h. MOQPub_Connect (Inr c) w4 = Some (Inr h)) \<and> reach moq_init (moq_step rfc9000) w4"
proof -
  have r: "reach moq_init (moq_step rfc9000) world_start" by (rule reach_init) (simp add: moq_init_def)
  have p: "ROLE_PUBLISHER = ROLE_PUBLISHER \<or> ROLE_PUBLISHER = ROLE_SUBSCRIBER" "fits62 ROLE_RELAY"
    "role_error ROLE_PUBLISHER ROLE_RELAY = None"
    by (simp_all add: role_error_def role_defs fits62_def)
  from dial_connects [OF rfc9000_codec r p, where sid = "''p''" and rnd = 0] show ?thesis by auto
qed

text \<open>A dialer that gives up. When the handshake does not finish within five seconds, \<open>Dial\<close> returns an error, and
  the session it has created stays listed in the session manager, is not closed, and its goroutines stay started.\<close>

lemma dial_timeout_leaks_session:
  assumes "CreateNewHandler Role = Inr h"
  shows "\<exists>c w' s. Dial_start None sid Role w = Some (Inr c, w') \<and>
    Dial_select c True w' = Some (Inl (Errorf ''[Error Dialing MOQT][Timeout]''), w') \<and>
    gomap_get (sm_sessions (w_sm w')) sid = Some c \<and> w_sess w' c = Some s \<and> \<not> s_cancelled s \<and> s_closes s = [] \<and>
    {TaskInitiateHandshake c, TaskDoHandle c} \<subseteq> set (w_tasks w')"
  using Dial_start_result(1) [OF assms, of sid w]
  by (simp add: Dial_select_def dialed_def new_session_def gomap_simps)

theorem dial_timeout_leaks_session_witness:
  "\<exists>c w'. Dial_start None ''p'' ROLE_PUBLISHER world_start = Some (Inr c, w') \<and> gomap_get (sm_sessions (w_sm w')) ''p'' = Some c"
proof -
  have h: "CreateNewHandler ROLE_PUBLISHER = Inr (HPub NewPubHandler)" by (simp add: CreateNewHandler_def role_defs)
  from dial_timeout_leaks_session [OF h, of "''p''" world_start] show ?thesis by blast
qed

end
