(* ===== verification/Reorder_Buffer.thy ===== *)
theory Reorder_Buffer
  imports Wire_Streams
begin

text \<open>
  The reorder buffer of the media subscribers: \<open>handleStream\<close> of \<open>src/examples/ffmpeg/sub/sub.go\<close> and of
  \<open>src/examples/ffmpeg-udp/sub/sub.go\<close>. Each group of a track comes on a stream of its own, and streams may overtake each
  other; the subscriber keeps them in a map by group ID, and when the map has 25 entries it writes the run of consecutive
  groups from the smallest ID on.

  The Go variable \<open>oldkey\<close> is a 64-bit \<open>int\<close> that is only set to -1, set to \<open>int(key)\<close>, compared and incremented. It is a
  64-bit word here, for which \<open>int(key)\<close> is the same bit pattern. \<open>ro_out\<close> are the streams that were handed to
  \<open>handleMOQStream\<close>, in that order. \<^const>\<open>None\<close> is a panic, of the type assertion on a track stream.

  Shown here: no stream is lost or handed on twice as long as the IDs differ, and fewer than 25 are held back; and if no
  group comes later than 24 groups after its place, they are handed on in order without a gap, all but the last 24 at most.
\<close>

section \<open>The buffer\<close>

record reorder =
  ro_gsMap :: "(u64, GroupStream) gomap"
  ro_out :: "GroupStream list"

definition empty_reorder :: reorder where
  "empty_reorder = \<lparr>ro_gsMap = [], ro_out = []\<rparr>"

text \<open>\<open>handleMOQStream(gsMap[key])\<close> and \<open>delete(gsMap, key)\<close>\<close>

definition reorder_take :: "u64 \<Rightarrow> reorder \<Rightarrow> reorder option" where
  "reorder_take key st = do {
     gs \<leftarrow> gomap_get (ro_gsMap st) key;
     Some \<lparr>ro_gsMap = gomap_del key (ro_gsMap st), ro_out = ro_out st @ [gs]\<rparr> }"

text \<open>The loop over the sorted keys.\<close>

fun reorder_drain :: "u64 \<Rightarrow> u64 list \<Rightarrow> reorder \<Rightarrow> reorder option" where
  "reorder_drain oldkey [] st = Some st"
| "reorder_drain oldkey (key # keys) st =
    (if oldkey \<noteq> -1 \<and> oldkey \<noteq> key then Some st
     else do {
       st \<leftarrow> reorder_take key st;
       reorder_drain ((if oldkey = -1 then key else oldkey) + 1) keys st })"

definition REORDER_WINDOW :: nat where
  "REORDER_WINDOW = 25"

definition reorder_group :: "GroupStream \<Rightarrow> reorder \<Rightarrow> reorder option" where
  "reorder_group gs st =
    (let st = st\<lparr>ro_gsMap := gomap_set (gs_GroupID gs) gs (ro_gsMap st)\<rparr>
     in if length (ro_gsMap st) \<ge> REORDER_WINDOW
        then reorder_drain (-1) (sort (map fst (ro_gsMap st))) st
        else Some st)"

text \<open>\<open>for moqtstream := range ss.StreamsChan\<close>\<close>

fun reorder_handleStream :: "MOQTStream list \<Rightarrow> reorder \<Rightarrow> reorder option" where
  "reorder_handleStream [] st = Some st"
| "reorder_handleStream (STrack ts # streams) st = None"
| "reorder_handleStream (SGroup gs # streams) st = do {
     st \<leftarrow> reorder_group gs st;
     reorder_handleStream streams st }"

section \<open>One flush\<close>

definition emit :: "u64 list \<Rightarrow> reorder \<Rightarrow> reorder" where
  "emit ks st = \<lparr>ro_gsMap = filter (\<lambda>e. fst e \<notin> set ks) (ro_gsMap st),
     ro_out = ro_out st @ map (\<lambda>k. the (gomap_get (ro_gsMap st) k)) ks\<rparr>"

lemma emit_Nil [simp]: "emit [] st = st"
  by (cases st) (simp add: emit_def)

lemma map_of_filter_key: "map_of (filter (\<lambda>e. fst e \<noteq> k') m) k = (if k = k' then None else map_of m k)"
  by (induction m) auto

lemma reorder_take_emit: "gomap_get (ro_gsMap st) k \<noteq> None \<Longrightarrow> reorder_take k st = Some (emit [k] st)"
  by (auto simp: reorder_take_def emit_def gomap_del_def AList.delete_eq case_prod_beta' intro!: filter_cong)

lemma emit_Cons:
  assumes "k \<notin> set ks"
  shows "emit ks (emit [k] st) = emit (k # ks) st"
proof -
  have "filter (\<lambda>e. fst e \<notin> set ks) (filter (\<lambda>e. fst e \<notin> set [k]) (ro_gsMap st)) = filter (\<lambda>e. fst e \<notin> set (k # ks)) (ro_gsMap st)"
    by (auto intro: filter_cong)
  moreover have "map (\<lambda>x. the (gomap_get (filter (\<lambda>e. fst e \<notin> set [k]) (ro_gsMap st)) x)) ks = map (\<lambda>x. the (gomap_get (ro_gsMap st) x)) ks"
    using assms by (auto simp: map_of_filter_key)
  ultimately show ?thesis by (simp add: emit_def del: filter_filter)
qed

text \<open>What one run over the keys hands on: the longest part that counts up from \<open>oldkey\<close>.\<close>

fun count_up :: "u64 \<Rightarrow> u64 list \<Rightarrow> u64 list" where
  "count_up oldkey [] = []"
| "count_up oldkey (key # keys) =
    (if oldkey \<noteq> -1 \<and> oldkey \<noteq> key then [] else key # count_up ((if oldkey = -1 then key else oldkey) + 1) keys)"

lemma count_up_prefix: "prefix (count_up k ks) ks"
  by (induction k ks rule: count_up.induct) auto

lemma reorder_drain_emit:
  assumes "distinct ks" and "\<And>k. k \<in> set ks \<Longrightarrow> gomap_get (ro_gsMap st) k \<noteq> None"
  shows "reorder_drain oldkey ks st = Some (emit (count_up oldkey ks) st)"
  using assms
proof (induction oldkey ks st rule: reorder_drain.induct)
  case (2 oldkey key keys st)
  show ?case
  proof (cases "oldkey \<noteq> -1 \<and> oldkey \<noteq> key")
    case False
    let ?old = "(if oldkey = -1 then key else oldkey) + 1"
    have t: "reorder_take key st = Some (emit [key] st)" using 2(3) [of key] by (intro reorder_take_emit) simp
    have "gomap_get (ro_gsMap (emit [key] st)) k \<noteq> None" if "k \<in> set keys" for k
      using that 2(2) 2(3) [of k] by (auto simp: emit_def map_of_filter_key)
    then have "reorder_drain ?old keys (emit [key] st) = Some (emit (count_up ?old keys) (emit [key] st))"
      using 2(1) [OF False t] 2(2) by simp
    moreover have "key \<notin> set (count_up ?old keys)"
      using 2(2) set_mono_prefix [OF count_up_prefix [of ?old keys]] by auto
    ultimately show ?thesis using False t by (auto simp: emit_Cons)
  qed simp
qed simp

section \<open>Nothing is lost\<close>

definition contents :: "reorder \<Rightarrow> GroupStream multiset" where
  "contents st = mset (ro_out st) + mset (map snd (ro_gsMap st))"

lemma filter_key_mset:
  "gomap_ok m \<Longrightarrow> gomap_get m k = Some v \<Longrightarrow> add_mset (k, v) (mset (filter (\<lambda>e. fst e \<noteq> k) m)) = mset m"
proof (induction m)
  case (Cons e m)
  show ?case
  proof (cases "fst e = k")
    case True
    then have "filter (\<lambda>e. fst e \<noteq> k) m = m" using Cons.prems(1) by (auto simp: gomap_ok_def filter_id_conv image_iff)
    then show ?thesis using True Cons.prems by (cases e) auto
  next
    case False
    then show ?thesis using Cons by (cases e) (auto simp: gomap_ok_def add_mset_commute)
  qed
qed simp

lemma emit_one:
  assumes "gomap_ok (ro_gsMap st)" and "gomap_get (ro_gsMap st) k = Some v"
  shows "contents (emit [k] st) = contents st" and "gomap_ok (ro_gsMap (emit [k] st))"
    and "Suc (length (ro_gsMap (emit [k] st))) = length (ro_gsMap st)"
proof -
  let ?m = "ro_gsMap st"
  have m: "add_mset (k, v) (mset (filter (\<lambda>e. fst e \<noteq> k) ?m)) = mset ?m" using assms by (rule filter_key_mset)
  have "mset (map snd ?m) = image_mset snd (add_mset (k, v) (mset (filter (\<lambda>e. fst e \<noteq> k) ?m)))"
    by (simp only: m mset_map)
  then show "contents (emit [k] st) = contents st" using assms(2) by (simp add: contents_def emit_def)
  show "gomap_ok (ro_gsMap (emit [k] st))" using assms(1) by (simp add: emit_def gomap_ok_def distinct_map_filter)
  have "size (add_mset (k, v) (mset (filter (\<lambda>e. fst e \<noteq> k) ?m))) = size (mset ?m)" by (simp only: m)
  then show "Suc (length (ro_gsMap (emit [k] st))) = length ?m" by (simp add: emit_def del: mset_filter)
qed

lemma emit_contents:
  assumes "distinct ks" and "gomap_ok (ro_gsMap st)" and "\<And>k. k \<in> set ks \<Longrightarrow> gomap_get (ro_gsMap st) k \<noteq> None"
  shows "contents (emit ks st) = contents st \<and> gomap_ok (ro_gsMap (emit ks st)) \<and>
    length (ro_gsMap (emit ks st)) + length ks = length (ro_gsMap st)"
  using assms
proof (induction ks arbitrary: st)
  case (Cons k ks)
  obtain v where v: "gomap_get (ro_gsMap st) k = Some v" using Cons.prems(3) [of k] by auto
  note one = emit_one [OF Cons.prems(2) v]
  have "gomap_get (ro_gsMap (emit [k] st)) x \<noteq> None" if "x \<in> set ks" for x
    using that Cons.prems(1) Cons.prems(3) [of x] by (auto simp: emit_def map_of_filter_key)
  then show ?case using Cons.IH [of "emit [k] st"] Cons.prems(1) one by (simp add: emit_Cons)
qed simp

lemma emit_entries: "set (ro_gsMap (emit ks st)) \<subseteq> set (ro_gsMap st)"
  by (auto simp: emit_def)

text \<open>The buffer after any arrivals with different group IDs.\<close>

definition reorder_ok :: "GroupStream list \<Rightarrow> reorder \<Rightarrow> bool" where
  "reorder_ok arrived st \<longleftrightarrow> gomap_ok (ro_gsMap st) \<and> (\<forall>(k, g) \<in> set (ro_gsMap st). k = gs_GroupID g) \<and>
     length (ro_gsMap st) < REORDER_WINDOW \<and> contents st = mset arrived"

lemma reorder_ok_Nil: "reorder_ok [] empty_reorder"
  by (simp add: reorder_ok_def empty_reorder_def contents_def REORDER_WINDOW_def)

lemma reorder_ok_key:
  assumes "reorder_ok arrived st" and "gs_GroupID g \<notin> gs_GroupID ` set arrived"
  shows "gs_GroupID g \<notin> fst ` set (ro_gsMap st)"
proof
  assume "gs_GroupID g \<in> fst ` set (ro_gsMap st)"
  then obtain h where "(gs_GroupID g, h) \<in> set (ro_gsMap st)" by auto
  then have "gs_GroupID h = gs_GroupID g" "h \<in> snd ` set (ro_gsMap st)" using assms(1) by (force simp: reorder_ok_def)+
  then have "gs_GroupID h = gs_GroupID g" "h \<in># contents st" by (simp_all add: contents_def)
  moreover have "contents st = mset arrived" using assms(1) by (simp add: reorder_ok_def)
  ultimately show False using assms(2) by (metis image_eqI set_mset_mset)
qed

text \<open>A new group: it is kept, or the buffer is full and a run is handed on.\<close>

lemma reorder_group_cases:
  assumes ok: "reorder_ok arrived st" and new: "gs_GroupID g \<notin> gs_GroupID ` set arrived"
  defines "st1 \<equiv> st\<lparr>ro_gsMap := ro_gsMap st @ [(gs_GroupID g, g)]\<rparr>"
  defines "ks \<equiv> sort (map fst (ro_gsMap st1))"
  shows "reorder_group g st = Some (if length (ro_gsMap st1) = REORDER_WINDOW then emit (count_up (-1) ks) st1 else st1)"
    and "reorder_ok (arrived @ [g]) (if length (ro_gsMap st1) = REORDER_WINDOW then emit (count_up (-1) ks) st1 else st1)"
    and "distinct ks" and "set ks = fst ` set (ro_gsMap st1)"
proof -
  have key: "gs_GroupID g \<notin> fst ` set (ro_gsMap st)" using ok new by (rule reorder_ok_key)
  have m1: "gomap_ok (ro_gsMap st1)" "\<forall>(k, g) \<in> set (ro_gsMap st1). k = gs_GroupID g" "contents st1 = mset (arrived @ [g])"
    "length (ro_gsMap st1) \<le> REORDER_WINDOW" "ro_gsMap st1 \<noteq> []"
    using ok key by (auto simp: st1_def reorder_ok_def gomap_ok_def contents_def)
  show dist: "distinct ks" and set: "set ks = fst ` set (ro_gsMap st1)"
    using m1(1) by (simp_all add: ks_def gomap_ok_def)
  have has: "gomap_get (ro_gsMap st1) k \<noteq> None" if "k \<in> set ks" for k
    using that set by (simp add: map_of_eq_None_iff)
  have "reorder_drain (-1) ks st1 = Some (emit (count_up (-1) ks) st1)"
    using dist has by (rule reorder_drain_emit)
  then show "reorder_group g st = Some (if length (ro_gsMap st1) = REORDER_WINDOW then emit (count_up (-1) ks) st1 else st1)"
    using key m1(4) by (simp add: reorder_group_def gomap_set_fresh st1_def [symmetric] ks_def)
  let ?r = "count_up (-1) ks"
  have r: "distinct ?r" "set ?r \<subseteq> set ks" using count_up_prefix [of "-1" ks] dist
    by (auto dest: set_mono_prefix) (metis distinct_append prefixE)
  have "ks \<noteq> []" using m1(5) set by auto
  then have "?r \<noteq> []" by (cases ks) simp_all
  moreover have "\<forall>(k, g) \<in> set (ro_gsMap (emit ?r st1)). k = gs_GroupID g" using m1(2) emit_entries [of ?r st1] by blast
  moreover have "gomap_get (ro_gsMap st1) k \<noteq> None" if "k \<in> set ?r" for k using that r(2) has by blast
  note emitted = emit_contents [OF r(1) m1(1) this]
  ultimately have "reorder_ok (arrived @ [g]) (emit ?r st1)" if "length (ro_gsMap st1) = REORDER_WINDOW"
    using that m1(3) by (cases ?r) (auto simp: reorder_ok_def)
  then show "reorder_ok (arrived @ [g]) (if length (ro_gsMap st1) = REORDER_WINDOW then emit ?r st1 else st1)"
    using m1 by (auto simp: reorder_ok_def)
qed

lemma reorder_handleStream_ok:
  assumes "reorder_ok arrived st" and "distinct (map gs_GroupID (arrived @ gss))"
  shows "\<exists>st'. reorder_handleStream (map SGroup gss) st = Some st' \<and> reorder_ok (arrived @ gss) st'"
  using assms
proof (induction gss arbitrary: arrived st)
  case (Cons g gss)
  have "gs_GroupID g \<notin> gs_GroupID ` set arrived" using Cons.prems(2) by auto
  from reorder_group_cases(1,2) [OF Cons.prems(1) this] obtain st1 where
    st1: "reorder_group g st = Some st1" "reorder_ok (arrived @ [g]) st1" by blast
  then show ?case using Cons.IH [OF st1(2)] Cons.prems(2) by simp
qed simp

section \<open>Groups that come almost in order\<close>

abbreviation gid :: "GroupStream \<Rightarrow> nat" where
  "gid g \<equiv> unat (gs_GroupID g)"

lemma not_minus_one: "unat (k :: u64) \<le> 2 ^ 62 \<Longrightarrow> k \<noteq> -1"
  by (auto simp: unsigned_minus_1_eq_mask mask_eq_exp_minus_1)

lemma unat_next: "unat (k :: u64) \<le> 2 ^ 62 \<Longrightarrow> unat (k + 1) = Suc (unat k)"
  by (simp add: unat_word_ariths)

lemma count_up_run:
  "list_all fits62 ks \<Longrightarrow> unat k \<le> 2 ^ 62 \<Longrightarrow> map unat (count_up k ks) = [unat k..<unat k + length (count_up k ks)]"
proof (induction ks arbitrary: k)
  case (Cons key ks)
  have "k \<noteq> -1" using Cons.prems(2) by (rule not_minus_one)
  show ?case
  proof (cases "k = key")
    case True
    have u: "unat (k + 1) = Suc (unat k)" using Cons.prems(2) by (rule unat_next)
    moreover have "unat k < 2 ^ 62" using Cons.prems(1) True by (simp add: fits62_def)
    ultimately have "map unat (count_up (k + 1) ks) = [Suc (unat k)..<Suc (unat k) + length (count_up (k + 1) ks)]"
      using Cons.IH [of "k + 1"] Cons.prems(1) by (simp del: upt_Suc)
    then show ?thesis using True \<open>k \<noteq> -1\<close> by (simp add: upt_conv_Cons del: upt_Suc)
  next
    case False
    then show ?thesis using \<open>k \<noteq> -1\<close> by simp
  qed
qed simp

lemma count_up_start:
  assumes "list_all fits62 (k # ks)"
  shows "\<exists>i > 0. map unat (count_up (-1) (k # ks)) = [unat k..<unat k + i]"
proof -
  have k: "unat k < 2 ^ 62" using assms by (simp add: fits62_def)
  then have "unat (k + 1) = Suc (unat k)" by (intro unat_next) simp
  with k have "map unat (count_up (k + 1) ks) = [Suc (unat k)..<Suc (unat k) + length (count_up (k + 1) ks)]"
    using assms count_up_run [of ks "k + 1"] by (simp del: upt_Suc)
  then show ?thesis by (intro exI [of _ "Suc (length (count_up (k + 1) ks))"]) (simp add: upt_conv_Cons del: upt_Suc)
qed

lemma reorder_ids:
  assumes "reorder_ok arrived st" and "distinct (map gid arrived)"
  shows "distinct (map gid (ro_out st @ map snd (ro_gsMap st)))"
    and "gid ` set arrived = gid ` set (ro_out st) \<union> gid ` snd ` set (ro_gsMap st)"
proof -
  have c: "mset (ro_out st @ map snd (ro_gsMap st)) = mset arrived" using assms(1) by (simp add: reorder_ok_def contents_def)
  then have "mset (map gid (ro_out st @ map snd (ro_gsMap st))) = mset (map gid arrived)" by (simp only: mset_map)
  then show "distinct (map gid (ro_out st @ map snd (ro_gsMap st)))" using assms(2) by (metis mset_eq_imp_distinct_iff)
  show "gid ` set arrived = gid ` set (ro_out st) \<union> gid ` snd ` set (ro_gsMap st)"
    using mset_eq_setD [OF c] by auto
qed

text \<open>If the next group is missing, those that are there are within the window behind it: then a full buffer has it.\<close>

lemma full_buffer_has_next:
  fixes B :: "nat set"
  assumes "finite B" and "card B = REORDER_WINDOW" and "\<And>b. b \<in> B \<Longrightarrow> m \<le> b"
    and "m \<notin> B \<Longrightarrow> \<forall>b \<in> B. b < m + REORDER_WINDOW"
  shows "m \<in> B"
proof (rule ccontr)
  assume n: "m \<notin> B"
  have "B \<subseteq> {Suc m..<m + REORDER_WINDOW}"
  proof
    fix b assume "b \<in> B"
    then show "b \<in> {Suc m..<m + REORDER_WINDOW}" using assms(3,4) n by (metis atLeastLessThan_iff not_less_eq_eq le_antisym)
  qed
  then have "card B \<le> card {Suc m..<m + REORDER_WINDOW}" by (intro card_mono) simp_all
  then show False using assms(2) by (simp add: REORDER_WINDOW_def)
qed

text \<open>A run over the buffer that starts with group \<open>m\<close> hands on \<open>m\<close> and the groups that follow it directly.\<close>

lemma flush_run:
  assumes key: "\<And>k x. (k, x) \<in> set M \<Longrightarrow> k = gs_GroupID x \<and> fits62 k"
    and m: "m \<in> gid ` snd ` set M" and min: "\<And>b. b \<in> gid ` snd ` set M \<Longrightarrow> m \<le> b"
  shows "\<exists>i. map (\<lambda>k. gid (the (gomap_get M k))) (count_up (-1) (sort (map fst M))) = [m..<m + i]"
proof -
  define ks where "ks = sort (map fst M)"
  have ids: "unat ` set ks = gid ` snd ` set M" using key by (force simp: ks_def image_iff)
  obtain k ks' where k: "ks = k # ks'" using m ids by (cases ks) auto
  have "sorted (k # ks')" unfolding k [symmetric] ks_def by (rule sorted_sort)
  then have "unat k \<le> unat x" if "x \<in> set ks" for x using that unfolding k by (auto simp: word_le_nat_alt)
  moreover obtain x where "x \<in> set ks" "unat x = m" using m ids by (metis imageE)
  moreover have "unat k \<in> unat ` set ks" unfolding k by simp
  then have "m \<le> unat k" unfolding ids by (rule min)
  ultimately have "unat k = m" by fastforce
  moreover have "list_all fits62 ks" using key by (force simp: ks_def list_all_iff)
  ultimately obtain i where i: "map unat (count_up (-1) ks) = [m..<m + i]" unfolding k using count_up_start by blast
  have "gid (the (gomap_get M x)) = unat x" if "x \<in> set (count_up (-1) ks)" for x
  proof -
    have "x \<in> set ks" using that set_mono_prefix [OF count_up_prefix [of "-1" ks]] by blast
    then have "x \<in> fst ` set M" by (simp add: ks_def)
    then obtain y where "gomap_get M x = Some y" by (metis map_of_eq_None_iff option.exhaust)
    then show ?thesis using key [OF map_of_SomeD] by simp
  qed
  then have "map (\<lambda>k. gid (the (gomap_get M k))) (count_up (-1) ks) = map unat (count_up (-1) ks)" by simp
  then show ?thesis using i unfolding ks_def by auto
qed

lemma reorder_group_in_order:
  assumes ok: "reorder_ok arrived st" and out: "map gid (ro_out st) = [0..<m]"
    and dist: "distinct (map gid (arrived @ [g]))" and fits: "\<And>x. x \<in> set (arrived @ [g]) \<Longrightarrow> fits62 (gs_GroupID x)"
    and window: "m \<notin> gid ` set (arrived @ [g]) \<Longrightarrow> \<forall>x \<in> set (arrived @ [g]). gid x < m + REORDER_WINDOW"
  shows "\<exists>st' m'. reorder_group g st = Some st' \<and> reorder_ok (arrived @ [g]) st' \<and> map gid (ro_out st') = [0..<m']"
proof -
  have new: "gs_GroupID g \<notin> gs_GroupID ` set arrived" using dist by (auto simp: image_iff)
  define st1 where "st1 = st\<lparr>ro_gsMap := ro_gsMap st @ [(gs_GroupID g, g)]\<rparr>"
  define B where "B = gid ` snd ` set (ro_gsMap st1)"
  note G = reorder_group_cases(1,2) [OF ok new, folded st1_def]
  have st1: "ro_out st1 = ro_out st" by (simp add: st1_def)
  show ?thesis
  proof (cases "length (ro_gsMap st1) = REORDER_WINDOW")
    case False
    then show ?thesis using G out st1 by (intro exI [of _ st1] exI [of _ m]) simp
  next
    case True
    have cont: "mset (ro_out st @ map snd (ro_gsMap st1)) = mset (arrived @ [g])"
      using ok by (simp add: reorder_ok_def contents_def st1_def)
    then have s: "set (arrived @ [g]) = set (ro_out st) \<union> snd ` set (ro_gsMap st1)"
      by (metis mset_eq_setD set_append set_map)
    have "mset (map gid (ro_out st @ map snd (ro_gsMap st1))) = mset (map gid (arrived @ [g]))" by (simp only: mset_map cont)
    then have d: "distinct (map gid (ro_out st) @ map gid (map snd (ro_gsMap st1)))" using dist by (metis map_append mset_eq_imp_distinct_iff)
    have o: "gid ` set (ro_out st) = {0..<m}" using arg_cong [OF out, of set] by simp
    have "gid ` set (ro_out st) \<inter> B = {}" using d unfolding B_def distinct_append set_map by (elim conjE)
    then have B: "m \<le> b" if "b \<in> B" for b using that unfolding o by (intro leI notI) auto
    have "card B = REORDER_WINDOW"
      using d True distinct_card [of "map gid (map snd (ro_gsMap st1))"] unfolding B_def
      by (simp only: distinct_append set_map length_map)
    moreover have "\<forall>b \<in> B. b < m + REORDER_WINDOW" if "m \<notin> B"
      using window that o unfolding s image_Un B_def by auto
    ultimately have m: "m \<in> B" using B by (intro full_buffer_has_next) (simp_all add: B_def)
    have key: "k = gs_GroupID x \<and> fits62 k" if "(k, x) \<in> set (ro_gsMap st1)" for k x
    proof -
      have "k = gs_GroupID x" using ok that by (auto simp: reorder_ok_def st1_def)
      moreover have "x \<in> set (arrived @ [g])" unfolding s using that by force
      ultimately show ?thesis using fits by simp
    qed
    let ?r = "count_up (-1) (sort (map fst (ro_gsMap st1)))"
    obtain i where "map (\<lambda>k. gid (the (gomap_get (ro_gsMap st1) k))) ?r = [m..<m + i]"
      using flush_run [OF key] m B unfolding B_def by metis
    then have "map gid (ro_out (emit ?r st1)) = [0..<m + i]"
      using out upt_add_eq_append [of 0 m i] by (simp add: emit_def st1 comp_def)
    then show ?thesis using True G by (intro exI [of _ "emit ?r st1"] exI [of _ "m + i"]) simp
  qed
qed

lemma reorder_in_order:
  assumes ok: "reorder_ok arrived st" and out: "map gid (ro_out st) = [0..<m]"
    and all: "mset (map gid (arrived @ gss)) = mset [0..<n]" and n: "n \<le> 2 ^ 62"
    and window: "sorted_wrt (\<lambda>x y. gid x < gid y + REORDER_WINDOW) (arrived @ gss)"
  shows "\<exists>st' m'. reorder_handleStream (map SGroup gss) st = Some st' \<and> reorder_ok (arrived @ gss) st' \<and>
    map gid (ro_out st') = [0..<m']"
  using ok out all window
proof (induction gss arbitrary: arrived st m)
  case (Cons g gss)
  have ids: "gid ` set (arrived @ g # gss) = {0..<n}" using mset_eq_setD [OF Cons.prems(3)] by (simp only: set_map set_upt)
  have "distinct (map gid (arrived @ g # gss))" using Cons.prems(3) by (metis mset_eq_imp_distinct_iff distinct_upt)
  then have dist: "distinct (map gid (arrived @ [g]))" by simp
  have fits: "fits62 (gs_GroupID x)" if "x \<in> set (arrived @ [g])" for x
  proof -
    have "gid x \<in> {0..<n}" unfolding ids [symmetric] using that by auto
    then show ?thesis using n by (simp add: fits62_def)
  qed
  have win: "\<forall>x \<in> set (arrived @ [g]). gid x < m + REORDER_WINDOW" if no: "m \<notin> gid ` set (arrived @ [g])"
  proof (cases "m < n")
    case True
    then have "m \<in> gid ` set (arrived @ g # gss)" unfolding ids by simp
    then obtain y where "y \<in> set gss" "gid y = m" using no by auto
    then show ?thesis using Cons.prems(4) by (auto simp: sorted_wrt_append)
  next
    case False
    have "gid x < n" if "x \<in> set (arrived @ [g])" for x
      using that ids by (metis UnI1 append.assoc append_Cons append_Nil atLeastLessThan_iff image_eqI set_append)
    then show ?thesis using False by (meson le_add1 le_trans less_le_trans not_less)
  qed
  from reorder_group_in_order [OF Cons.prems(1,2) dist fits win] obtain st1 m1 where
    st1: "reorder_group g st = Some st1" "reorder_ok (arrived @ [g]) st1" "map gid (ro_out st1) = [0..<m1]" by blast
  have "\<exists>st' m'. reorder_handleStream (map SGroup gss) st1 = Some st' \<and> reorder_ok ((arrived @ [g]) @ gss) st' \<and>
    map gid (ro_out st') = [0..<m']"
    using Cons.prems(3,4) by (intro Cons.IH [OF st1(2,3)]) simp_all
  then show ?case using st1(1) by simp
qed auto

section \<open>Properties\<close>

text \<open>The reorder buffer loses nothing. Whatever the order in which group streams with different IDs come, the
  subscriber does not panic; each stream has been handed on exactly once or is still in the buffer; and the buffer never holds 25.\<close>

lemma reorder_conserves:
  assumes "distinct (map gs_GroupID gss)"
  shows "\<exists>st. reorder_handleStream (map SGroup gss) empty_reorder = Some st \<and>
    mset (ro_out st) + mset (map snd (ro_gsMap st)) = mset gss \<and> length (ro_gsMap st) < 25"
  using reorder_handleStream_ok [OF reorder_ok_Nil, of gss] assms
  by (auto simp: reorder_ok_def contents_def REORDER_WINDOW_def)

definition group_of :: "u64 \<Rightarrow> GroupStream" where
  "group_of i = NewGroupStream 7 i 0"

theorem reorder_conserves_witness:
  "\<exists>st. reorder_handleStream (map SGroup [group_of 2, group_of 0, group_of 1]) empty_reorder = Some st \<and>
    mset (ro_out st) + mset (map snd (ro_gsMap st)) = mset [group_of 2, group_of 0, group_of 1]"
proof -
  have "distinct (map gs_GroupID [group_of 2, group_of 0, group_of 1])"
    by (simp add: group_of_def NewGroupStream_def)
  from reorder_conserves [OF this] show ?thesis by blast
qed

text \<open>Property C29 (the reorder buffer restores the order). Let the groups 0 to n - 1 come in any order in which no group comes
  after one that is 25 or more ahead of it. Then the groups are handed on exactly in the order 0, 1, 2, and so on without a gap, up
  to a group m; those that are still held back are the groups from m on, fewer than 25 of them.\<close>

theorem reorder_restores_order:
  assumes "mset (map gid gss) = mset [0..<n]" and "n \<le> 2 ^ 62" and "sorted_wrt (\<lambda>x y. gid x < gid y + 25) gss"
  shows "\<exists>st m. reorder_handleStream (map SGroup gss) empty_reorder = Some st \<and> map gid (ro_out st) = [0..<m] \<and>
    m \<le> n \<and> n < m + 25 \<and> mset (map gid (map snd (ro_gsMap st))) = mset [m..<n]"
proof -
  obtain st m where st: "reorder_handleStream (map SGroup gss) empty_reorder = Some st" "reorder_ok gss st" "map gid (ro_out st) = [0..<m]"
    using reorder_in_order [OF reorder_ok_Nil, where m = 0 and gss = gss and n = n] assms
    by (auto simp: empty_reorder_def REORDER_WINDOW_def)
  have c: "mset (ro_out st @ map snd (ro_gsMap st)) = mset gss" using st(2) by (simp add: reorder_ok_def contents_def)
  have "length (ro_out st) = m" using arg_cong [OF st(3), of length] by simp
  moreover have "length gss = n" using arg_cong [OF assms(1), of size] by simp
  moreover have "length (ro_out st) + length (ro_gsMap st) = length gss" using arg_cong [OF c, of size] by simp
  moreover have "length (ro_gsMap st) < 25" using st(2) by (simp add: reorder_ok_def REORDER_WINDOW_def)
  ultimately have mn: "m \<le> n" "n < m + 25" by simp_all
  have "mset (map gid (ro_out st @ map snd (ro_gsMap st))) = mset [0..<n]" using assms(1) by (simp only: mset_map c)
  then have "mset [0..<m] + mset (map gid (map snd (ro_gsMap st))) = mset ([0..<m] @ [m..<n])"
    using st(3) mn(1) upt_add_eq_append [of 0 m "n - m"] by (simp only: map_append mset_append) simp
  then have "mset (map gid (map snd (ro_gsMap st))) = mset [m..<n]" by simp
  with st mn show ?thesis by blast
qed

theorem reorder_restores_order_witness:
  "\<exists>st m. reorder_handleStream (map SGroup (map group_of [1, 0, 2])) empty_reorder = Some st \<and> map gid (ro_out st) = [0..<m]"
proof -
  have g: "gid (group_of i) = unat i" for i by (simp add: group_of_def NewGroupStream_def)
  have "mset (map gid (map group_of [1, 0, 2])) = mset [0..<3]" by (simp add: g numeral_3_eq_3)
  moreover have "sorted_wrt (\<lambda>x y. gid x < gid y + 25) (map group_of [1, 0, 2])" by (simp add: g)
  ultimately show ?thesis using reorder_restores_order [where n = 3 and gss = "map group_of [1, 0, 2]"] by auto
qed

end
