(* ===== verification/Pipe_Concurrency.thy ===== *)
theory Pipe_Concurrency
  imports Wire_Streams "HOL-Library.Sublist"
begin

text \<open>
  The condition-variable protocol between the goroutine that fills a stream's \<open>ObjectsArr\<close>
  (\<open>ReadObject\<close>, \<open>WriteObject\<close>, \<open>Close\<close>) and the goroutines that run \<open>Pipe\<close> in a loop, one per
  subscriber (\<open>RelayHandler.ProcessMOQTStream\<close>, \<open>PubStream.NewStream\<close>). Sources: \<open>Pipe\<close>, \<open>WriteObject\<close> and
  \<open>Close\<close> of \<open>src/moqt/wire/groupstream.go\<close> and \<open>trackstream.go\<close>.

  A step is one critical section or one access outside the lock, in any interleaving:
  appending an object or setting \<open>IsEOF\<close> with the \<open>Broadcast\<close> in the same critical section; \<open>Lock\<close> and
  \<open>Wait\<close> (which queues the goroutine and releases the lock); after a wake-up, copying the new objects
  under the lock; \<open>stream.Write\<close> without the lock, which may fail after a part of its bytes; and reading \<open>IsEOF\<close>, again without the lock. A
  \<open>sync.Cond\<close> has no memory: a broadcast wakes only the goroutines that wait at that moment.

  Shown here: whatever the interleaving, a subscriber's stream holds the encoding of a prefix of the
  objects, in order, nothing twice and nothing skipped; a goroutine that waits when the stream is closed
  delivers everything; and, in the other direction, two reachable states in which objects are lost: one where
  \<open>Pipe\<close> reports \<open>io.EOF\<close> before the last object is written, one where it waits for ever.
\<close>

section \<open>The protocol\<close>

datatype pipe_pc = PcCall | PcWaiting | PcWoken | PcCopied bytes | PcWritten | PcFailed | PcDone

record piper =
  pp_pc :: pipe_pc
  pp_index :: nat
  pp_out :: bytes

record pipe_sys =
  ps_objs :: "Object list"
  ps_eof :: bool
  ps_pipers :: "nat \<Rightarrow> piper"

datatype pipe_label = LWrite Object | LClose | LPiper nat

definition wake :: "piper \<Rightarrow> piper" where
  "wake p = (if pp_pc p = PcWaiting then p\<lparr>pp_pc := PcWoken\<rparr> else p)"

definition Broadcast :: "pipe_sys \<Rightarrow> pipe_sys" where
  "Broadcast s = s\<lparr>ps_pipers := (\<lambda>i. wake (ps_pipers s i))\<rparr>"

definition set_piper :: "nat \<Rightarrow> piper \<Rightarrow> pipe_sys \<Rightarrow> pipe_sys" where
  "set_piper i p s = s\<lparr>ps_pipers := (ps_pipers s)(i := p)\<rparr>"

text \<open>\<open>coll\<close> is the loop of \<open>Pipe\<close> that encodes the objects from the index on.\<close>

inductive pipe_step :: "(Object list \<Rightarrow> bytes option) \<Rightarrow> pipe_label \<Rightarrow> pipe_sys \<Rightarrow> pipe_sys \<Rightarrow> bool"
  for coll :: "Object list \<Rightarrow> bytes option" where
  write_object: "pipe_step coll (LWrite ob) s (Broadcast (s\<lparr>ps_objs := ps_objs s @ [ob]\<rparr>))"
| close_stream: "pipe_step coll LClose s (Broadcast (s\<lparr>ps_eof := True\<rparr>))"
| lock_wait: "ps_pipers s i = p \<Longrightarrow> pp_pc p = PcCall \<Longrightarrow>
    pipe_step coll (LPiper i) s (set_piper i (p\<lparr>pp_pc := PcWaiting\<rparr>) s)"
| copy_objects: "ps_pipers s i = p \<Longrightarrow> pp_pc p = PcWoken \<Longrightarrow>
    coll (drop (pp_index p) (ps_objs s)) = Some data \<Longrightarrow>
    pipe_step coll (LPiper i) s
      (set_piper i (p\<lparr>pp_pc := PcCopied data, pp_index := max (pp_index p) (length (ps_objs s))\<rparr>) s)"
| write_bytes: "ps_pipers s i = p \<Longrightarrow> pp_pc p = PcCopied data \<Longrightarrow>
    pipe_step coll (LPiper i) s (set_piper i (p\<lparr>pp_pc := PcWritten, pp_out := pp_out p @ data\<rparr>) s)"
| write_error: "ps_pipers s i = p \<Longrightarrow> pp_pc p = PcCopied data \<Longrightarrow>
    pipe_step coll (LPiper i) s (set_piper i (p\<lparr>pp_pc := PcFailed, pp_out := pp_out p @ take n data\<rparr>) s)"
| check_eof: "ps_pipers s i = p \<Longrightarrow> pp_pc p = PcWritten \<Longrightarrow>
    pipe_step coll (LPiper i) s
      (set_piper i (p\<lparr>pp_pc := (if ps_eof s then PcDone else PcCall)\<rparr>) s)"

inductive_cases pipe_LPiperE: "pipe_step coll (LPiper i) s t"

definition pipe_init :: "pipe_sys \<Rightarrow> bool" where
  "pipe_init s \<longleftrightarrow> s = \<lparr>ps_objs = [], ps_eof = False,
     ps_pipers = (\<lambda>_. \<lparr>pp_pc = PcCall, pp_index = 0, pp_out = []\<rparr>)\<rparr>"

definition pipe_next :: "(Object list \<Rightarrow> bytes option) \<Rightarrow> pipe_sys \<Rightarrow> pipe_sys \<Rightarrow> bool" where
  "pipe_next coll s t \<longleftrightarrow> (\<exists>l. pipe_step coll l s t)"

definition GroupStream_pipe :: "quicvarint \<Rightarrow> Object list \<Rightarrow> bytes option" where
  "GroupStream_pipe qv objs = collect_group qv objs []"

definition TrackStream_pipe :: "quicvarint \<Rightarrow> Object list \<Rightarrow> bytes option" where
  "TrackStream_pipe qv objs = collect_track qv objs []"

section \<open>The invariant\<close>

text \<open>Everything up to the index has reached the stream, apart from what has been copied and not yet written. When a write
  has failed, a part of that has.\<close>

definition piper_ok :: "(Object \<Rightarrow> bytes) \<Rightarrow> Object list \<Rightarrow> piper \<Rightarrow> bool" where
  "piper_ok e objs p \<longleftrightarrow> pp_index p \<le> length objs \<and>
    (case pp_pc p of
       PcCopied data \<Rightarrow> (\<exists>k \<le> pp_index p. pp_out p = concat (map e (take k objs))) \<and>
         pp_out p @ data = concat (map e (take (pp_index p) objs))
     | PcFailed \<Rightarrow> prefix (pp_out p) (concat (map e (take (pp_index p) objs)))
     | _ \<Rightarrow> pp_out p = concat (map e (take (pp_index p) objs)))"

definition pipe_ok :: "(Object \<Rightarrow> bytes) \<Rightarrow> pipe_sys \<Rightarrow> bool" where
  "pipe_ok e s \<longleftrightarrow> (\<forall>i. piper_ok e (ps_objs s) (ps_pipers s i))"

lemma piper_ok_wake [simp]: "piper_ok e objs (wake p) = piper_ok e objs p"
  by (auto simp: piper_ok_def wake_def split: pipe_pc.splits)

lemma piper_ok_append: "piper_ok e objs p \<Longrightarrow> piper_ok e (objs @ [ob]) p"
  unfolding piper_ok_def by (force split: pipe_pc.splits)

lemma take_enc_prefix: "prefix (concat (map e (take k objs))) (concat (map e objs))"
  by (metis append_take_drop_id concat_append map_append prefixI)

lemma piper_ok_prefix: "piper_ok e objs p \<Longrightarrow> prefix (pp_out p) (concat (map e objs))"
  using prefix_order.trans [OF _ take_enc_prefix] prefixI
  unfolding piper_ok_def by (auto split: pipe_pc.splits simp: take_enc_prefix)

lemma piper_ok_objects: "piper_ok e objs p \<Longrightarrow> pp_pc p \<noteq> PcFailed \<Longrightarrow> \<exists>k \<le> length objs. pp_out p = concat (map e (take k objs))"
  unfolding piper_ok_def by (auto split: pipe_pc.splits intro: le_trans)

lemma pipe_ok_set: "pipe_ok e s \<Longrightarrow> piper_ok e (ps_objs s) p \<Longrightarrow> pipe_ok e (set_piper i p s)"
  by (simp add: pipe_ok_def set_piper_def)

locale object_pipe =
  fixes coll :: "Object list \<Rightarrow> bytes option" and e :: "Object \<Rightarrow> bytes"
  assumes coll_enc: "coll objs = Some data \<Longrightarrow> data = concat (map e objs)"
begin

lemma copy_ok:
  assumes "piper_ok e objs p" and "pp_pc p = PcWoken" and "coll (drop (pp_index p) objs) = Some data"
  shows "piper_ok e objs (p\<lparr>pp_pc := PcCopied data, pp_index := max (pp_index p) (length objs)\<rparr>)"
proof -
  from assms have i: "pp_index p \<le> length objs" and o: "pp_out p = concat (map e (take (pp_index p) objs))"
    by (auto simp: piper_ok_def)
  have "concat (map e (take (pp_index p) objs)) @ concat (map e (drop (pp_index p) objs)) = concat (map e objs)"
    by (metis append_take_drop_id concat_append map_append)
  with i o coll_enc [OF assms(3)] show ?thesis by (auto simp: piper_ok_def max_def)
qed

lemma pipe_step_ok: "pipe_step coll l s t \<Longrightarrow> pipe_ok e s \<Longrightarrow> pipe_ok e t"
proof (induction rule: pipe_step.induct)
  case (write_object ob s)
  then show ?case by (auto simp: pipe_ok_def Broadcast_def intro: piper_ok_append)
next
  case (close_stream s)
  then show ?case by (simp add: pipe_ok_def Broadcast_def)
next
  case (copy_objects s i p data)
  then show ?case by (intro pipe_ok_set copy_ok) (auto simp: pipe_ok_def)
next
  case (write_bytes s i p data)
  then have "piper_ok e (ps_objs s) p" by (auto simp: pipe_ok_def)
  then have "piper_ok e (ps_objs s) (p\<lparr>pp_pc := PcWritten, pp_out := pp_out p @ data\<rparr>)"
    using write_bytes(2) by (auto simp: piper_ok_def)
  with write_bytes show ?case by (intro pipe_ok_set)
next
  case (lock_wait s i p)
  then have "piper_ok e (ps_objs s) p" by (auto simp: pipe_ok_def)
  then have "piper_ok e (ps_objs s) (p\<lparr>pp_pc := PcWaiting\<rparr>)"
    using lock_wait(2) by (auto simp: piper_ok_def)
  with lock_wait show ?case by (intro pipe_ok_set)
next
  case (write_error s i p data n)
  then have "piper_ok e (ps_objs s) p" by (auto simp: pipe_ok_def)
  then have "piper_ok e (ps_objs s) (p\<lparr>pp_pc := PcFailed, pp_out := pp_out p @ take n data\<rparr>)"
    using write_error(2) same_prefix_prefix [of "pp_out p" "take n data" data] by (auto simp: piper_ok_def take_is_prefix)
  with write_error show ?case by (intro pipe_ok_set)
next
  case (check_eof s i p)
  then have "piper_ok e (ps_objs s) p" by (auto simp: pipe_ok_def)
  then have "piper_ok e (ps_objs s) (p\<lparr>pp_pc := (if ps_eof s then PcDone else PcCall)\<rparr>)"
    using check_eof(2) by (auto simp: piper_ok_def)
  with check_eof show ?case by (intro pipe_ok_set)
qed

text \<open>From a woken state the goroutine delivers everything that is in the array when it copies.\<close>

lemma woken_delivers:
  assumes "pipe_ok e s" and "pp_pc (ps_pipers s i) = PcWoken"
    and "coll (drop (pp_index (ps_pipers s i)) (ps_objs s)) \<noteq> None"
  shows "\<exists>t. (pipe_step coll (LPiper i))\<^sup>*\<^sup>* s t \<and> ps_objs t = ps_objs s \<and> ps_eof t = ps_eof s \<and>
    pp_out (ps_pipers t i) = concat (map e (ps_objs s)) \<and>
    pp_pc (ps_pipers t i) = (if ps_eof s then PcDone else PcCall)"
proof -
  let ?p = "ps_pipers s i"
  from assms(3) obtain data where d: "coll (drop (pp_index ?p) (ps_objs s)) = Some data" by auto
  let ?p1 = "?p\<lparr>pp_pc := PcCopied data, pp_index := max (pp_index ?p) (length (ps_objs s))\<rparr>"
  let ?s1 = "set_piper i ?p1 s"
  let ?p2 = "?p1\<lparr>pp_pc := PcWritten, pp_out := pp_out ?p1 @ data\<rparr>"
  let ?s2 = "set_piper i ?p2 ?s1"
  let ?p3 = "?p2\<lparr>pp_pc := (if ps_eof ?s2 then PcDone else PcCall)\<rparr>"
  have 1: "pipe_step coll (LPiper i) s ?s1" using assms(2) d by (rule copy_objects [OF refl])
  have 2: "pipe_step coll (LPiper i) ?s1 ?s2" by (rule write_bytes) (simp_all add: set_piper_def)
  have 3: "pipe_step coll (LPiper i) ?s2 (set_piper i ?p3 ?s2)"
    by (rule check_eof) (simp_all add: set_piper_def)
  have "piper_ok e (ps_objs s) ?p1" using assms d by (intro copy_ok) (auto simp: pipe_ok_def)
  then have "pp_out ?p @ data = concat (map e (ps_objs s))"
    by (auto simp: piper_ok_def max_def split: if_splits)
  moreover have "(pipe_step coll (LPiper i))\<^sup>*\<^sup>* s (set_piper i ?p3 ?s2)"
    using 1 2 3 by (meson r_into_rtranclp rtranclp.rtrancl_into_rtrancl)
  ultimately show ?thesis by (intro exI [of _ "set_piper i ?p3 ?s2"]) (auto simp: set_piper_def)
qed

end

sublocale object_pipe \<subseteq> sys: invariant_system pipe_init "pipe_next coll" "pipe_ok e"
proof unfold_locales
  show "pipe_ok e s" if "pipe_init s" for s
    using that by (simp add: pipe_init_def pipe_ok_def piper_ok_def)
  show "pipe_ok e t" if "pipe_ok e s" "pipe_next coll s t" for s t
    using that by (auto simp: pipe_next_def intro: pipe_step_ok)
qed

context object_pipe
begin

lemma reach_ok: "reach pipe_init (pipe_next coll) s \<Longrightarrow> pipe_ok e s"
  by (rule sys.inv_reach)

lemma reach_prefix:
  assumes "reach pipe_init (pipe_next coll) s"
  shows "prefix (pp_out (ps_pipers s i)) (concat (map e (ps_objs s))) \<and>
    (pp_pc (ps_pipers s i) \<noteq> PcFailed \<longrightarrow> (\<exists>k \<le> length (ps_objs s). pp_out (ps_pipers s i) = concat (map e (take k (ps_objs s)))))"
  using sys.inv_reach [OF assms] piper_ok_prefix piper_ok_objects unfolding pipe_ok_def by blast

lemma close_wakes_and_delivers:
  assumes "reach pipe_init (pipe_next coll) s" and "pp_pc (ps_pipers s i) = PcWaiting"
    and "pipe_step coll LClose s t"
    and "coll (drop (pp_index (ps_pipers s i)) (ps_objs s)) \<noteq> None"
  shows "\<exists>u. (pipe_step coll (LPiper i))\<^sup>*\<^sup>* t u \<and> pp_pc (ps_pipers u i) = PcDone \<and>
    pp_out (ps_pipers u i) = concat (map e (ps_objs s))"
proof -
  have t: "t = Broadcast (s\<lparr>ps_eof := True\<rparr>)"
    using assms(3) by (cases rule: pipe_step.cases) auto
  have "pipe_ok e t" using pipe_step_ok [OF assms(3)] sys.inv_reach [OF assms(1)] by simp
  moreover have "pp_pc (ps_pipers t i) = PcWoken" "ps_objs t = ps_objs s" "ps_eof t"
    "pp_index (ps_pipers t i) = pp_index (ps_pipers s i)"
    using assms(2) by (auto simp: t Broadcast_def wake_def)
  ultimately show ?thesis using woken_delivers [of t i] assms(4) by auto
qed

end

context varint_codec
begin

lemma collect_group_Some:
  "collect_group qv objs data = Some d \<Longrightarrow> d = data @ concat (map (object_enc qv) objs)"
proof (induction objs arbitrary: data)
  case (Cons ob objs)
  then obtain b where b: "Object_GetBytes qv ob = Some b" "collect_group qv objs (data @ b) = Some d"
    by (auto simp: bind_eq_Some_conv)
  then have "b = object_enc qv ob" by (auto simp: Object_GetBytes_def object_enc_def Append_Some bind_eq_Some_conv)
  with b Cons.IH [OF b(2)] show ?case by simp
qed simp

lemma collect_track_Some:
  "collect_track qv objs data = Some d \<Longrightarrow> d = data @ concat (map (track_object_enc qv) objs)"
proof (induction objs arbitrary: data)
  case (Cons ob objs)
  then obtain b where b: "Object_GetBytes qv ob = Some b"
      "collect_track qv objs ((data @ venc qv (obj_GroupID ob)) @ b) = Some d"
    by (auto simp: bind_eq_Some_conv Append_Some)
  then have "b = object_enc qv ob" by (auto simp: Object_GetBytes_def object_enc_def Append_Some bind_eq_Some_conv)
  with b Cons.IH [OF b(2)] show ?case by (simp add: track_object_enc_def)
qed simp

end

sublocale varint_codec \<subseteq> grp: object_pipe "GroupStream_pipe qv" "object_enc qv"
  by unfold_locales (auto simp: GroupStream_pipe_def dest: collect_group_Some)

sublocale varint_codec \<subseteq> trk: object_pipe "TrackStream_pipe qv" "track_object_enc qv"
  by unfold_locales (auto simp: TrackStream_pipe_def dest: collect_track_Some)

context varint_codec
begin

lemmas group_prefix = grp.reach_prefix
lemmas track_prefix = trk.reach_prefix
lemmas group_close = grp.close_wakes_and_delivers

lemma GroupStream_pipe_ok: "list_all Object_ok os \<Longrightarrow> GroupStream_pipe qv os = Some (concat (map (object_enc qv) os))"
  by (simp add: GroupStream_pipe_def collect_group_ok)

end

section \<open>Two runs that lose objects\<close>

text \<open>Both start from the initial state with one subscriber (number 0) and two objects \<open>a\<close> and \<open>b\<close>.\<close>

definition pipe0 :: pipe_sys where
  "pipe0 = \<lparr>ps_objs = [], ps_eof = False,
     ps_pipers = (\<lambda>_. \<lparr>pp_pc = PcCall, pp_index = 0, pp_out = []\<rparr>)\<rparr>"

definition early_eof :: "Object \<Rightarrow> Object \<Rightarrow> bytes \<Rightarrow> pipe_sys" where
  "early_eof a b data =
    (let s1 = set_piper 0 (\<lparr>pp_pc = PcWaiting, pp_index = 0, pp_out = []\<rparr>) pipe0;
         s2 = Broadcast (s1\<lparr>ps_objs := [a]\<rparr>);
         s3 = set_piper 0 (\<lparr>pp_pc = PcCopied data, pp_index = 1, pp_out = []\<rparr>) s2;
         s4 = Broadcast (s3\<lparr>ps_objs := [a, b]\<rparr>);
         s5 = Broadcast (s4\<lparr>ps_eof := True\<rparr>);
         s6 = set_piper 0 (\<lparr>pp_pc = PcWritten, pp_index = 1, pp_out = data\<rparr>) s5
     in set_piper 0 (\<lparr>pp_pc = PcDone, pp_index = 1, pp_out = data\<rparr>) s6)"

lemma reach_via: "reach pipe_init (pipe_next coll) s \<Longrightarrow> pipe_step coll l s t \<Longrightarrow> reach pipe_init (pipe_next coll) t"
  by (rule reach_step) (auto simp: pipe_next_def)

lemma reach_pipe0: "reach pipe_init (pipe_next coll) pipe0"
  by (rule reach_init) (simp add: pipe_init_def pipe0_def)

lemma set_piper_same [simp]: "ps_pipers (set_piper i p s) i = p"
  by (simp add: set_piper_def)

lemma pipe_sys_simps [simp]:
  "ps_objs (set_piper i p s) = ps_objs s" "ps_eof (set_piper i p s) = ps_eof s"
  "ps_objs (Broadcast s) = ps_objs s" "ps_eof (Broadcast s) = ps_eof s"
  "ps_pipers (Broadcast s) i = wake (ps_pipers s i)"
  by (simp_all add: set_piper_def Broadcast_def)

lemma early_eof_reachable:
  assumes "coll [a] = Some data"
  shows "reach pipe_init (pipe_next coll) (early_eof a b data)"
proof -
  let ?s1 = "set_piper 0 (\<lparr>pp_pc = PcWaiting, pp_index = 0, pp_out = []\<rparr>) pipe0"
  let ?s2 = "Broadcast (?s1\<lparr>ps_objs := [a]\<rparr>)"
  let ?s3 = "set_piper 0 (\<lparr>pp_pc = PcCopied data, pp_index = 1, pp_out = []\<rparr>) ?s2"
  let ?s4 = "Broadcast (?s3\<lparr>ps_objs := [a, b]\<rparr>)"
  let ?s5 = "Broadcast (?s4\<lparr>ps_eof := True\<rparr>)"
  let ?s6 = "set_piper 0 (\<lparr>pp_pc = PcWritten, pp_index = 1, pp_out = data\<rparr>) ?s5"
  have 1: "pipe_step coll (LPiper 0) pipe0 ?s1"
    using lock_wait [of pipe0 0 _ coll] by (simp add: pipe0_def)
  have 2: "pipe_step coll (LWrite a) ?s1 ?s2"
    using write_object [of coll a ?s1] by (simp add: pipe0_def set_piper_def)
  have 3: "pipe_step coll (LPiper 0) ?s2 ?s3"
    using copy_objects [of ?s2 0 "\<lparr>pp_pc = PcWoken, pp_index = 0, pp_out = []\<rparr>" coll data] assms
    by (simp add: wake_def)
  have 4: "pipe_step coll (LWrite b) ?s3 ?s4"
    using write_object [of coll b ?s3] by simp
  have 5: "pipe_step coll LClose ?s4 ?s5" by (rule close_stream)
  have 6: "pipe_step coll (LPiper 0) ?s5 ?s6"
    using write_bytes [of ?s5 0 "\<lparr>pp_pc = PcCopied data, pp_index = 1, pp_out = []\<rparr>" data coll]
    by (simp add: wake_def)
  have 7: "pipe_step coll (LPiper 0) ?s6 (early_eof a b data)"
    using check_eof [of ?s6 0 "\<lparr>pp_pc = PcWritten, pp_index = 1, pp_out = data\<rparr>" coll]
    by (simp add: early_eof_def Let_def)
  show ?thesis
    by (rule reach_pipe0 [THEN reach_via [OF _ 1], THEN reach_via [OF _ 2], THEN reach_via [OF _ 3],
          THEN reach_via [OF _ 4], THEN reach_via [OF _ 5], THEN reach_via [OF _ 6], THEN reach_via [OF _ 7]])
qed

definition lost_wakeup :: "Object \<Rightarrow> pipe_sys" where
  "lost_wakeup a =
    (let s1 = Broadcast (pipe0\<lparr>ps_objs := [a]\<rparr>);
         s2 = Broadcast (s1\<lparr>ps_eof := True\<rparr>)
     in set_piper 0 (\<lparr>pp_pc = PcWaiting, pp_index = 0, pp_out = []\<rparr>) s2)"

lemma lost_wakeup_reachable: "reach pipe_init (pipe_next coll) (lost_wakeup a)"
proof -
  let ?s1 = "Broadcast (pipe0\<lparr>ps_objs := [a]\<rparr>)"
  let ?s2 = "Broadcast (?s1\<lparr>ps_eof := True\<rparr>)"
  have 1: "pipe_step coll (LWrite a) pipe0 ?s1"
    using write_object [of coll a pipe0] by (simp add: pipe0_def)
  have 2: "pipe_step coll LClose ?s1 ?s2" by (rule close_stream)
  have 3: "pipe_step coll (LPiper 0) ?s2 (lost_wakeup a)"
    using lock_wait [of ?s2 0 "\<lparr>pp_pc = PcCall, pp_index = 0, pp_out = []\<rparr>" coll]
    by (simp add: lost_wakeup_def Let_def wake_def pipe0_def)
  show ?thesis
    by (rule reach_pipe0 [THEN reach_via [OF _ 1], THEN reach_via [OF _ 2], THEN reach_via [OF _ 3]])
qed

lemma waiting_stuck: "pp_pc (ps_pipers s i) = PcWaiting \<Longrightarrow> \<not> pipe_step coll (LPiper i) s t"
  by (auto elim!: pipe_LPiperE)

section \<open>Properties\<close>

text \<open>What a subscriber receives is a prefix. In every reachable state of the goroutines
  around a group stream, whatever their interleaving and however many subscribers there are, the bytes
  written to a subscriber are the encoding of the first \<open>k\<close> objects of the stream for some \<open>k\<close>: no object is
  reordered, repeated or left out in between. After a write that failed they are still a prefix of the encoding.\<close>

lemma group_pipe_writes_prefix:
  assumes "varint_codec qv" and "reach pipe_init (pipe_next (GroupStream_pipe qv)) s"
  shows "prefix (pp_out (ps_pipers s i)) (concat (map (object_enc qv) (ps_objs s))) \<and>
    (pp_pc (ps_pipers s i) \<noteq> PcFailed \<longrightarrow>
      (\<exists>k \<le> length (ps_objs s). pp_out (ps_pipers s i) = concat (map (object_enc qv) (take k (ps_objs s)))))"
  using assms by (rule varint_codec.group_prefix)

definition sample_obj :: Object where
  "sample_obj = \<lparr>obj_GroupID = 0, obj_ID = 1, obj_Payload = [42]\<rparr>"

lemma sample_obj_ok: "Object_ok sample_obj"
  by (simp add: sample_obj_def Object_ok_def fits62_def maxAlloc_def)

lemma sample_obj_pipe: "GroupStream_pipe rfc9000 [sample_obj] = Some (object_enc rfc9000 sample_obj)"
  using rfc.GroupStream_pipe_ok [of "[sample_obj]"] sample_obj_ok by simp

lemma sample_runs_pc:
  "pp_pc (ps_pipers (early_eof a b data) 0) = PcDone" "pp_pc (ps_pipers (lost_wakeup a) 0) = PcWaiting"
  by (simp_all add: early_eof_def lost_wakeup_def Let_def)

theorem group_pipe_writes_prefix_witness:
  "reach pipe_init (pipe_next (GroupStream_pipe rfc9000)) (early_eof sample_obj sample_obj (object_enc rfc9000 sample_obj)) \<and>
   (\<exists>k \<le> length (ps_objs (early_eof sample_obj sample_obj (object_enc rfc9000 sample_obj))).
      pp_out (ps_pipers (early_eof sample_obj sample_obj (object_enc rfc9000 sample_obj)) 0)
        = concat (map (object_enc rfc9000) (take k (ps_objs (early_eof sample_obj sample_obj (object_enc rfc9000 sample_obj))))))"
  using early_eof_reachable [where coll = "GroupStream_pipe rfc9000", OF sample_obj_pipe] sample_runs_pc(1) pipe_pc.distinct
    group_pipe_writes_prefix [OF rfc9000_codec early_eof_reachable [where coll = "GroupStream_pipe rfc9000", OF sample_obj_pipe]] by metis

text \<open>The same for a track stream.\<close>

lemma track_pipe_writes_prefix:
  assumes "varint_codec qv" and "reach pipe_init (pipe_next (TrackStream_pipe qv)) s"
  shows "prefix (pp_out (ps_pipers s i)) (concat (map (track_object_enc qv) (ps_objs s))) \<and>
    (pp_pc (ps_pipers s i) \<noteq> PcFailed \<longrightarrow>
      (\<exists>k \<le> length (ps_objs s). pp_out (ps_pipers s i) = concat (map (track_object_enc qv) (take k (ps_objs s)))))"
  using assms by (rule varint_codec.track_prefix)

theorem track_pipe_writes_prefix_witness:
  "reach pipe_init (pipe_next (TrackStream_pipe rfc9000)) (lost_wakeup sample_obj) \<and>
   (\<exists>k \<le> length (ps_objs (lost_wakeup sample_obj)).
      pp_out (ps_pipers (lost_wakeup sample_obj) 0)
        = concat (map (track_object_enc rfc9000) (take k (ps_objs (lost_wakeup sample_obj)))))"
  using lost_wakeup_reachable sample_runs_pc(2) pipe_pc.distinct
    track_pipe_writes_prefix [OF rfc9000_codec lost_wakeup_reachable] by metis

text \<open>Closing a stream whose subscriber waits delivers everything. If the goroutine of a
  subscriber is waiting when the stream is closed, then it can run on its own, without any further step of the
  producer, to the end of the stream, and has then written every object of the stream.\<close>

lemma close_delivers_to_waiting:
  assumes "varint_codec qv" and "reach pipe_init (pipe_next (GroupStream_pipe qv)) s"
    and "pp_pc (ps_pipers s i) = PcWaiting" and "pipe_step (GroupStream_pipe qv) LClose s t"
    and "list_all Object_ok (ps_objs s)"
  shows "\<exists>u. (pipe_step (GroupStream_pipe qv) (LPiper i))\<^sup>*\<^sup>* t u \<and> pp_pc (ps_pipers u i) = PcDone \<and>
    pp_out (ps_pipers u i) = concat (map (object_enc qv) (ps_objs s))"
proof (rule varint_codec.group_close [OF assms(1-4)])
  have "list_all Object_ok (drop (pp_index (ps_pipers s i)) (ps_objs s))"
    using assms(5) by (auto simp: list_all_iff dest: in_set_dropD)
  then show "GroupStream_pipe qv (drop (pp_index (ps_pipers s i)) (ps_objs s)) \<noteq> None"
    by (simp add: varint_codec.GroupStream_pipe_ok [OF assms(1)])
qed

theorem close_delivers_to_waiting_witness:
  "pp_pc (ps_pipers (lost_wakeup sample_obj) 0) = PcWaiting \<and>
   (\<exists>u. (pipe_step (GroupStream_pipe rfc9000) (LPiper 0))\<^sup>*\<^sup>* (Broadcast (lost_wakeup sample_obj\<lparr>ps_eof := True\<rparr>)) u \<and>
    pp_pc (ps_pipers u 0) = PcDone \<and>
    pp_out (ps_pipers u 0) = concat (map (object_enc rfc9000) (ps_objs (lost_wakeup sample_obj))))"
proof -
  have w: "pp_pc (ps_pipers (lost_wakeup sample_obj) 0) = PcWaiting"
    by (simp add: lost_wakeup_def Let_def)
  have o: "list_all Object_ok (ps_objs (lost_wakeup sample_obj))"
    by (simp add: lost_wakeup_def Let_def sample_obj_ok)
  from close_delivers_to_waiting [OF rfc9000_codec lost_wakeup_reachable w close_stream o] w
  show ?thesis by simp
qed

text \<open>Objects lost at the end of a stream. There is an interleaving in which \<open>Pipe\<close> returns
  \<open>io.EOF\<close>, so that the subscriber's stream is closed, although the last object was appended before the
  stream was closed and has not been written: \<open>IsEOF\<close> is read after the lock was released and the bytes of an
  older array were written.\<close>

lemma pipe_eof_can_drop_objects:
  assumes "varint_codec qv" and "Object_ok a" and "Object_ok b"
  shows "\<exists>s. reach pipe_init (pipe_next (GroupStream_pipe qv)) s \<and> ps_objs s = [a, b] \<and> ps_eof s \<and>
    pp_pc (ps_pipers s 0) = PcDone \<and> pp_out (ps_pipers s 0) = object_enc qv a"
proof -
  have "GroupStream_pipe qv [a] = Some (object_enc qv a)"
    using assms varint_codec.GroupStream_pipe_ok [OF assms(1), of "[a]"] by simp
  from early_eof_reachable [where coll = "GroupStream_pipe qv", OF this, of b]
  show ?thesis by (intro exI [of _ "early_eof a b (object_enc qv a)"]) (auto simp: early_eof_def Let_def)
qed

theorem pipe_eof_can_drop_objects_witness:
  "Object_ok sample_obj \<and> (\<exists>s. reach pipe_init (pipe_next (GroupStream_pipe rfc9000)) s \<and>
    ps_objs s = [sample_obj, sample_obj] \<and> ps_eof s \<and> pp_pc (ps_pipers s 0) = PcDone \<and>
    pp_out (ps_pipers s 0) = object_enc rfc9000 sample_obj)"
  using pipe_eof_can_drop_objects [OF rfc9000_codec sample_obj_ok sample_obj_ok] sample_obj_ok by blast

text \<open>A lost wake-up. \<open>Pipe\<close> waits before it looks at the array. There is a reachable state
  in which the stream holds an object and is closed, nothing has been written to the subscriber, and its
  goroutine waits for a broadcast: no step of its own is possible any more.\<close>

lemma pipe_can_wait_for_ever:
  "\<exists>s. reach pipe_init (pipe_next (GroupStream_pipe qv)) s \<and> ps_objs s = [a] \<and> ps_eof s \<and>
    pp_out (ps_pipers s 0) = [] \<and> pp_pc (ps_pipers s 0) = PcWaiting \<and>
    (\<nexists>t. pipe_step (GroupStream_pipe qv) (LPiper 0) s t)"
proof -
  have w: "pp_pc (ps_pipers (lost_wakeup a) 0) = PcWaiting" by (simp add: lost_wakeup_def Let_def)
  moreover have "ps_objs (lost_wakeup a) = [a]" "ps_eof (lost_wakeup a)" "pp_out (ps_pipers (lost_wakeup a) 0) = []"
    by (simp_all add: lost_wakeup_def Let_def)
  ultimately show ?thesis
    using lost_wakeup_reachable [of "GroupStream_pipe qv" a] waiting_stuck [OF w] by blast
qed

end
