(* ===== verification/Stream_Goroutines.thy ===== *)
theory Stream_Goroutines
  imports Pipe_Concurrency Pub_Sub_Handlers
begin

text \<open>
  The goroutines around one stream of objects. In the relay (\<open>ProcessObjects\<close> and \<open>ForwardStream\<close> of \<open>src/moqt/relaystream.go\<close>,
  \<open>ProcessMOQTStream\<close> of \<open>src/moqt/relayhandler.go\<close>) one goroutine starts another for every subscriber, waits until each has
  written its header or given up, and then reads the objects of the publisher into the array and the cache; each of the others pipes
  the array to its subscriber and closes its stream. All of them run in any interleaving: \<open>fan_step\<close> is one step of one of
  them. What a goroutine finds in its table of subscriptions when it looks there, \<open>ws sub\<close>, and the result of opening its stream,
  \<open>opened sub\<close>, are arguments.

  A write that fails may have written a part of its bytes. The error of writing the header is ignored by the code; on that stream
  no later write succeeds.

  Shown here: the system refines the pipes of \<open>Pipe_Concurrency\<close>; each subscriber reads its own subscription and a prefix of the
  publisher's objects; the relay reads the stream to its end whatever its subscribers do; and which subscribers then
  have everything. The publisher's own goroutine (\<open>NewStream\<close> of \<open>src/moqt/pubstream.go\<close>) is \<open>pub_pipe_step\<close>: it leaves a gap after a
  write error; a run without one (\<open>pub_run\<close>) is a run of the pipe.
\<close>

section \<open>The relay: one stream, many subscribers\<close>

datatype forward_pc = FwdSpawn "ref list" | FwdRead | FwdCache Object | FwdEnd goerror

text \<open>The goroutine of a subscriber: not started; before its header; returned without a stream; in the loop over \<open>Pipe\<close>; its stream
  closed. The bytes are those of the header that reached the stream, and the flag says whether all of them did.\<close>

datatype sub_phase = SubIdle | SubStarted | SubGone | SubPiping bytes bool | SubClosed bytes bool

record fanout =
  fo_stream :: MOQTStream
  fo_rs :: RelayStream
  fo_main :: forward_pc
  fo_phase :: "ref \<Rightarrow> sub_phase"
  fo_pipers :: "ref \<Rightarrow> piper"

definition new_piper :: piper where
  "new_piper = \<lparr>pp_pc = PcCall, pp_index = 0, pp_out = []\<rparr>"

fun MOQTStream_IsEOF :: "MOQTStream \<Rightarrow> bool" where
  "MOQTStream_IsEOF (SGroup gs) = gs_IsEOF gs"
| "MOQTStream_IsEOF (STrack ts) = ts_IsEOF ts"

fun MOQTStream_pipe :: "quicvarint \<Rightarrow> MOQTStream \<Rightarrow> Object list \<Rightarrow> bytes option" where
  "MOQTStream_pipe qv (SGroup gs) = GroupStream_pipe qv"
| "MOQTStream_pipe qv (STrack ts) = TrackStream_pipe qv"

definition fan_pipes :: "fanout \<Rightarrow> pipe_sys" where
  "fan_pipes s = \<lparr>ps_objs = MOQTStream_objects (fo_stream s), ps_eof = MOQTStream_IsEOF (fo_stream s), ps_pipers = fo_pipers s\<rparr>"

definition fan_wake :: "fanout \<Rightarrow> fanout" where
  "fan_wake s = s\<lparr>fo_pipers := (\<lambda>i. wake (fo_pipers s i))\<rparr>"

definition set_phase :: "ref \<Rightarrow> sub_phase \<Rightarrow> fanout \<Rightarrow> fanout" where
  "set_phase sub ph s = s\<lparr>fo_phase := (fo_phase s)(sub := ph)\<rparr>"

inductive fan_step :: "quicvarint \<Rightarrow> (ref \<Rightarrow> world) \<Rightarrow> (ref \<Rightarrow> goerror option) \<Rightarrow> fanout \<Rightarrow> fanout \<Rightarrow> bool"
  for qv :: quicvarint and ws :: "ref \<Rightarrow> world" and opened :: "ref \<Rightarrow> goerror option" where
  fan_spawn: "fo_main s = FwdSpawn (sub # subs) \<Longrightarrow>
    fan_step qv ws opened s (set_phase sub SubStarted (s\<lparr>fo_stream := MOQTStream_WgAdd (fo_stream s), fo_main := FwdSpawn subs\<rparr>))"
| fan_WgWait: "fo_main s = FwdSpawn [] \<Longrightarrow> MOQTStream_WgWait (fo_stream s) \<Longrightarrow> fan_step qv ws opened s (s\<lparr>fo_main := FwdRead\<rparr>)"
| fan_read: "fo_main s = FwdRead \<Longrightarrow> MOQTStream_ReadObject qv (fo_stream s) = Some (Inr (gid, ob), st) \<Longrightarrow>
    fan_step qv ws opened s (fan_wake (s\<lparr>fo_stream := st, fo_main := FwdCache ob\<rparr>))"
| fan_cache: "fo_main s = FwdCache ob \<Longrightarrow>
    fan_step qv ws opened s (s\<lparr>fo_rs := RelayStream_cacheObject (obj_GroupID ob) (obj_ID ob) (obj_Payload ob) (fo_rs s), fo_main := FwdRead\<rparr>)"
| fan_eof: "fo_main s = FwdRead \<Longrightarrow> MOQTStream_ReadObject qv (fo_stream s) = Some (Inl EOF, st) \<Longrightarrow>
    fan_step qv ws opened s (fan_wake (s\<lparr>fo_stream := st, fo_main := FwdEnd EOF\<rparr>))"
| fan_error: "fo_main s = FwdRead \<Longrightarrow> MOQTStream_ReadObject qv (fo_stream s) = Some (Inl err, st) \<Longrightarrow> err \<noteq> EOF \<Longrightarrow>
    fan_step qv ws opened s (s\<lparr>fo_stream := st, fo_main := FwdEnd err\<rparr>)"
| fan_return: "fo_phase s sub = SubStarted \<Longrightarrow>
    RelayHandler_ProcessMOQTStream qv sub (fo_stream s) (opened sub) (ws sub) = Some (None, st) \<Longrightarrow>
    fan_step qv ws opened s (set_phase sub SubGone (s\<lparr>fo_stream := st\<rparr>))"
| fan_header: "fo_phase s sub = SubStarted \<Longrightarrow>
    RelayHandler_ProcessMOQTStream qv sub (fo_stream s) (opened sub) (ws sub) = Some (Some h, st) \<Longrightarrow>
    fan_step qv ws opened s (set_phase sub (SubPiping h True) (s\<lparr>fo_stream := st\<rparr>))"
| fan_header_error: "fo_phase s sub = SubStarted \<Longrightarrow>
    RelayHandler_ProcessMOQTStream qv sub (fo_stream s) (opened sub) (ws sub) = Some (Some h, st) \<Longrightarrow>
    fan_step qv ws opened s (set_phase sub (SubPiping (take n h) False) (s\<lparr>fo_stream := st\<rparr>))"
| fan_pipe: "fo_phase s sub = SubPiping h works \<Longrightarrow>
    pipe_step (MOQTStream_pipe qv (fo_stream s)) (LPiper sub) (fan_pipes s) ps \<Longrightarrow>
    works \<or> pp_out (ps_pipers ps sub) = pp_out (fo_pipers s sub) \<Longrightarrow>
    fan_step qv ws opened s (s\<lparr>fo_pipers := ps_pipers ps\<rparr>)"
| fan_close: "fo_phase s sub = SubPiping h works \<Longrightarrow> pp_pc (fo_pipers s sub) = PcDone \<or> pp_pc (fo_pipers s sub) = PcFailed \<Longrightarrow>
    fan_step qv ws opened s (set_phase sub (SubClosed h works) s)"

definition fan_init :: "MOQTStream \<Rightarrow> RelayStream \<Rightarrow> ref list \<Rightarrow> fanout \<Rightarrow> bool" where
  "fan_init stream rs subs s \<longleftrightarrow> s = \<lparr>fo_stream = stream, fo_rs = rs, fo_main = FwdSpawn subs, fo_phase = (\<lambda>_. SubIdle),
     fo_pipers = (\<lambda>_. new_piper)\<rparr>"

text \<open>What is on the stream of a subscriber.\<close>

definition fan_bytes :: "fanout \<Rightarrow> ref \<Rightarrow> bytes" where
  "fan_bytes s sub = (case fo_phase s sub of
      SubPiping h _ \<Rightarrow> h @ pp_out (fo_pipers s sub)
    | SubClosed h _ \<Rightarrow> h @ pp_out (fo_pipers s sub)
    | _ \<Rightarrow> [])"

section \<open>Refinement of the pipes\<close>

lemma fan_simps [simp]:
  "fo_stream (set_phase sub ph s) = fo_stream s" "fo_rs (set_phase sub ph s) = fo_rs s" "fo_main (set_phase sub ph s) = fo_main s"
  "fo_phase (set_phase sub ph s) = (fo_phase s)(sub := ph)" "fo_pipers (set_phase sub ph s) = fo_pipers s"
  "fo_stream (fan_wake s) = fo_stream s" "fo_rs (fan_wake s) = fo_rs s" "fo_main (fan_wake s) = fo_main s"
  "fo_phase (fan_wake s) = fo_phase s" "fo_pipers (fan_wake s) i = wake (fo_pipers s i)"
  by (simp_all add: set_phase_def fan_wake_def)

lemma WgWait_wg [simp]: "MOQTStream_WgWait st \<longleftrightarrow> MOQTStream_wg st = 0"
  by (cases st) simp_all

text \<open>What the operations on a stream change of it.\<close>

fun same_stream :: "MOQTStream \<Rightarrow> MOQTStream \<Rightarrow> bool" where
  "same_stream (SGroup gs) (SGroup gs') \<longleftrightarrow> gs_TrackAlias gs' = gs_TrackAlias gs \<and> gs_GroupID gs' = gs_GroupID gs \<and>
     gs_SendOrder gs' = gs_SendOrder gs \<and> gs_StreamID gs' = gs_StreamID gs"
| "same_stream (STrack ts) (STrack ts') \<longleftrightarrow> ts_TrackAlias ts' = ts_TrackAlias ts \<and> ts_SendOrder ts' = ts_SendOrder ts \<and>
     ts_StreamID ts' = ts_StreamID ts"
| "same_stream _ _ \<longleftrightarrow> False"

lemma same_stream_refl [simp]: "same_stream st st"
  by (cases st) simp_all

lemma same_stream_trans: "same_stream a b \<Longrightarrow> same_stream b c \<Longrightarrow> same_stream a c"
  by (cases a; cases b; cases c) simp_all

lemma same_streamD:
  assumes "same_stream st st'"
  shows "MOQTStream_pipe qv st' = MOQTStream_pipe qv st" and "MOQTStream_header_ok st' = MOQTStream_header_ok st"
    and "MOQTStream_GetStreamID st' = MOQTStream_GetStreamID st"
    and "MOQTStream_GetHeaderSubIDBytes qv st' k = MOQTStream_GetHeaderSubIDBytes qv st k"
  using assms by (cases st; cases st'; simp add: GroupStream_GetHeaderSubIDBytes_def TrackStream_GetHeaderSubIDBytes_def)+

lemma WgAdd_stream [simp]:
  "same_stream st (MOQTStream_WgAdd st)" "MOQTStream_objects (MOQTStream_WgAdd st) = MOQTStream_objects st"
  "MOQTStream_IsEOF (MOQTStream_WgAdd st) = MOQTStream_IsEOF st" "MOQTStream_reader (MOQTStream_WgAdd st) = MOQTStream_reader st"
  by (cases st; simp add: GroupStream_WgAdd_def TrackStream_WgAdd_def)+

lemma WgDone_stream:
  assumes "MOQTStream_WgDone st = Some st'"
  shows "same_stream st st'" and "MOQTStream_objects st' = MOQTStream_objects st" and "MOQTStream_IsEOF st' = MOQTStream_IsEOF st"
    and "MOQTStream_reader st' = MOQTStream_reader st" and "MOQTStream_wg st = Suc (MOQTStream_wg st')"
  using assms by (cases st; auto simp: GroupStream_WgDone_def TrackStream_WgDone_def split: if_splits)+

lemma ReadObject_stream:
  assumes "MOQTStream_ReadObject qv st = Some (res, st')"
  shows "same_stream st st'" and "MOQTStream_wg st' = MOQTStream_wg st"
    and "MOQTStream_objects st' = MOQTStream_objects st @ (case res of Inl _ \<Rightarrow> [] | Inr (gid, ob) \<Rightarrow> [ob])"
    and "MOQTStream_IsEOF st' \<longleftrightarrow> MOQTStream_IsEOF st \<or> res = Inl EOF"
  using assms
  by (cases st; auto simp: GroupStream_ReadObject_def TrackStream_ReadObject_def GroupStream_WriteObject_def TrackStream_WriteObject_def
      GroupStream_Close_def TrackStream_Close_def Let_def split: option.splits prod.splits sum.splits if_splits)+

lemma ProcessMOQTStream_WgDone:
  assumes "RelayHandler_ProcessMOQTStream qv sub st opened w = Some (hdr, st')"
  shows "MOQTStream_WgDone st = Some st'"
proof -
  obtain rh where "get_relay w sub = Some rh" using assms by (auto simp: RelayHandler_ProcessMOQTStream_def bind_eq_Some_conv)
  with assms show ?thesis
    by (cases "GetSubID (strm_StreamID w) (rh_SubscribedStreams rh) (MOQTStream_GetStreamID st)"; cases opened)
      (auto simp: RelayHandler_ProcessMOQTStream_def bind_eq_Some_conv)
qed

lemmas ProcessMOQTStream_stream = WgDone_stream [OF ProcessMOQTStream_WgDone]

lemma fan_stream_step: "fan_step qv ws opened s t \<Longrightarrow> same_stream (fo_stream s) (fo_stream t)"
  by (induction rule: fan_step.induct) (auto dest!: ProcessMOQTStream_stream(1) ReadObject_stream(1))

lemma fan_pipes_step:
  assumes "fan_step qv ws opened s t"
  shows "fan_pipes t = fan_pipes s \<or> pipe_next (MOQTStream_pipe qv (fo_stream s)) (fan_pipes s) (fan_pipes t)"
  using assms
proof (induction rule: fan_step.induct)
  case (fan_read s gid ob st)
  have "fan_pipes (fan_wake (s\<lparr>fo_stream := st, fo_main := FwdCache ob\<rparr>)) =
      Broadcast ((fan_pipes s)\<lparr>ps_objs := ps_objs (fan_pipes s) @ [ob]\<rparr>)"
    using ReadObject_stream(3,4) [OF fan_read(2)] by (simp add: fan_pipes_def fan_wake_def Broadcast_def)
  then show ?case using write_object unfolding pipe_next_def by metis
next
  case (fan_eof s st)
  have "fan_pipes (fan_wake (s\<lparr>fo_stream := st, fo_main := FwdEnd EOF\<rparr>)) = Broadcast ((fan_pipes s)\<lparr>ps_eof := True\<rparr>)"
    using ReadObject_stream(3,4) [OF fan_eof(2)] by (simp add: fan_pipes_def fan_wake_def Broadcast_def)
  then show ?case using close_stream unfolding pipe_next_def by metis
next
  case (fan_error s err st)
  then show ?case using ReadObject_stream(3,4) [OF fan_error(2)] by (simp add: fan_pipes_def)
next
  case (fan_pipe s sub h works ps)
  have "fan_pipes (s\<lparr>fo_pipers := ps_pipers ps\<rparr>) = ps"
    using fan_pipe(2) by (auto simp: fan_pipes_def set_piper_def elim!: pipe_LPiperE)
  then show ?case using fan_pipe(2) unfolding pipe_next_def by metis
qed (simp_all add: fan_pipes_def ProcessMOQTStream_stream)

section \<open>The invariant\<close>

text \<open>The wait group counts the goroutines before their header; the reader starts when there is none.\<close>

definition fan_wg_ok :: "MOQTStream \<Rightarrow> ref list \<Rightarrow> fanout \<Rightarrow> bool" where
  "fan_wg_ok stream subs s \<longleftrightarrow> same_stream stream (fo_stream s) \<and>
    (\<forall>sub. sub \<notin> set subs \<longrightarrow> fo_phase s sub = SubIdle) \<and>
    MOQTStream_wg (fo_stream s) = card {sub. fo_phase s sub = SubStarted} \<and>
    (case fo_main s of
       FwdSpawn rest \<Rightarrow> distinct rest \<and> set rest \<subseteq> set subs \<and> (\<forall>sub \<in> set subs. fo_phase s sub = SubIdle \<longleftrightarrow> sub \<in> set rest)
     | _ \<Rightarrow> \<forall>sub \<in> set subs. fo_phase s sub \<noteq> SubIdle \<and> fo_phase s sub \<noteq> SubStarted)"

text \<open>Each goroutine that has a stream has its own header on it, or a part of that and nothing else.\<close>

definition fan_sub_ok :: "quicvarint \<Rightarrow> (ref \<Rightarrow> world) \<Rightarrow> MOQTStream \<Rightarrow> ref \<Rightarrow> sub_phase \<Rightarrow> piper \<Rightarrow> bool" where
  "fan_sub_ok qv ws stream sub ph p \<longleftrightarrow> (case ph of
      SubPiping b works \<Rightarrow> \<exists>h. own_header qv (ws sub) stream sub h \<and> (if works then b = h else prefix b h \<and> pp_out p = [])
    | SubClosed b works \<Rightarrow> \<exists>h. own_header qv (ws sub) stream sub h \<and> (if works then b = h else prefix b h \<and> pp_out p = [])
    | _ \<Rightarrow> p = new_piper)"

definition fan_ok :: "quicvarint \<Rightarrow> (ref \<Rightarrow> world) \<Rightarrow> MOQTStream \<Rightarrow> ref list \<Rightarrow> fanout \<Rightarrow> bool" where
  "fan_ok qv ws stream subs s \<longleftrightarrow> fan_wg_ok stream subs s \<and> (\<forall>sub. fan_sub_ok qv ws stream sub (fo_phase s sub) (fo_pipers s sub))"

lemma wake_new_piper [simp]: "wake new_piper = new_piper"
  by (simp add: wake_def new_piper_def)

lemma wake_out [simp]: "pp_out (wake p) = pp_out p"
  by (simp add: wake_def)

lemma fan_sub_ok_wake: "fan_sub_ok qv ws stream sub ph p \<Longrightarrow> fan_sub_ok qv ws stream sub ph (wake p)"
  by (auto simp: fan_sub_ok_def split: sub_phase.splits)

lemma fan_sub_ok_close: "fan_sub_ok qv ws stream sub (SubPiping b works) p \<Longrightarrow> fan_sub_ok qv ws stream sub (SubClosed b works) p"
  by (simp add: fan_sub_ok_def)

lemma started_finite: "fan_wg_ok stream subs s \<Longrightarrow> finite {sub. fo_phase s sub = SubStarted}"
  by (rule finite_subset [of _ "set subs"]) (auto simp: fan_wg_ok_def)

lemma started_in: "fan_wg_ok stream subs s \<Longrightarrow> fo_phase s sub = SubStarted \<Longrightarrow> sub \<in> set subs \<and> (\<exists>rest. fo_main s = FwdSpawn rest)"
  by (cases "fo_main s") (auto simp: fan_wg_ok_def)

lemma fan_leave:
  assumes "fan_wg_ok stream subs s" and "fo_phase s sub = SubStarted" and "MOQTStream_WgDone (fo_stream s) = Some st"
    and "ph \<noteq> SubStarted" and "ph \<noteq> SubIdle"
  shows "fan_wg_ok stream subs (set_phase sub ph (s\<lparr>fo_stream := st\<rparr>))"
proof -
  have "{x. ((fo_phase s)(sub := ph)) x = SubStarted} = {x. fo_phase s x = SubStarted} - {sub}" using assms(4) by auto
  moreover have "card {x. fo_phase s x = SubStarted} = Suc (MOQTStream_wg st)"
    using assms(1) WgDone_stream(5) [OF assms(3)] by (simp add: fan_wg_ok_def)
  ultimately have "card {x. ((fo_phase s)(sub := ph)) x = SubStarted} = MOQTStream_wg st"
    using assms(2) started_finite [OF assms(1)] by simp
  moreover obtain rest where "fo_main s = FwdSpawn rest" "sub \<in> set subs" using started_in [OF assms(1,2)] by blast
  moreover have "same_stream stream st" using assms(1) WgDone_stream(1) [OF assms(3)] same_stream_trans by (auto simp: fan_wg_ok_def)
  ultimately show ?thesis using assms by (auto simp: fan_wg_ok_def)
qed

lemma fan_spawn_wg:
  assumes "fan_wg_ok stream subs s" and "fo_main s = FwdSpawn (sub # rest)"
  shows "fan_wg_ok stream subs (set_phase sub SubStarted (s\<lparr>fo_stream := MOQTStream_WgAdd (fo_stream s), fo_main := FwdSpawn rest\<rparr>))"
proof -
  have "fo_phase s sub = SubIdle" using assms by (auto simp: fan_wg_ok_def)
  then have "{x. ((fo_phase s)(sub := SubStarted)) x = SubStarted} = insert sub {x. fo_phase s x = SubStarted}"
    and "sub \<notin> {x. fo_phase s x = SubStarted}" by auto
  then have "card {x. ((fo_phase s)(sub := SubStarted)) x = SubStarted} = Suc (MOQTStream_wg (fo_stream s))"
    using assms(1) started_finite [OF assms(1)] by (simp add: fan_wg_ok_def)
  moreover have "same_stream stream (MOQTStream_WgAdd (fo_stream s))"
    using assms(1) same_stream_trans [OF _ WgAdd_stream(1)] by (simp add: fan_wg_ok_def)
  ultimately show ?thesis using assms by (auto simp: fan_wg_ok_def)
qed

lemma fan_waited:
  assumes "fo_main s = FwdSpawn []" and "MOQTStream_wg (fo_stream s) = 0" and "fan_wg_ok stream subs s"
  shows "fan_wg_ok stream subs (s\<lparr>fo_main := FwdRead\<rparr>)"
proof -
  have "card {sub. fo_phase s sub = SubStarted} = 0" using assms(2,3) by (simp add: fan_wg_ok_def)
  then have "fo_phase s sub \<noteq> SubStarted" for sub using started_finite [OF assms(3)] by simp
  with assms show ?thesis by (simp add: fan_wg_ok_def)
qed

lemma fan_closed:
  assumes "fan_wg_ok stream subs s" and "fo_phase s sub = SubPiping h works"
  shows "fan_wg_ok stream subs (set_phase sub (SubClosed h works) s)"
proof -
  have "{x. ((fo_phase s)(sub := SubClosed h works)) x = SubStarted} = {x. fo_phase s x = SubStarted}"
    and idle: "((fo_phase s)(sub := SubClosed h works)) x = SubIdle \<longleftrightarrow> fo_phase s x = SubIdle" for x using assms(2) by auto
  then show ?thesis using assms unfolding fan_wg_ok_def fan_simps idle by (cases "fo_main s") simp_all
qed

lemma fan_wg_frame:
  assumes "fan_wg_ok stream subs s" and "same_stream (fo_stream s) (fo_stream t)" and "MOQTStream_wg (fo_stream t) = MOQTStream_wg (fo_stream s)"
    and "fo_phase t = fo_phase s" and "\<forall>rest. fo_main s \<noteq> FwdSpawn rest" and "\<forall>rest. fo_main t \<noteq> FwdSpawn rest"
  shows "fan_wg_ok stream subs t"
  using assms same_stream_trans [OF _ assms(2)] by (cases "fo_main s"; cases "fo_main t") (simp_all add: fan_wg_ok_def)

lemma fan_wg_step:
  assumes "fan_step qv ws opened s t" and "fan_wg_ok stream subs s"
  shows "fan_wg_ok stream subs t"
  using assms
proof (induction rule: fan_step.induct)
  case (fan_spawn s sub rest)
  then show ?case by (intro fan_spawn_wg)
next
  case (fan_WgWait s)
  then show ?case by (intro fan_waited) simp_all
next
  case (fan_close s sub h works)
  from fan_closed [OF fan_close(3,1)] show ?case .
next
  case (fan_read s gid ob st)
  then show ?case using ReadObject_stream(1,2) [OF fan_read(2)] by (intro fan_wg_frame [OF fan_read(3)]) simp_all
next
  case (fan_eof s st)
  then show ?case using ReadObject_stream(1,2) [OF fan_eof(2)] by (intro fan_wg_frame [OF fan_eof(3)]) simp_all
next
  case (fan_error s err st)
  then show ?case using ReadObject_stream(1,2) [OF fan_error(2)] by (intro fan_wg_frame [OF fan_error(4)]) simp_all
next
  case (fan_cache s ob)
  then show ?case by (intro fan_wg_frame [OF fan_cache(2)]) simp_all
next
  case (fan_pipe s sub h works ps)
  then show ?case by (cases "fo_main s") (simp_all add: fan_wg_ok_def)
next
  case (fan_return s sub st)
  then show ?case using ProcessMOQTStream_WgDone [OF fan_return(2)] by (intro fan_leave) simp_all
next
  case (fan_header s sub h st)
  then show ?case using ProcessMOQTStream_WgDone [OF fan_header(2)] by (intro fan_leave) simp_all
next
  case (fan_header_error s sub h st n)
  then show ?case using ProcessMOQTStream_WgDone [OF fan_header_error(2)] by (intro fan_leave) simp_all
qed

context varint_codec
begin

lemma header_own:
  assumes "RelayHandler_ProcessMOQTStream qv sub st opened w = Some (Some h, st')" and "world_ok w" and "same_stream stream st"
  shows "own_header qv w stream sub h"
proof -
  obtain rh where rh: "get_relay w sub = Some rh" using assms(1) by (auto simp: RelayHandler_ProcessMOQTStream_def bind_eq_Some_conv)
  then obtain k where k: "GetSubID (strm_StreamID w) (rh_SubscribedStreams rh) (MOQTStream_GetStreamID st) = Inr k"
      "MOQTStream_GetHeaderSubIDBytes qv st k = Some h"
    using assms(1) by (cases "GetSubID (strm_StreamID w) (rh_SubscribedStreams rh) (MOQTStream_GetStreamID st)"; cases opened)
      (auto simp: RelayHandler_ProcessMOQTStream_def bind_eq_Some_conv)
  have "StreamsMap_ok (rh_SubscribedStreams rh)" using get_relay_ok [OF assms(2) rh] by simp
  from smap.subid_of_sound [OF this k(1)] show ?thesis using rh k(2) same_streamD [OF assms(3)] by (auto simp: own_header_def)
qed

lemma fan_sub_step:
  assumes "fan_step qv ws opened s t" and "fan_ok qv ws stream subs s" and "\<forall>sub \<in> set subs. world_ok (ws sub)"
  shows "fan_sub_ok qv ws stream i (fo_phase t i) (fo_pipers t i)"
proof -
  have wg: "fan_wg_ok stream subs s" and ok: "fan_sub_ok qv ws stream i (fo_phase s i) (fo_pipers s i)" using assms(2) by (simp_all add: fan_ok_def)
  have same: "same_stream stream (fo_stream s)" using wg by (simp add: fan_wg_ok_def)
  show ?thesis using assms(1)
  proof cases
    case (fan_header sub h st)
    then have "own_header qv (ws sub) stream sub h"
      using header_own same assms(3) started_in [OF wg] by blast
    with fan_header ok show ?thesis by (auto simp: fan_sub_ok_def)
  next
    case (fan_header_error sub h st n)
    then have "own_header qv (ws sub) stream sub h"
      using header_own same assms(3) started_in [OF wg] by blast
    with fan_header_error ok show ?thesis by (auto simp: fan_sub_ok_def new_piper_def take_is_prefix)
  next
    case (fan_pipe sub h works ps)
    then have "ps_pipers ps i = fo_pipers s i" if "i \<noteq> sub"
      using that by (auto simp: fan_pipes_def set_piper_def elim!: pipe_LPiperE)
    with fan_pipe ok show ?thesis by (cases "i = sub") (auto simp: fan_sub_ok_def)
  next
    case (fan_spawn sub subs)
    then show ?thesis using ok wg by (auto simp: fan_sub_ok_def fan_wg_ok_def)
  next
    case (fan_return sub st)
    then show ?thesis using ok by (auto simp: fan_sub_ok_def)
  next
    case (fan_close sub h works)
    then show ?thesis using ok fan_sub_ok_close by (auto split: if_splits)
  qed (use ok fan_sub_ok_wake in simp_all)
qed

lemma fan_invariant:
  assumes "reach (fan_init stream rs subs) (fan_step qv ws opened) s" and "\<forall>sub \<in> set subs. world_ok (ws sub)"
    and "distinct subs" and "MOQTStream_wg stream = 0"
  shows "fan_ok qv ws stream subs s"
proof -
  have "invariant_system (fan_init stream rs subs) (fan_step qv ws opened) (fan_ok qv ws stream subs)"
  proof
    show "fan_ok qv ws stream subs s" if "fan_init stream rs subs s" for s
      using that assms(3,4) by (simp add: fan_init_def fan_ok_def fan_wg_ok_def fan_sub_ok_def)
    show "fan_ok qv ws stream subs t" if "fan_ok qv ws stream subs s" "fan_step qv ws opened s t" for s t
      using fan_sub_step [OF that(2,1) assms(2)] fan_wg_step [OF that(2)] that(1) by (simp add: fan_ok_def)
  qed
  then show ?thesis using assms(1) by (rule invariant_system.inv_reach)
qed

end

section \<open>What is read\<close>

fun stream_enc :: "quicvarint \<Rightarrow> MOQTStream \<Rightarrow> Object \<Rightarrow> bytes" where
  "stream_enc qv (SGroup gs) = object_enc qv"
| "stream_enc qv (STrack ts) = track_object_enc qv"

text \<open>An object as the receiver of a stream has it: the objects of a group stream have no group of their own.\<close>

fun as_read :: "MOQTStream \<Rightarrow> Object \<Rightarrow> Object" where
  "as_read (SGroup gs) ob = ob\<lparr>obj_GroupID := 0\<rparr>"
| "as_read (STrack ts) ob = ob"

lemma stream_enc_as_read [simp]: "stream_enc qv st (as_read st ob) = stream_enc qv st ob"
  by (cases st) (simp_all add: object_enc_def)

lemma stream_enc_comp [simp]: "stream_enc qv st \<circ> as_read st = stream_enc qv st"
  by (simp add: fun_eq_iff)

lemma same_stream_enc: "same_stream st st' \<Longrightarrow> stream_enc qv st' = stream_enc qv st \<and> as_read st' = as_read st"
  by (cases st; cases st') (simp_all add: fun_eq_iff)

text \<open>The cache after the first \<open>n\<close> objects, and the state of the reader.\<close>

definition cached_upto :: "MOQTStream \<Rightarrow> RelayStream \<Rightarrow> Object list \<Rightarrow> nat \<Rightarrow> RelayStream" where
  "cached_upto stream rs objs n = fold put_cached (map (cached_of \<circ> as_read stream) (take n objs)) rs"

definition fan_data :: "quicvarint \<Rightarrow> MOQTStream \<Rightarrow> RelayStream \<Rightarrow> Object list \<Rightarrow> nat \<Rightarrow> fanout \<Rightarrow> bool" where
  "fan_data qv stream rs objs n s \<longleftrightarrow> n \<le> length objs \<and> same_stream stream (fo_stream s) \<and>
    MOQTStream_objects (fo_stream s) = map (as_read stream) (take n objs) \<and>
    MOQTStream_reader (fo_stream s) = Some \<lparr>rd_data = concat (map (stream_enc qv stream) (drop n objs)), rd_end = EOF\<rparr> \<and>
    (case fo_main s of
       FwdCache ob \<Rightarrow> put_cached (cached_of ob) (fo_rs s) = cached_upto stream rs objs n \<and> \<not> MOQTStream_IsEOF (fo_stream s)
     | FwdEnd err \<Rightarrow> fo_rs s = cached_upto stream rs objs n \<and> err = EOF \<and> n = length objs \<and> MOQTStream_IsEOF (fo_stream s)
     | _ \<Rightarrow> fo_rs s = cached_upto stream rs objs n \<and> \<not> MOQTStream_IsEOF (fo_stream s))"

lemma cached_upto_Suc:
  "n < length objs \<Longrightarrow> cached_upto stream rs objs (Suc n) = put_cached (cached_of (as_read stream (objs ! n))) (cached_upto stream rs objs n)"
  by (simp add: cached_upto_def take_Suc_conv_app_nth)

context varint_codec
begin

lemma ReadObject_enc:
  assumes "MOQTStream_reader st = Some \<lparr>rd_data = stream_enc qv st ob @ rest, rd_end = EOF\<rparr>" and "Object_ok ob"
  shows "\<exists>gid st'. MOQTStream_ReadObject qv st = Some (Inr (gid, as_read st ob), st') \<and>
    MOQTStream_reader st' = Some \<lparr>rd_data = rest, rd_end = EOF\<rparr>"
  using assms GroupStream_ReadObject_enc [where ob = ob and r = "\<lparr>rd_data = [], rd_end = EOF\<rparr>" and rest = rest]
    TrackStream_ReadObject_enc [where ob = ob and r = "\<lparr>rd_data = [], rd_end = EOF\<rparr>" and rest = rest]
  by (cases st) (simp_all add: GroupStream_WriteObject_def TrackStream_WriteObject_def)

lemma ReadObject_end:
  assumes "MOQTStream_reader st = Some \<lparr>rd_data = [], rd_end = EOF\<rparr>"
  shows "\<exists>st'. MOQTStream_ReadObject qv st = Some (Inl EOF, st') \<and> MOQTStream_reader st' = MOQTStream_reader st"
  using assms by (cases st) (simp_all add: GroupStream_ReadObject_def TrackStream_ReadObject_def Object_Parse_at_end Read_at_end
      GroupStream_Close_def TrackStream_Close_def Let_def)

lemma fan_read_next:
  assumes "fan_data qv stream rs objs n s" and "list_all Object_ok objs" and "fo_main s = FwdRead"
  shows "n < length objs \<Longrightarrow> \<exists>gid st. MOQTStream_ReadObject qv (fo_stream s) = Some (Inr (gid, as_read stream (objs ! n)), st) \<and>
      fan_data qv stream rs objs (Suc n) (fan_wake (s\<lparr>fo_stream := st, fo_main := FwdCache (as_read stream (objs ! n))\<rparr>))"
    and "n = length objs \<Longrightarrow> \<exists>st. MOQTStream_ReadObject qv (fo_stream s) = Some (Inl EOF, st) \<and>
      fan_data qv stream rs objs n (fan_wake (s\<lparr>fo_stream := st, fo_main := FwdEnd EOF\<rparr>))"
proof -
  have same: "same_stream stream (fo_stream s)" using assms(1) by (simp add: fan_data_def)
  note enc = same_stream_enc [OF same, of qv]
  {
    assume n: "n < length objs"
    have "drop n objs = objs ! n # drop (Suc n) objs" using n by (simp add: Cons_nth_drop_Suc)
    then have "MOQTStream_reader (fo_stream s) = Some \<lparr>rd_data = stream_enc qv (fo_stream s) (objs ! n) @
        concat (map (stream_enc qv stream) (drop (Suc n) objs)), rd_end = EOF\<rparr>"
      using assms(1) enc by (simp add: fan_data_def)
    moreover have "Object_ok (objs ! n)" using assms(2) n by (simp add: list_all_length)
    ultimately obtain gid st where st: "MOQTStream_ReadObject qv (fo_stream s) = Some (Inr (gid, as_read stream (objs ! n)), st)"
        "MOQTStream_reader st = Some \<lparr>rd_data = concat (map (stream_enc qv stream) (drop (Suc n) objs)), rd_end = EOF\<rparr>"
      using ReadObject_enc enc by metis
    with n assms(1,3) same_stream_trans [OF same ReadObject_stream(1) [OF st(1)]] ReadObject_stream(3,4) [OF st(1)]
    show "\<exists>gid st. MOQTStream_ReadObject qv (fo_stream s) = Some (Inr (gid, as_read stream (objs ! n)), st) \<and>
      fan_data qv stream rs objs (Suc n) (fan_wake (s\<lparr>fo_stream := st, fo_main := FwdCache (as_read stream (objs ! n))\<rparr>))"
      by (intro exI [of _ gid] exI [of _ st]) (simp add: fan_data_def cached_upto_Suc take_Suc_conv_app_nth)
  next
    assume n: "n = length objs"
    then obtain st where st: "MOQTStream_ReadObject qv (fo_stream s) = Some (Inl EOF, st)" "MOQTStream_reader st = MOQTStream_reader (fo_stream s)"
      using ReadObject_end [of "fo_stream s"] assms(1) by (auto simp: fan_data_def)
    with n assms(1,3) same_stream_trans [OF same ReadObject_stream(1) [OF st(1)]] ReadObject_stream(3,4) [OF st(1)]
    show "\<exists>st. MOQTStream_ReadObject qv (fo_stream s) = Some (Inl EOF, st) \<and>
      fan_data qv stream rs objs n (fan_wake (s\<lparr>fo_stream := st, fo_main := FwdEnd EOF\<rparr>))"
      by (intro exI [of _ st]) (simp add: fan_data_def)
  }
qed

lemma fan_data_frame:
  assumes "fan_data qv stream rs objs n s" and "fo_main t = fo_main s" and "fo_rs t = fo_rs s" and "same_stream (fo_stream s) (fo_stream t)"
    and "MOQTStream_objects (fo_stream t) = MOQTStream_objects (fo_stream s)" and "MOQTStream_reader (fo_stream t) = MOQTStream_reader (fo_stream s)"
    and "MOQTStream_IsEOF (fo_stream t) = MOQTStream_IsEOF (fo_stream s)"
  shows "fan_data qv stream rs objs n t"
  using assms same_stream_trans [OF _ assms(4)] by (cases "fo_main s") (simp_all add: fan_data_def)

lemma fan_data_step:
  assumes "fan_step qv ws opened s t" and "fan_data qv stream rs objs n s" and "list_all Object_ok objs"
  shows "\<exists>m \<ge> n. fan_data qv stream rs objs m t"
  using assms(1)
proof cases
  case (fan_spawn sub subs)
  then show ?thesis using assms(2) same_stream_trans [OF _ WgAdd_stream(1)] by (intro exI [of _ n]) (simp add: fan_data_def)
next
  case fan_WgWait
  then show ?thesis using assms(2) by (intro exI [of _ n]) (simp add: fan_data_def)
next
  case (fan_cache ob)
  then show ?thesis using assms(2) by (intro exI [of _ n]) (simp add: fan_data_def flip: put_cached_of)
next
  case (fan_read gid ob st)
  have "n \<noteq> length objs" using fan_read_next(2) [OF assms(2,3) fan_read(2)] fan_read(3) by auto
  then have "n < length objs" using assms(2) by (simp add: fan_data_def)
  from fan_read_next(1) [OF assms(2,3) fan_read(2) this] show ?thesis using fan_read by (intro exI [of _ "Suc n"]) auto
next
  case (fan_eof st)
  have "n = length objs"
    using fan_read_next(1) [OF assms(2,3) fan_eof(2)] fan_eof(3) assms(2) by (cases "n < length objs") (auto simp: fan_data_def)
  from fan_read_next(2) [OF assms(2,3) fan_eof(2) this] show ?thesis using fan_eof by (intro exI [of _ n]) auto
next
  case (fan_error err st)
  then show ?thesis using fan_read_next [OF assms(2,3) fan_error(2)] assms(2) by (cases "n < length objs") (auto simp: fan_data_def)
next
  case (fan_return sub st)
  then show ?thesis using assms(2) by (intro exI [of _ n]) (auto intro!: fan_data_frame [OF assms(2)] simp: ProcessMOQTStream_stream)
next
  case (fan_header sub h st)
  then show ?thesis by (intro exI [of _ n]) (auto intro!: fan_data_frame [OF assms(2)] simp: ProcessMOQTStream_stream)
next
  case (fan_header_error sub h st k)
  then show ?thesis by (intro exI [of _ n]) (auto intro!: fan_data_frame [OF assms(2)] simp: ProcessMOQTStream_stream)
next
  case (fan_pipe sub h works ps)
  then show ?thesis by (intro exI [of _ n]) (auto intro!: fan_data_frame [OF assms(2)])
next
  case (fan_close sub h works)
  then show ?thesis by (intro exI [of _ n]) (auto intro!: fan_data_frame [OF assms(2)])
qed

end

section \<open>From the publisher's bytes to the subscribers'\<close>

text \<open>A stream as the relay has it when \<open>ProcessObjects\<close> starts: parsed from the publisher's header, with the objects still to be read.\<close>

definition fresh_stream :: "quicvarint \<Rightarrow> Object list \<Rightarrow> MOQTStream \<Rightarrow> bool" where
  "fresh_stream qv objs st \<longleftrightarrow> MOQTStream_header_ok st \<and> MOQTStream_wg st = 0 \<and> MOQTStream_objects st = [] \<and> \<not> MOQTStream_IsEOF st \<and>
     MOQTStream_reader st = Some \<lparr>rd_data = concat (map (stream_enc qv st) objs), rd_end = EOF\<rparr>"

fun stream_received :: "MOQTStream \<Rightarrow> Object \<Rightarrow> u64 \<times> Object" where
  "stream_received (SGroup gs) ob = (gs_GroupID gs, ob\<lparr>obj_GroupID := 0\<rparr>)"
| "stream_received (STrack ts) ob = (obj_GroupID ob, ob)"

lemma same_stream_received: "same_stream st st' \<Longrightarrow> stream_received st' = stream_received st"
  by (cases st; cases st') (simp_all add: fun_eq_iff)

text \<open>The header fields that are on the wire.\<close>

fun same_header :: "MOQTStream \<Rightarrow> MOQTStream \<Rightarrow> bool" where
  "same_header (SGroup gs) (SGroup gs') \<longleftrightarrow> gs_TrackAlias gs' = gs_TrackAlias gs \<and> gs_GroupID gs' = gs_GroupID gs \<and>
     gs_SendOrder gs' = gs_SendOrder gs"
| "same_header (STrack ts) (STrack ts') \<longleftrightarrow> ts_TrackAlias ts' = ts_TrackAlias ts \<and> ts_SendOrder ts' = ts_SendOrder ts"
| "same_header _ _ \<longleftrightarrow> False"

lemma same_headerD:
  assumes "same_header st st'"
  shows "stream_enc qv st' = stream_enc qv st" and "stream_received st' = stream_received st" and "MOQTStream_header_ok st' = MOQTStream_header_ok st"
    and "same_header st (MOQTStream_SetStreamID sid st')"
  using assms by (cases st; cases st'; simp add: fun_eq_iff GroupStream_SetStreamID_def TrackStream_SetStreamID_def)+

lemma SetStreamID_fresh [simp]:
  "fresh_stream qv objs (MOQTStream_SetStreamID sid st) = fresh_stream qv objs st"
  "MOQTStream_GetStreamID (MOQTStream_SetStreamID sid st) = sid"
  by (cases st; simp add: fresh_stream_def GroupStream_SetStreamID_def TrackStream_SetStreamID_def)+

lemma received_snd: "snd (stream_received st ob) = as_read st ob"
  by (cases st) simp_all

context varint_codec
begin

lemma header_parsed:
  assumes "MOQTStream_header_ok st" and "fits62 k" and "MOQTStream_GetHeaderSubIDBytes qv st k = Some h"
  shows "\<exists>st'. ParseMOQTStream qv \<lparr>rd_data = h @ concat (map (stream_enc qv st) objs), rd_end = EOF\<rparr> = Some (Inr (k, st')) \<and>
    same_header st st' \<and> fresh_stream qv objs st'"
proof (cases st)
  case (SGroup gs)
  with assms GroupStream_header_enc [of k gs] show ?thesis
    by (auto simp: fresh_stream_def zero_GroupStream_def dest!: spec [of _ "\<lparr>rd_data = [], rd_end = EOF\<rparr>"])
next
  case (STrack ts)
  with assms TrackStream_header_enc [of k ts] show ?thesis
    by (auto simp: fresh_stream_def zero_TrackStream_def dest!: spec [of _ "\<lparr>rd_data = [], rd_end = EOF\<rparr>"])
qed

lemma fresh_read:
  assumes "fresh_stream qv objs st" and "list_all Object_ok objs" and "length objs < fuel"
  shows "\<exists>st'. read_objects qv fuel st = Some (map (stream_received st) objs, Some EOF, st')"
proof (cases st)
  case (SGroup gs)
  with assms read_objects_group [OF assms(2,3), of gs "\<lparr>rd_data = [], rd_end = EOF\<rparr>"] show ?thesis by (simp add: fresh_stream_def)
next
  case (STrack ts)
  with assms read_objects_track [OF assms(2,3), of ts "\<lparr>rd_data = [], rd_end = EOF\<rparr>"] show ?thesis by (simp add: fresh_stream_def)
qed

lemma stream_enc_length: "list_all Object_ok objs \<Longrightarrow> length objs \<le> length (concat (map (stream_enc qv st) objs))"
  using object_enc_lengths track_object_enc_lengths by (cases st) auto

text \<open>What a receiver makes of a header and some objects.\<close>

lemma stream_decoded:
  assumes "MOQTStream_header_ok st" and "fits62 k" and "MOQTStream_GetHeaderSubIDBytes qv st k = Some h" and "list_all Object_ok objs"
  shows "\<exists>st1 st2. ParseMOQTStream qv \<lparr>rd_data = h @ concat (map (stream_enc qv st) objs), rd_end = EOF\<rparr> = Some (Inr (k, st1)) \<and>
    same_header st st1 \<and>
    read_objects qv (Suc (length (h @ concat (map (stream_enc qv st) objs)))) st1 = Some (map (stream_received st) objs, Some EOF, st2)"
proof -
  obtain st1 where st1: "ParseMOQTStream qv \<lparr>rd_data = h @ concat (map (stream_enc qv st) objs), rd_end = EOF\<rparr> = Some (Inr (k, st1))"
      "same_header st st1" "fresh_stream qv objs st1" using header_parsed [OF assms(1-3)] by blast
  have "length objs < Suc (length (h @ concat (map (stream_enc qv st) objs)))" using stream_enc_length [OF assms(4), of st] by simp
  from fresh_read [OF st1(3) assms(4) this] show ?thesis using st1 same_headerD(2) [OF st1(2)] by (auto simp del: read_objects.simps)
qed

lemma stream_object_pipe: "object_pipe (MOQTStream_pipe qv st) (stream_enc qv st)"
  by (cases st) (simp_all add: grp.object_pipe_axioms trk.object_pipe_axioms)

lemma fan_reach_data:
  assumes "reach (fan_init stream rs subs) (fan_step qv ws opened) s" and "fresh_stream qv objs stream" and "list_all Object_ok objs"
  shows "(\<exists>n. fan_data qv stream rs objs n s) \<and> reach pipe_init (pipe_next (MOQTStream_pipe qv stream)) (fan_pipes s)"
  using assms(1)
proof (induction rule: reach.induct)
  case (reach_init s)
  have "pipe_init (fan_pipes s)" using reach_init assms(2) by (simp add: fan_init_def pipe_init_def fan_pipes_def fresh_stream_def new_piper_def)
  moreover have "fan_data qv stream rs objs 0 s" using reach_init assms(2) by (simp add: fan_init_def fan_data_def fresh_stream_def cached_upto_def)
  ultimately show ?case by (blast intro: reach.reach_init)
next
  case (reach_step s t)
  then obtain n where n: "fan_data qv stream rs objs n s" by blast
  then have "MOQTStream_pipe qv (fo_stream s) = MOQTStream_pipe qv stream" using same_streamD(1) by (simp add: fan_data_def)
  with fan_pipes_step [OF reach_step(2)] reach_step(3) have "reach pipe_init (pipe_next (MOQTStream_pipe qv stream)) (fan_pipes t)"
    by (auto intro: reach.reach_step)
  with fan_data_step [OF reach_step(2) n assms(3)] show ?case by blast
qed

text \<open>What is on the stream of a subscriber whose header went through.\<close>

lemma fan_bytes_prefix:
  assumes "reach (fan_init stream rs subs) (fan_step qv ws opened) s" and "fresh_stream qv objs stream" and "list_all Object_ok objs"
    and "distinct subs" and "\<forall>sub \<in> set subs. world_ok (ws sub)" and "fo_phase s sub \<in> {SubPiping b works, SubClosed b works}"
  shows "\<exists>h. own_header qv (ws sub) stream sub h \<and> prefix (fan_bytes s sub) (h @ concat (map (stream_enc qv stream) objs)) \<and>
    (works \<and> pp_pc (fo_pipers s sub) \<noteq> PcFailed \<longrightarrow> (\<exists>n k. fan_data qv stream rs objs n s \<and> k \<le> n \<and>
       fan_bytes s sub = h @ concat (map (stream_enc qv stream) (take k objs))))"
proof -
  have "fan_ok qv ws stream subs s" using assms(1,5,4) assms(2) by (intro fan_invariant) (simp_all add: fresh_stream_def)
  then have "fan_sub_ok qv ws stream sub (fo_phase s sub) (fo_pipers s sub)" by (simp add: fan_ok_def)
  then obtain h where h: "own_header qv (ws sub) stream sub h" "if works then b = h else prefix b h \<and> pp_out (fo_pipers s sub) = []"
    using assms(6) by (auto simp: fan_sub_ok_def)
  obtain n where n: "fan_data qv stream rs objs n s" and r: "reach pipe_init (pipe_next (MOQTStream_pipe qv stream)) (fan_pipes s)"
    using fan_reach_data [OF assms(1-3)] by blast
  have objs: "map (stream_enc qv stream) (take k (ps_objs (fan_pipes s))) = map (stream_enc qv stream) (take (min k n) objs)" for k
    using n by (simp add: fan_pipes_def fan_data_def take_map min.commute)
  have bytes: "fan_bytes s sub = b @ pp_out (ps_pipers (fan_pipes s) sub)" using assms(6) by (auto simp: fan_bytes_def fan_pipes_def)
  note pre = object_pipe.reach_prefix [OF stream_object_pipe r, of sub]
  have "prefix (pp_out (ps_pipers (fan_pipes s) sub)) (concat (map (stream_enc qv stream) (take n objs)))"
    using pre objs [of "length (ps_objs (fan_pipes s))"] n by (simp add: fan_pipes_def fan_data_def)
  then have "prefix (pp_out (ps_pipers (fan_pipes s) sub)) (concat (map (stream_enc qv stream) objs))"
    using take_enc_prefix prefix_order.trans by blast
  then have "prefix (fan_bytes s sub) (h @ concat (map (stream_enc qv stream) objs))"
    using h(2) unfolding bytes by (auto simp: fan_pipes_def intro: prefix_prefix split: if_splits)
  moreover have "\<exists>k \<le> n. fan_bytes s sub = h @ concat (map (stream_enc qv stream) (take k objs))"
    if w: works "pp_pc (fo_pipers s sub) \<noteq> PcFailed"
  proof -
    obtain k where k: "pp_out (ps_pipers (fan_pipes s) sub) = concat (map (stream_enc qv stream) (take k (ps_objs (fan_pipes s))))"
      using pre w(2) by (auto simp: fan_pipes_def)
    have "fan_bytes s sub = h @ concat (map (stream_enc qv stream) (take (min k n) objs))" using k w(1) h(2) by (simp only: bytes objs if_True)
    then show ?thesis by (intro exI [of _ "min k n"]) simp
  qed
  ultimately show ?thesis using h(1) n by blast
qed

end

section \<open>The relay reads to the end\<close>

lemma wake_wake [simp]: "wake (wake p) = wake p"
  by (simp add: wake_def)

context varint_codec
begin

text \<open>From the loop on, the reading goroutine needs no other.\<close>

lemma fan_reads_on:
  assumes "fan_data qv stream rs objs n s" and "list_all Object_ok objs" and "fo_main s = FwdRead"
  shows "\<exists>t. (fan_step qv ws opened)\<^sup>*\<^sup>* s t \<and> fo_main t = FwdEnd EOF \<and> fan_data qv stream rs objs (length objs) t \<and>
    fo_phase t = fo_phase s \<and> fo_pipers t = wake \<circ> fo_pipers s"
  using assms(1,3)
proof (induction "length objs - n" arbitrary: n s)
  case 0
  then have n: "n = length objs" by (simp add: fan_data_def)
  from fan_read_next(2) [OF 0(2) assms(2) 0(3) n] obtain st where st: "MOQTStream_ReadObject qv (fo_stream s) = Some (Inl EOF, st)"
      "fan_data qv stream rs objs n (fan_wake (s\<lparr>fo_stream := st, fo_main := FwdEnd EOF\<rparr>))" by blast
  then show ?case using fan_eof [OF 0(3) st(1), of ws opened] n
    by (intro exI [of _ "fan_wake (s\<lparr>fo_stream := st, fo_main := FwdEnd EOF\<rparr>)"]) (auto simp: fun_eq_iff)
next
  case (Suc d)
  then have n: "n < length objs" and d: "d = length objs - Suc n" by simp_all
  let ?ob = "as_read stream (objs ! n)"
  from fan_read_next(1) [OF Suc.prems(1) assms(2) Suc.prems(2) n] obtain gid st where
    st: "MOQTStream_ReadObject qv (fo_stream s) = Some (Inr (gid, ?ob), st)"
      "fan_data qv stream rs objs (Suc n) (fan_wake (s\<lparr>fo_stream := st, fo_main := FwdCache ?ob\<rparr>))" by blast
  let ?s1 = "fan_wake (s\<lparr>fo_stream := st, fo_main := FwdCache ?ob\<rparr>)"
  let ?s2 = "?s1\<lparr>fo_rs := RelayStream_cacheObject (obj_GroupID ?ob) (obj_ID ?ob) (obj_Payload ?ob) (fo_rs ?s1), fo_main := FwdRead\<rparr>"
  have 1: "fan_step qv ws opened s ?s1" using Suc.prems(2) st(1) by (rule fan_read)
  have 2: "fan_step qv ws opened ?s1 ?s2" by (rule fan_cache) simp
  have "fan_data qv stream rs objs (Suc n) ?s2" using st(2) by (simp add: fan_data_def flip: put_cached_of)
  then obtain t where "(fan_step qv ws opened)\<^sup>*\<^sup>* ?s2 t" "fo_main t = FwdEnd EOF" "fan_data qv stream rs objs (length objs) t"
      "fo_phase t = fo_phase ?s2" "fo_pipers t = wake \<circ> fo_pipers ?s2"
    using Suc.hyps(1) [OF d, of ?s2] by auto
  then show ?case using 1 2 by (intro exI [of _ t]) (auto simp: fun_eq_iff intro: converse_rtranclp_into_rtranclp)
qed

text \<open>Before it, the goroutines of the subscribers get past their headers.\<close>

lemma fan_started_goes_on:
  assumes wg: "fan_wg_ok stream subs s" and "MOQTStream_header_ok stream" and "\<forall>sub \<in> set subs. world_ok (ws sub) \<and> is_relay (ws sub) sub"
    and pos: "0 < MOQTStream_wg (fo_stream s)"
  shows "\<exists>t. fan_step qv ws opened s t \<and> fo_main t = fo_main s \<and> MOQTStream_wg (fo_stream t) < MOQTStream_wg (fo_stream s)"
proof -
  have "{sub. fo_phase s sub = SubStarted} \<noteq> {}" using wg pos by (metis card.empty fan_wg_ok_def less_irrefl)
  then obtain sub where sub: "fo_phase s sub = SubStarted" by blast
  then have "sub \<in> set subs" using started_in [OF wg] by blast
  then have w: "world_ok (ws sub)" "is_relay (ws sub) sub" using assms(3) by auto
  have "same_stream stream (fo_stream s)" using wg by (simp add: fan_wg_ok_def)
  then have "MOQTStream_header_ok (fo_stream s)" using same_streamD(2) assms(2) by simp
  from ProcessMOQTStream_done [OF w this] pos obtain h st where
    P: "RelayHandler_ProcessMOQTStream qv sub (fo_stream s) (opened sub) (ws sub) = Some (h, st)" by fastforce
  note less_wg = ProcessMOQTStream_stream(5) [OF P]
  show ?thesis
  proof (cases h)
    case None
    then have "fan_step qv ws opened s (set_phase sub SubGone (s\<lparr>fo_stream := st\<rparr>))" using sub P by (intro fan_return) simp_all
    then show ?thesis by (intro exI [of _ "set_phase sub SubGone (s\<lparr>fo_stream := st\<rparr>)"] conjI) (simp_all add: less_wg)
  next
    case (Some b)
    then have "fan_step qv ws opened s (set_phase sub (SubPiping b True) (s\<lparr>fo_stream := st\<rparr>))" using sub P by (intro fan_header) simp_all
    then show ?thesis by (intro exI [of _ "set_phase sub (SubPiping b True) (s\<lparr>fo_stream := st\<rparr>)"] conjI) (simp_all add: less_wg)
  qed
qed

lemma fan_starts:
  assumes "fan_ok qv ws stream subs s" and "MOQTStream_header_ok stream" and "\<forall>sub \<in> set subs. world_ok (ws sub) \<and> is_relay (ws sub) sub"
    and "fo_main s = FwdSpawn rest"
  shows "\<exists>t. (fan_step qv ws opened)\<^sup>*\<^sup>* s t \<and> fo_main t = FwdRead"
  using assms(1,4)
proof (induction "2 * length rest + MOQTStream_wg (fo_stream s)" arbitrary: s rest rule: less_induct)
  case less
  have wg: "fan_wg_ok stream subs s" using less.prems(1) by (simp add: fan_ok_def)
  have W: "\<forall>sub \<in> set subs. world_ok (ws sub)" using assms(3) by blast
  have pres: "fan_ok qv ws stream subs t" if "fan_step qv ws opened s t" for t
    using fan_sub_step [OF that less.prems(1) W] fan_wg_step [OF that wg] by (simp add: fan_ok_def)
  have continue: ?case if "fan_step qv ws opened s t" "fo_main t = FwdSpawn rest'"
      "2 * length rest' + MOQTStream_wg (fo_stream t) < 2 * length rest + MOQTStream_wg (fo_stream s)" for t rest'
    using less.hyps [OF that(3) pres [OF that(1)] that(2)] that(1) by (blast intro: converse_rtranclp_into_rtranclp)
  show ?case
  proof (cases rest)
    case (Cons sub rest')
    have "fan_step qv ws opened s (set_phase sub SubStarted (s\<lparr>fo_stream := MOQTStream_WgAdd (fo_stream s), fo_main := FwdSpawn rest'\<rparr>))"
      using less.prems(2) Cons by (intro fan_spawn) simp
    then show ?thesis by (rule continue [where rest' = rest']) (simp_all add: Cons)
  next
    case Nil
    show ?thesis
    proof (cases "MOQTStream_wg (fo_stream s)")
      case 0
      then have "fan_step qv ws opened s (s\<lparr>fo_main := FwdRead\<rparr>)" using less.prems(2) Nil by (intro fan_WgWait) simp_all
      then show ?thesis by (intro exI [of _ "s\<lparr>fo_main := FwdRead\<rparr>"]) simp
    next
      case (Suc m)
      then obtain t where "fan_step qv ws opened s t" "fo_main t = fo_main s" "MOQTStream_wg (fo_stream t) < MOQTStream_wg (fo_stream s)"
        using fan_started_goes_on [OF wg assms(2,3)] by auto
      then show ?thesis by (intro continue [where t = t and rest' = rest]) (simp_all add: less.prems(2))
    qed
  qed
qed

lemma fan_finishes:
  assumes "reach (fan_init stream rs subs) (fan_step qv ws opened) s" and "fresh_stream qv objs stream" and "list_all Object_ok objs"
    and "distinct subs" and "\<forall>sub \<in> set subs. world_ok (ws sub) \<and> is_relay (ws sub) sub"
  shows "\<exists>t. (fan_step qv ws opened)\<^sup>*\<^sup>* s t \<and> fo_main t = FwdEnd EOF \<and> fan_data qv stream rs objs (length objs) t"
proof -
  have ok: "fan_ok qv ws stream subs s" using assms by (intro fan_invariant) (simp_all add: fresh_stream_def)
  have loop: ?thesis if run: "(fan_step qv ws opened)\<^sup>*\<^sup>* s t" and main: "fo_main t = FwdRead" for t
  proof -
    obtain n where "fan_data qv stream rs objs n t" using fan_reach_data [OF reach_rtranclp [OF run assms(1)] assms(2,3)] by blast
    from fan_reads_on [OF this assms(3) main, of ws opened] show ?thesis using run by (auto intro: rtranclp_trans)
  qed
  obtain n where n: "fan_data qv stream rs objs n s" using fan_reach_data [OF assms(1-3)] by blast
  show ?thesis
  proof (cases "fo_main s")
    case (FwdSpawn rest)
    with fan_starts [OF ok _ assms(5)] loop assms(2) show ?thesis by (auto simp: fresh_stream_def)
  next
    case FwdRead
    then show ?thesis using loop by blast
  next
    case (FwdCache ob)
    let ?t = "s\<lparr>fo_rs := RelayStream_cacheObject (obj_GroupID ob) (obj_ID ob) (obj_Payload ob) (fo_rs s), fo_main := FwdRead\<rparr>"
    have "(fan_step qv ws opened)\<^sup>*\<^sup>* s ?t" using fan_cache [OF FwdCache] by (rule r_into_rtranclp)
    then show ?thesis by (rule loop) simp
  next
    case (FwdEnd err)
    then show ?thesis using n by (intro exI [of _ s]) (auto simp: fan_data_def)
  qed
qed

end

section \<open>Who has everything at the end\<close>

lemma fan_lift:
  assumes "(pipe_step (MOQTStream_pipe qv (fo_stream s)) (LPiper sub))\<^sup>*\<^sup>* (fan_pipes s) ps" and "fo_phase s sub = SubPiping h True"
  shows "(fan_step qv ws opened)\<^sup>*\<^sup>* s (s\<lparr>fo_pipers := ps_pipers ps\<rparr>) \<and> fan_pipes (s\<lparr>fo_pipers := ps_pipers ps\<rparr>) = ps"
  using assms(1)
proof (induction rule: rtranclp_induct)
  case base
  then show ?case by (simp add: fan_pipes_def)
next
  case (step ps qs)
  let ?s = "s\<lparr>fo_pipers := ps_pipers ps\<rparr>"
  have 1: "fo_phase ?s sub = SubPiping h True" using assms(2) by simp
  have 2: "pipe_step (MOQTStream_pipe qv (fo_stream ?s)) (LPiper sub) (fan_pipes ?s) qs" using step by simp
  have 3: "fan_step qv ws opened ?s (?s\<lparr>fo_pipers := ps_pipers qs\<rparr>)" using fan_pipe [OF 1 2] by simp
  have "ps_objs qs = ps_objs ps \<and> ps_eof qs = ps_eof ps" using step(2) by (auto elim!: pipe_LPiperE)
  then have "fan_pipes (?s\<lparr>fo_pipers := ps_pipers qs\<rparr>) = qs" using step(3) by (cases ps; cases qs) (simp add: fan_pipes_def)
  with 3 step(3) show ?case by (auto intro: rtranclp.rtrancl_into_rtrancl)
qed

text \<open>A goroutine that waits, or is about to, when nothing is left to be broadcast.\<close>

lemma fan_stuck:
  assumes "fan_step qv ws opened s t" and "fo_main s = FwdEnd err" and "fo_phase s sub = SubPiping h works"
    and "pp_pc (fo_pipers s sub) \<in> {PcCall, PcWaiting}"
  shows "fo_main t = FwdEnd err \<and> fo_phase t sub = SubPiping h works \<and> pp_pc (fo_pipers t sub) \<in> {PcCall, PcWaiting} \<and>
    pp_out (fo_pipers t sub) = pp_out (fo_pipers s sub)"
  using assms(1)
proof cases
  case (fan_pipe sub' h' works' ps)
  then show ?thesis using assms(2-4) by (cases "sub' = sub") (auto simp: fan_pipes_def set_piper_def elim!: pipe_LPiperE)
next
  case (fan_close sub' h' works')
  then show ?thesis using assms(2-4) by (cases "sub' = sub") auto
qed (use assms(2-4) in auto)

lemma fan_stuck_for_ever:
  assumes "(fan_step qv ws opened)\<^sup>*\<^sup>* s t" and "fo_main s = FwdEnd err" and "fo_phase s sub = SubPiping h works"
    and "pp_pc (fo_pipers s sub) \<in> {PcCall, PcWaiting}"
  shows "fo_phase t sub = SubPiping h works \<and> fan_bytes t sub = fan_bytes s sub"
proof -
  have "fo_main t = FwdEnd err \<and> fo_phase t sub = SubPiping h works \<and> pp_pc (fo_pipers t sub) \<in> {PcCall, PcWaiting} \<and>
    pp_out (fo_pipers t sub) = pp_out (fo_pipers s sub)"
    using assms(1)
  proof (induction rule: rtranclp_induct)
    case (step t u)
    then show ?case using fan_stuck [OF step(2)] by metis
  qed (use assms(2-4) in simp)
  then show ?thesis using assms(3) by (simp add: fan_bytes_def)
qed

context varint_codec
begin

lemma MOQTStream_pipe_ok: "list_all Object_ok os \<Longrightarrow> MOQTStream_pipe qv st os = Some (concat (map (stream_enc qv st) os))"
  by (cases st) (simp_all add: GroupStream_pipe_def TrackStream_pipe_def collect_group_ok collect_track_ok)

lemma as_read_ok: "Object_ok ob \<Longrightarrow> Object_ok (as_read st ob)"
  by (cases st) (simp_all add: Object_ok_def fits62_def)

lemma fan_woken_delivers:
  assumes "reach (fan_init stream rs subs) (fan_step qv ws opened) s" and "fresh_stream qv objs stream" and "list_all Object_ok objs"
    and "fo_main s = FwdEnd EOF" and "fo_phase s sub = SubPiping h True" and "pp_pc (fo_pipers s sub) = PcWoken"
  shows "\<exists>t. (fan_step qv ws opened)\<^sup>*\<^sup>* s t \<and> fo_phase t sub = SubClosed h True \<and>
    fan_bytes t sub = h @ concat (map (stream_enc qv stream) objs) \<and> pp_pc (fo_pipers t sub) = PcDone"
proof -
  obtain n where n: "fan_data qv stream rs objs n s" and r: "reach pipe_init (pipe_next (MOQTStream_pipe qv stream)) (fan_pipes s)"
    using fan_reach_data [OF assms(1-3)] by blast
  have same: "MOQTStream_pipe qv (fo_stream s) = MOQTStream_pipe qv stream" using n same_streamD(1) by (simp add: fan_data_def)
  have all: "ps_objs (fan_pipes s) = map (as_read stream) objs" "ps_eof (fan_pipes s)" using n assms(4) by (simp_all add: fan_pipes_def fan_data_def)
  have "list_all Object_ok (drop k (ps_objs (fan_pipes s)))" for k
    using assms(3) as_read_ok unfolding all(1) by (auto simp: list_all_iff dest!: in_set_dropD)
  then have "MOQTStream_pipe qv stream (drop (pp_index (ps_pipers (fan_pipes s) sub)) (ps_objs (fan_pipes s))) \<noteq> None"
    by (simp add: MOQTStream_pipe_ok)
  moreover have "pp_pc (ps_pipers (fan_pipes s) sub) = PcWoken" using assms(6) by (simp add: fan_pipes_def)
  ultimately obtain ps where ps: "(pipe_step (MOQTStream_pipe qv stream) (LPiper sub))\<^sup>*\<^sup>* (fan_pipes s) ps"
      "pp_out (ps_pipers ps sub) = concat (map (stream_enc qv stream) (ps_objs (fan_pipes s)))" "pp_pc (ps_pipers ps sub) = PcDone"
    using object_pipe.woken_delivers [OF stream_object_pipe object_pipe.reach_ok [OF stream_object_pipe r]] all(2) by force
  let ?u = "s\<lparr>fo_pipers := ps_pipers ps\<rparr>"
  have "(fan_step qv ws opened)\<^sup>*\<^sup>* s ?u" using fan_lift [where ws = ws and opened = opened, OF _ assms(5)] ps(1) same by auto
  moreover have "fan_step qv ws opened ?u (set_phase sub (SubClosed h True) ?u)" using assms(5) ps(3) by (intro fan_close) simp_all
  ultimately have "(fan_step qv ws opened)\<^sup>*\<^sup>* s (set_phase sub (SubClosed h True) ?u)" by (rule rtranclp.rtrancl_into_rtrancl)
  then show ?thesis using ps(2,3) by (intro exI [of _ "set_phase sub (SubClosed h True) ?u"]) (simp add: fan_bytes_def all(1))
qed

text \<open>A subscriber that waits, or was woken, while the relay reads.\<close>

lemma fan_waiting_delivers:
  assumes "reach (fan_init stream rs subs) (fan_step qv ws opened) s" and "fresh_stream qv objs stream" and "list_all Object_ok objs"
    and "fo_main s = FwdRead" and "fo_phase s sub = SubPiping h True" and "pp_pc (fo_pipers s sub) \<in> {PcWaiting, PcWoken}"
  shows "\<exists>t. (fan_step qv ws opened)\<^sup>*\<^sup>* s t \<and> fo_phase t sub = SubClosed h True \<and>
    fan_bytes t sub = h @ concat (map (stream_enc qv stream) objs) \<and> pp_pc (fo_pipers t sub) = PcDone"
proof -
  obtain n where "fan_data qv stream rs objs n s" using fan_reach_data [OF assms(1-3)] by blast
  from fan_reads_on [OF this assms(3,4)] obtain u where u: "(fan_step qv ws opened)\<^sup>*\<^sup>* s u" "fo_main u = FwdEnd EOF"
      "fo_phase u = fo_phase s" "fo_pipers u = wake \<circ> fo_pipers s" by metis
  have "pp_pc (fo_pipers u sub) = PcWoken" using u(4) assms(6) by (auto simp: wake_def)
  moreover have "fo_phase u sub = SubPiping h True" using u(3) assms(5) by simp
  ultimately show ?thesis using fan_woken_delivers [OF reach_rtranclp [OF u(1) assms(1)] assms(2,3) u(2)] u(1)
    by (meson rtranclp_trans)
qed

end

section \<open>What a subscriber reads\<close>

context varint_codec
begin

lemma fan_subscriber_reads:
  assumes "MOQTStream_header_ok pst" and "fits62 pid" and "MOQTStream_GetHeaderSubIDBytes qv pst pid = Some ph"
    and "list_all Object_ok objs"
    and "ParseMOQTStream qv \<lparr>rd_data = ph @ concat (map (stream_enc qv pst) objs), rd_end = EOF\<rparr> = Some (Inr (k0, st))"
    and "distinct subs" and "\<forall>sub \<in> set subs. world_ok (ws sub)"
    and "reach (fan_init (MOQTStream_SetStreamID sid st) rs subs) (fan_step qv ws opened) s"
    and "fo_phase s sub \<in> {SubPiping b True, SubClosed b True}" and "pp_pc (fo_pipers s sub) \<noteq> PcFailed"
  shows "\<exists>rh subid p k st1 st2. get_relay (ws sub) sub = Some rh \<and> SubIDGetStream (rh_SubscribedStreams rh) subid = Some p \<and>
    strm_StreamID (ws sub) p = sid \<and> k \<le> length (MOQTStream_objects (fo_stream s)) \<and>
    ParseMOQTStream qv \<lparr>rd_data = fan_bytes s sub, rd_end = EOF\<rparr> = Some (Inr (subid, st1)) \<and> same_header pst st1 \<and>
    read_objects qv (Suc (length (fan_bytes s sub))) st1 = Some (map (stream_received pst) (take k objs), Some EOF, st2)"
proof -
  obtain st' where st': "Some (Inr (k0, st)) = Some (Inr (pid, st'))" "same_header pst st'" "fresh_stream qv objs st'"
    using header_parsed [OF assms(1-3), of objs] assms(5) by auto
  let ?st = "MOQTStream_SetStreamID sid st"
  have hd: "same_header pst ?st" and fresh: "fresh_stream qv objs ?st" using st' same_headerD(4) by auto
  note same = same_headerD [OF hd]
  from fan_bytes_prefix [OF assms(8) fresh assms(4,6,7,9)] assms(10)
  obtain h n k where h: "own_header qv (ws sub) ?st sub h" and n: "fan_data qv ?st rs objs n s" "k \<le> n"
      "fan_bytes s sub = h @ concat (map (stream_enc qv ?st) (take k objs))" by auto
  from h obtain rh subid p where own: "get_relay (ws sub) sub = Some rh" "SubIDGetStream (rh_SubscribedStreams rh) subid = Some p"
      "strm_StreamID (ws sub) p = sid" "MOQTStream_GetHeaderSubIDBytes qv ?st subid = Some h" by (auto simp: own_header_def)
  have ok: "fan_ok qv ws ?st subs s"
    using assms(6,7,8) fresh by (intro fan_invariant ) (simp_all add: fresh_stream_def)
  then have "sub \<in> set subs" using assms(9) by (cases "sub \<in> set subs") (auto simp: fan_ok_def fan_wg_ok_def)
  then have "handler_ok (ws sub) sub ROLE_RELAY (HRelay rh)" using get_relay_ok assms(7) own(1) by blast
  then have "fits62 subid" using own(2) by (auto simp: SubIDGetStream_def dest!: map_of_SomeD)
  moreover have "MOQTStream_header_ok ?st" using fresh by (simp add: fresh_stream_def)
  moreover have "list_all Object_ok (take k objs)" using assms(4) by (auto simp: list_all_iff dest: in_set_takeD)
  ultimately obtain st1 st2 where d: "ParseMOQTStream qv \<lparr>rd_data = fan_bytes s sub, rd_end = EOF\<rparr> = Some (Inr (subid, st1))"
      "same_header ?st st1" "read_objects qv (Suc (length (fan_bytes s sub))) st1 = Some (map (stream_received ?st) (take k objs), Some EOF, st2)"
    using stream_decoded [OF _ _ own(4)] unfolding n(3) by metis
  have "same_header pst st1" using hd d(2) by (cases pst; cases ?st; cases st1) simp_all
  moreover have "k \<le> length (MOQTStream_objects (fo_stream s))" using n(1,2) by (simp add: fan_data_def)
  ultimately show ?thesis using own(1-3) d(1,3) same(2) by (intro exI [of _ rh] exI [of _ subid] exI [of _ p] exI [of _ k] exI conjI) auto
qed

end

section \<open>A run with one subscriber\<close>

text \<open>The subscriber's subscription is found and its stream opens; then it can wait in \<open>Pipe\<close> when the relay starts to read.\<close>

context varint_codec
begin

lemma fan_one_subscriber:
  assumes "fresh_stream qv objs stream" and "world_ok (ws sub)" and "get_relay (ws sub) sub = Some rh"
    and "SubIDGetStream (rh_SubscribedStreams rh) k = Some p" and "strm_StreamID (ws sub) p = MOQTStream_GetStreamID stream" and "opened sub = None"
  shows "\<exists>h s. reach (fan_init stream rs [sub]) (fan_step qv ws opened) s \<and> fo_main s = FwdRead \<and> fo_phase s sub = SubPiping h True \<and>
    pp_pc (fo_pipers s sub) = PcWaiting"
proof -
  let ?s0 = "\<lparr>fo_stream = stream, fo_rs = rs, fo_main = FwdSpawn [sub], fo_phase = (\<lambda>_. SubIdle), fo_pipers = (\<lambda>_. new_piper)\<rparr>"
  let ?s1 = "set_phase sub SubStarted (?s0\<lparr>fo_stream := MOQTStream_WgAdd (fo_stream ?s0), fo_main := FwdSpawn []\<rparr>)"
  have wg: "MOQTStream_wg stream = 0" "MOQTStream_header_ok stream" using assms(1) by (simp_all add: fresh_stream_def)
  have h: "handler_ok (ws sub) sub ROLE_RELAY (HRelay rh)" using assms(2,3) by (rule get_relay_ok)
  then have sm: "StreamsMap_ok (rh_SubscribedStreams rh)" by simp
  obtain k' where k': "GetSubID (strm_StreamID (ws sub)) (rh_SubscribedStreams rh) (MOQTStream_GetStreamID stream) = Inr k'"
    using smap.subid_of_complete [of "strm_StreamID (ws sub)" "rh_SubscribedStreams rh"] assms(4,5) by (metis sum.exhaust)
  from smap.subid_of_sound [OF sm k'] have "fits62 k'" using h by (auto simp: SubIDGetStream_def dest!: map_of_SomeD)
  then obtain hdr where hdr: "MOQTStream_GetHeaderSubIDBytes qv stream k' = Some hdr" using header_total wg(2) by blast
  obtain st where st: "MOQTStream_WgDone (MOQTStream_WgAdd stream) = Some st" "MOQTStream_wg st = 0"
    using MOQTStream_WgDone_pos [of "MOQTStream_WgAdd stream"] wg(1) by auto
  have P: "RelayHandler_ProcessMOQTStream qv sub (fo_stream ?s1) (opened sub) (ws sub) = Some (Some hdr, st)"
    using assms(3,6) k' hdr st(1) by (simp add: RelayHandler_ProcessMOQTStream_def)
  let ?s2 = "set_phase sub (SubPiping hdr True) (?s1\<lparr>fo_stream := st\<rparr>)"
  let ?s3 = "?s2\<lparr>fo_main := FwdRead\<rparr>"
  let ?ps = "set_piper sub (new_piper\<lparr>pp_pc := PcWaiting\<rparr>) (fan_pipes ?s3)"
  let ?s4 = "?s3\<lparr>fo_pipers := ps_pipers ?ps\<rparr>"
  have 1: "fan_step qv ws opened ?s0 ?s1" by (rule fan_spawn) simp
  have 2: "fan_step qv ws opened ?s1 ?s2" using P by (intro fan_header) simp_all
  have 3: "fan_step qv ws opened ?s2 ?s3" using st(2) by (intro fan_WgWait) simp_all
  have "pipe_step (MOQTStream_pipe qv (fo_stream ?s3)) (LPiper sub) (fan_pipes ?s3) ?ps"
    by (rule lock_wait) (simp_all add: fan_pipes_def new_piper_def)
  then have 4: "fan_step qv ws opened ?s3 ?s4" using fan_pipe [of ?s3 sub hdr True] by simp
  have 0: "reach (fan_init stream rs [sub]) (fan_step qv ws opened) ?s0" by (rule reach_init) (simp add: fan_init_def)
  have "reach (fan_init stream rs [sub]) (fan_step qv ws opened) ?s4"
    using reach_rtranclp [where step = "fan_step qv ws opened", OF _ 0] 1 2 3 4 by (meson converse_rtranclp_into_rtranclp r_into_rtranclp)
  then show ?thesis by (intro exI [of _ hdr] exI [of _ ?s4]) simp
qed

end

lemma sample_fan_world:
  "\<exists>rh. get_relay sample_forwarding 1 = Some rh \<and> SubIDGetStream (rh_SubscribedStreams rh) 7 = Some 0 \<and> strm_StreamID sample_forwarding 0 = ''live_video''"
  "is_relay sample_forwarding 1"
proof -
  show "is_relay sample_forwarding 1" and
    "\<exists>rh. get_relay sample_forwarding 1 = Some rh \<and> SubIDGetStream (rh_SubscribedStreams rh) 7 = Some 0 \<and> strm_StreamID sample_forwarding 0 = ''live_video''"
    using register_result [OF sample_forwarding_reg(1)] sample_serving_refs(3)
    by (auto simp: is_relay_get SubIDGetStream_def AddStream_def gomap_simps strm_StreamID_def RelayStream_AddSubscriber_def put_cached_def
        NewRelayStream_def RelayStream_GetStreamID_def)
qed

section \<open>The publisher's goroutine\<close>

text \<open>The goroutine that \<open>NewStream\<close> starts calls \<open>Pipe\<close> as the relay's do, with one difference: an error that is not the end of the
  stream is logged, and the loop goes on with the index that \<open>Pipe\<close> returned.\<close>

inductive pub_pipe_step :: "(Object list \<Rightarrow> bytes option) \<Rightarrow> pipe_sys \<Rightarrow> pipe_sys \<Rightarrow> bool"
  for coll :: "Object list \<Rightarrow> bytes option" where
  pub_pipe: "pipe_step coll l s t \<Longrightarrow> \<forall>i. pp_pc (ps_pipers t i) \<noteq> PcFailed \<Longrightarrow> pub_pipe_step coll s t"
| pub_write_error: "ps_pipers s i = p \<Longrightarrow> pp_pc p = PcCopied data \<Longrightarrow>
    pub_pipe_step coll s (set_piper i (p\<lparr>pp_pc := PcCall, pp_out := pp_out p @ take n data\<rparr>) s)"

lemma pub_reach_via:
  "reach pipe_init (pub_pipe_step coll) s \<Longrightarrow> pipe_step coll l s t \<Longrightarrow> \<forall>i. pp_pc (ps_pipers t i) \<noteq> PcFailed \<Longrightarrow>
   reach pipe_init (pub_pipe_step coll) t"
  by (rule reach_step) (auto intro: pub_pipe)

text \<open>A write fails where \<open>Pipe\<close> goes from the write straight back to its call. A run in which that has not happened is a run of the
  pipe.\<close>

definition write_failed :: "pipe_sys \<Rightarrow> pipe_sys \<Rightarrow> bool" where
  "write_failed s t \<longleftrightarrow> (\<exists>i data. pp_pc (ps_pipers s i) = PcCopied data \<and> pp_pc (ps_pipers t i) = PcCall)"

definition pub_run :: "(Object list \<Rightarrow> bytes option) \<Rightarrow> pipe_sys \<Rightarrow> bool" where
  "pub_run coll = reach pipe_init (\<lambda>s t. pub_pipe_step coll s t \<and> \<not> write_failed s t)"

lemma pipe_step_not_failed: "pipe_step coll l s t \<Longrightarrow> \<not> write_failed s t"
  by (cases rule: pipe_step.cases) (auto simp: write_failed_def set_piper_def Broadcast_def wake_def split: if_splits)

lemma pipe_step_unfailed: "pipe_step coll l s t \<Longrightarrow> pp_pc (ps_pipers t i) \<noteq> PcFailed \<Longrightarrow> pp_pc (ps_pipers s i) \<noteq> PcFailed"
  by (cases rule: pipe_step.cases) (auto simp: set_piper_def Broadcast_def wake_def split: if_splits)

lemma pub_run_pipe:
  assumes "pub_run coll s"
  shows "reach pipe_init (pipe_next coll) s \<and> (\<forall>i. pp_pc (ps_pipers s i) \<noteq> PcFailed)"
  using assms unfolding pub_run_def
proof induction
  case (reach_init s)
  then show ?case by (auto simp: pipe_init_def intro: reach.reach_init)
next
  case (reach_step s t)
  from reach_step(2) have st: "pub_pipe_step coll s t" "\<not> write_failed s t" by simp_all
  from st(1) show ?case
  proof cases
    case (pub_pipe l)
    then show ?thesis using reach_step(3) by (auto intro: reach_via)
  next
    case (pub_write_error i p data n)
    then have "write_failed s t" by (auto simp: write_failed_def)
    then show ?thesis using st(2) by simp
  qed
qed

lemma pub_run_start: "pub_run coll pipe0"
  unfolding pub_run_def by (rule reach_init) (simp add: pipe_init_def pipe0_def)

lemma pub_run_via: "pub_run coll s \<Longrightarrow> pipe_step coll l s t \<Longrightarrow> \<forall>i. pp_pc (ps_pipers t i) \<noteq> PcFailed \<Longrightarrow> pub_run coll t"
  unfolding pub_run_def by (rule reach_step) (auto intro: pub_pipe dest: pipe_step_not_failed)

lemma pipe_pub_run:
  assumes "reach pipe_init (pipe_next coll) s" and "\<forall>i. pp_pc (ps_pipers s i) \<noteq> PcFailed"
  shows "pub_run coll s"
  using assms
proof induction
  case (reach_init s)
  then show ?case unfolding pub_run_def by (intro reach.reach_init)
next
  case (reach_step s t)
  then obtain l where "pipe_step coll l s t" by (auto simp: pipe_next_def)
  then show ?case using reach_step by (meson pipe_step_unfailed pub_run_via)
qed

text \<open>An object whose write failed is not written again, so that the stream goes on without it: of two objects only the second
  is on the stream, and the goroutine has written all it will ever write of them.\<close>

lemma publisher_skips_after_error:
  assumes "coll [a] = Some da" and "coll [b] = Some db"
  shows "\<exists>s. reach pipe_init (pub_pipe_step coll) s \<and> ps_objs s = [a, b] \<and> pp_index (ps_pipers s 0) = 2 \<and>
    pp_out (ps_pipers s 0) = db"
proof -
  let ?p = "\<lambda>pc k out. \<lparr>pp_pc = pc, pp_index = k, pp_out = out\<rparr>"
  let ?s1 = "set_piper 0 (?p PcWaiting 0 []) pipe0"
  let ?s2 = "Broadcast (?s1\<lparr>ps_objs := [a]\<rparr>)"
  let ?s3 = "set_piper 0 (?p (PcCopied da) 1 []) ?s2"
  let ?s4 = "set_piper 0 (?p PcCall 1 []) ?s3"
  let ?s5 = "set_piper 0 (?p PcWaiting 1 []) ?s4"
  let ?s6 = "Broadcast (?s5\<lparr>ps_objs := [a, b]\<rparr>)"
  let ?s7 = "set_piper 0 (?p (PcCopied db) 2 []) ?s6"
  let ?s8 = "set_piper 0 (?p PcWritten 2 db) ?s7"
  note pc = set_piper_def Broadcast_def wake_def pipe0_def
  have 0: "reach pipe_init (pub_pipe_step coll) pipe0" by (rule reach_init) (simp add: pipe_init_def pipe0_def)
  have 1: "pipe_step coll (LPiper 0) pipe0 ?s1" using lock_wait [of pipe0 0 _ coll] by (simp add: pipe0_def)
  have 2: "pipe_step coll (LWrite a) ?s1 ?s2" using write_object [of coll a ?s1] by (simp add: pc)
  have 3: "pipe_step coll (LPiper 0) ?s2 ?s3" using copy_objects [of ?s2 0 "?p PcWoken 0 []" coll da] assms(1) by (simp add: wake_def)
  have 4: "pub_pipe_step coll ?s3 ?s4" using pub_write_error [of ?s3 0 "?p (PcCopied da) 1 []" da coll 0] by simp
  have 5: "pipe_step coll (LPiper 0) ?s4 ?s5" using lock_wait [of ?s4 0 "?p PcCall 1 []" coll] by simp
  have 6: "pipe_step coll (LWrite b) ?s5 ?s6" using write_object [of coll b ?s5] by simp
  have 7: "pipe_step coll (LPiper 0) ?s6 ?s7" using copy_objects [of ?s6 0 "?p PcWoken 1 []" coll db] assms(2) by (simp add: wake_def numeral_2_eq_2)
  have 8: "pipe_step coll (LPiper 0) ?s7 ?s8" using write_bytes [of ?s7 0 "?p (PcCopied db) 2 []" db coll] by simp
  have "reach pipe_init (pub_pipe_step coll) ?s3" by (rule 0 [THEN pub_reach_via [OF _ 1], THEN pub_reach_via [OF _ 2], THEN pub_reach_via [OF _ 3]]) (simp_all add: pc)
  then have "reach pipe_init (pub_pipe_step coll) ?s4" using 4 by (rule reach_step)
  then have "reach pipe_init (pub_pipe_step coll) ?s8"
    using pub_reach_via [OF pub_reach_via [OF pub_reach_via [OF pub_reach_via [OF _ 5] 6] 7] 8] by (simp add: pc)
  then show ?thesis by (intro exI [of _ ?s8]) simp
qed

text \<open>On a stream on which no write succeeds any more, the goroutine does not end, not even when the stream is closed: \<open>Pipe\<close> returns
  the error before it looks at \<open>IsEOF\<close>.\<close>

lemma publisher_broken_never_ends:
  assumes "(\<lambda>s t. pub_pipe_step coll s t \<and> pp_pc (ps_pipers t i) \<noteq> PcWritten)\<^sup>*\<^sup>* s t" and "pp_pc (ps_pipers s i) \<notin> {PcWritten, PcDone}"
  shows "pp_pc (ps_pipers t i) \<noteq> PcDone"
proof -
  have "pp_pc (ps_pipers t i) \<notin> {PcWritten, PcDone}" using assms(1)
  proof (induction rule: rtranclp_induct)
    case (step t u)
    from step(2) have "pub_pipe_step coll t u" "pp_pc (ps_pipers u i) \<noteq> PcWritten" by auto
    then show ?case
    proof cases
      case (pub_pipe l)
      from pub_pipe(1) show ?thesis using step(3) \<open>pp_pc (ps_pipers u i) \<noteq> PcWritten\<close>
        by cases (auto simp: set_piper_def Broadcast_def wake_def split: if_splits)
    next
      case (pub_write_error j p data n)
      then show ?thesis using step(3) by (auto simp: set_piper_def)
    qed
  qed (use assms(2) in simp)
  then show ?thesis by simp
qed

section \<open>Properties\<close>

text \<open>Property C6 (each subscriber reads its own subscription and a prefix of the objects). A publisher's stream, its header and then
  any objects, is parsed by the relay and handed to any number of subscribers. In every reachable state, whatever the interleaving, what is on the stream
  of a subscriber whose writes have not failed is read by it as a stream of the same kind with the same track, group and order, under a
  subscription of its own to this track, and then as the first \<open>k\<close> objects of the publisher, of those that the relay has
  read: none is changed, repeated, reordered or left out in between.\<close>

theorem fanout_each_reads_prefix:
  assumes "varint_codec qv" and "MOQTStream_header_ok pst" and "fits62 pid" and "MOQTStream_GetHeaderSubIDBytes qv pst pid = Some ph"
    and "list_all Object_ok objs"
    and "ParseMOQTStream qv \<lparr>rd_data = ph @ concat (map (stream_enc qv pst) objs), rd_end = EOF\<rparr> = Some (Inr (k0, st))"
    and "distinct subs" and "\<forall>sub \<in> set subs. world_ok (ws sub)"
    and "reach (fan_init (MOQTStream_SetStreamID sid st) rs subs) (fan_step qv ws opened) s"
    and "fo_phase s sub \<in> {SubPiping b True, SubClosed b True}" and "pp_pc (fo_pipers s sub) \<noteq> PcFailed"
  shows "\<exists>rh subid p k st1 st2. get_relay (ws sub) sub = Some rh \<and> SubIDGetStream (rh_SubscribedStreams rh) subid = Some p \<and>
    strm_StreamID (ws sub) p = sid \<and> k \<le> length (MOQTStream_objects (fo_stream s)) \<and>
    ParseMOQTStream qv \<lparr>rd_data = fan_bytes s sub, rd_end = EOF\<rparr> = Some (Inr (subid, st1)) \<and> same_header pst st1 \<and>
    read_objects qv (Suc (length (fan_bytes s sub))) st1 = Some (map (stream_received pst) (take k objs), Some EOF, st2)"
  by (rule varint_codec.fan_subscriber_reads [OF assms])

text \<open>Property C7 (the relay reads a stream to its end). Whatever state the goroutines around a publisher's stream have reached, and
  whichever subscribers cannot be served, the wait for the headers ends and the relay can go on to the end of the stream, without a
  panic; then its array holds every object and the cache has taken each of them in order.\<close>

theorem fanout_reads_to_end:
  assumes "varint_codec qv" and "fresh_stream qv objs stream" and "list_all Object_ok objs" and "distinct subs"
    and "\<forall>sub \<in> set subs. world_ok (ws sub) \<and> is_relay (ws sub) sub"
    and "reach (fan_init stream rs subs) (fan_step qv ws opened) s"
  shows "\<exists>t. (fan_step qv ws opened)\<^sup>*\<^sup>* s t \<and> fo_main t = FwdEnd EOF \<and> MOQTStream_objects (fo_stream t) = map (as_read stream) objs \<and>
    fo_rs t = fold put_cached (map (cached_of \<circ> as_read stream) objs) rs"
  using varint_codec.fan_finishes [OF assms(1,6,2-5)] by (auto simp: fan_data_def cached_upto_def)

text \<open>Property C8 (who gets everything). A subscriber that waits in \<open>Pipe\<close>, or has been woken there, while the relay still reads, can be served to the
  end: every object is written to its stream, and the stream is closed. A subscriber that is about to wait when the stream has
  ended is never woken: its stream stays as it is and is never closed.\<close>

theorem fanout_delivery:
  assumes "varint_codec qv" and "fresh_stream qv objs stream" and "list_all Object_ok objs"
    and "reach (fan_init stream rs subs) (fan_step qv ws opened) s" and "fo_phase s sub = SubPiping h True"
  shows "(fo_main s = FwdRead \<and> pp_pc (fo_pipers s sub) \<in> {PcWaiting, PcWoken} \<longrightarrow>
      (\<exists>t. (fan_step qv ws opened)\<^sup>*\<^sup>* s t \<and> fo_phase t sub = SubClosed h True \<and>
        fan_bytes t sub = h @ concat (map (stream_enc qv stream) objs))) \<and>
    (\<forall>err t. fo_main s = FwdEnd err \<and> pp_pc (fo_pipers s sub) \<in> {PcCall, PcWaiting} \<and> (fan_step qv ws opened)\<^sup>*\<^sup>* s t \<longrightarrow>
      fo_phase t sub = SubPiping h True \<and> fan_bytes t sub = fan_bytes s sub)"
  using varint_codec.fan_waiting_delivers [OF assms(1,4,2,3) _ assms(5)] fan_stuck_for_ever [OF _ _ assms(5)] by blast

text \<open>One subscriber of the track \<open>live_video\<close> and a stream with one object.\<close>

lemma sample_fan_header:
  "MOQTStream_header_ok (SGroup sample_group)"
  "\<exists>ph st. MOQTStream_GetHeaderSubIDBytes rfc9000 (SGroup sample_group) 99 = Some ph \<and>
     ParseMOQTStream rfc9000 \<lparr>rd_data = ph @ concat (map (stream_enc rfc9000 (SGroup sample_group)) [sample_obj]), rd_end = EOF\<rparr> = Some (Inr (99, st)) \<and>
     fresh_stream rfc9000 [sample_obj] (MOQTStream_SetStreamID ''live_video'' st)"
proof -
  show ok: "MOQTStream_header_ok (SGroup sample_group)"
    by (simp add: sample_group_def NewGroupStream_def zero_GroupStream_def fits62_def)
  have "fits62 99" by (simp add: fits62_def)
  then show "\<exists>ph st. MOQTStream_GetHeaderSubIDBytes rfc9000 (SGroup sample_group) 99 = Some ph \<and>
     ParseMOQTStream rfc9000 \<lparr>rd_data = ph @ concat (map (stream_enc rfc9000 (SGroup sample_group)) [sample_obj]), rd_end = EOF\<rparr> = Some (Inr (99, st)) \<and>
     fresh_stream rfc9000 [sample_obj] (MOQTStream_SetStreamID ''live_video'' st)"
    using rfc.header_total [OF ok] rfc.header_parsed [OF ok, of 99 _ "[sample_obj]"] unfolding SetStreamID_fresh by metis
qed

lemma sample_fan_run:
  assumes "fresh_stream rfc9000 [sample_obj] (MOQTStream_SetStreamID ''live_video'' st)"
  shows "\<exists>h s. reach (fan_init (MOQTStream_SetStreamID ''live_video'' st) full_cache [1]) (fan_step rfc9000 (\<lambda>_. sample_forwarding) (\<lambda>_. None)) s \<and>
    fo_main s = FwdRead \<and> fo_phase s 1 = SubPiping h True \<and> pp_pc (fo_pipers s 1) = PcWaiting"
proof -
  obtain rh where "get_relay sample_forwarding 1 = Some rh" "SubIDGetStream (rh_SubscribedStreams rh) 7 = Some 0"
      "strm_StreamID sample_forwarding 0 = ''live_video''" using sample_fan_world(1) by blast
  then show ?thesis using rfc.fan_one_subscriber [where ws = "\<lambda>_. sample_forwarding" and opened = "\<lambda>_. None" and rs = full_cache and sub = 1, OF assms]
      sample_forwarding_reg(2) by simp
qed

theorem fanout_each_reads_prefix_witness:
  "\<exists>st s st1 st2 subid k. fo_phase s 1 \<noteq> SubIdle \<and>
    reach (fan_init (MOQTStream_SetStreamID ''live_video'' st) full_cache [1]) (fan_step rfc9000 (\<lambda>_. sample_forwarding) (\<lambda>_. None)) s \<and>
    ParseMOQTStream rfc9000 \<lparr>rd_data = fan_bytes s 1, rd_end = EOF\<rparr> = Some (Inr (subid, st1)) \<and> same_header (SGroup sample_group) st1 \<and>
    read_objects rfc9000 (Suc (length (fan_bytes s 1))) st1 = Some (map (stream_received (SGroup sample_group)) (take k [sample_obj]), Some EOF, st2)"
proof -
  obtain ph st where p: "MOQTStream_GetHeaderSubIDBytes rfc9000 (SGroup sample_group) 99 = Some ph"
      "ParseMOQTStream rfc9000 \<lparr>rd_data = ph @ concat (map (stream_enc rfc9000 (SGroup sample_group)) [sample_obj]), rd_end = EOF\<rparr> = Some (Inr (99, st))"
      "fresh_stream rfc9000 [sample_obj] (MOQTStream_SetStreamID ''live_video'' st)" using sample_fan_header(2) by blast
  obtain h s where s: "reach (fan_init (MOQTStream_SetStreamID ''live_video'' st) full_cache [1]) (fan_step rfc9000 (\<lambda>_. sample_forwarding) (\<lambda>_. None)) s"
      "fo_phase s 1 = SubPiping h True" "pp_pc (fo_pipers s 1) = PcWaiting" using sample_fan_run [OF p(3)] by blast
  have "fits62 99" "list_all Object_ok [sample_obj]" "distinct [1 :: ref]" "\<forall>sub \<in> set [1 :: ref]. world_ok sample_forwarding"
    "fo_phase s 1 \<in> {SubPiping h True, SubClosed h True}" "pp_pc (fo_pipers s 1) \<noteq> PcFailed"
    using s sample_obj_ok sample_forwarding_reg(2) by (simp_all add: fits62_def)
  from fanout_each_reads_prefix [where ws = "\<lambda>_. sample_forwarding", OF rfc9000_codec sample_fan_header(1) this(1) p(1) this(2) p(2) this(3,4) s(1) this(5,6)]
  show ?thesis using s(1,2) sub_phase.distinct by metis
qed

theorem fanout_reads_to_end_witness:
  "\<exists>st s t. reach (fan_init (MOQTStream_SetStreamID ''live_video'' st) full_cache [1]) (fan_step rfc9000 (\<lambda>_. sample_forwarding) (\<lambda>_. None)) s \<and>
    (fan_step rfc9000 (\<lambda>_. sample_forwarding) (\<lambda>_. None))\<^sup>*\<^sup>* s t \<and> fo_main t = FwdEnd EOF \<and> length (MOQTStream_objects (fo_stream t)) = 1"
proof -
  obtain st where p: "fresh_stream rfc9000 [sample_obj] (MOQTStream_SetStreamID ''live_video'' st)" using sample_fan_header(2) by blast
  obtain s where s: "reach (fan_init (MOQTStream_SetStreamID ''live_video'' st) full_cache [1]) (fan_step rfc9000 (\<lambda>_. sample_forwarding) (\<lambda>_. None)) s"
    using sample_fan_run [OF p] by blast
  have "list_all Object_ok [sample_obj]" "distinct [1 :: ref]" "\<forall>sub \<in> set [1 :: ref]. world_ok sample_forwarding \<and> is_relay sample_forwarding sub"
    using sample_obj_ok sample_forwarding_reg(2) sample_fan_world(2) by simp_all
  from fanout_reads_to_end [where ws = "\<lambda>_. sample_forwarding", OF rfc9000_codec p this s] show ?thesis using s by fastforce
qed

theorem fanout_delivery_witness:
  "\<exists>st s t h. reach (fan_init (MOQTStream_SetStreamID ''live_video'' st) full_cache [1]) (fan_step rfc9000 (\<lambda>_. sample_forwarding) (\<lambda>_. None)) s \<and>
    (fan_step rfc9000 (\<lambda>_. sample_forwarding) (\<lambda>_. None))\<^sup>*\<^sup>* s t \<and> fo_phase t 1 = SubClosed h True \<and>
    fan_bytes t 1 = h @ concat (map (stream_enc rfc9000 (MOQTStream_SetStreamID ''live_video'' st)) [sample_obj])"
proof -
  obtain st where p: "fresh_stream rfc9000 [sample_obj] (MOQTStream_SetStreamID ''live_video'' st)" using sample_fan_header(2) by blast
  obtain h s where s: "reach (fan_init (MOQTStream_SetStreamID ''live_video'' st) full_cache [1]) (fan_step rfc9000 (\<lambda>_. sample_forwarding) (\<lambda>_. None)) s"
      "fo_phase s 1 = SubPiping h True" "fo_main s = FwdRead" "pp_pc (fo_pipers s 1) = PcWaiting" using sample_fan_run [OF p] by blast
  have "list_all Object_ok [sample_obj]" using sample_obj_ok by simp
  from fanout_delivery [OF rfc9000_codec p this s(1,2)] show ?thesis using s by blast
qed

end
