(* ===== verification/Media_Apps.thy ===== *)
theory Media_Apps
  imports Reorder_Buffer Stream_Goroutines H3_Requests
begin

text \<open>
  The example programs: the file publisher and subscriber (\<open>src/examples/pub/pub.go\<close>, \<open>src/examples/sub/sub.go\<close>) and the media
  publishers and subscribers (\<open>src/examples/ffmpeg\<close>, \<open>src/examples/ffmpeg-udp\<close>), without their \<open>main\<close> functions, which
  read flags and set up logging. The random payloads, the results of opening streams and the blocks read from the input are
  arguments. Pauses are left out. What a subscriber writes, to its output or to a socket, is its result.

  The input of a media publisher is the list of blocks that come before it waits for ever (\<open>ReadFromStdin\<close> never closes its
  channel): the last group stays open with the blocks that do not fill it.

  Shown here: the units of \<open>formatBytes\<close>; what the publishers put into their groups; what can arrive of a group that the goroutines of the
  publisher and the relay have carried to its end (\<open>carried\<close>): the first \<open>k\<close> of its objects, all of them or fewer; that a media subscriber
  hands on the groups in their order, but for those that its buffer still holds back; and that a file subscriber counts
  what has come.
\<close>

section \<open>The file publisher\<close>

text \<open>A Go \<open>int64\<close>: additions wrap around, \<open>sint\<close> reads it.\<close>

type_synonym i64 = "64 word"

definition CHUNKSIZE :: nat where "CHUNKSIZE = 64 * 1024"
definition OBJECTS_PER_GROUP :: nat where "OBJECTS_PER_GROUP = 10"

definition wrap64 :: "int \<Rightarrow> int" where
  "wrap64 x = (x + 2 ^ 63) mod 2 ^ 64 - 2 ^ 63"

function format_loop :: "int \<Rightarrow> int \<Rightarrow> nat \<Rightarrow> int \<times> nat" where
  "format_loop n dv e = (if n \<ge> 1024 then format_loop (n div 1024) (wrap64 (dv * 1024)) (Suc e) else (dv, e))"
  by auto
termination by (relation "measure (\<lambda>(n, _, _). nat n)") auto

declare format_loop.simps [simp del]

text \<open>The result of the last \<open>Sprintf\<close> is kept as its arguments: the dividend, the divisor and the unit.\<close>

datatype formatted = FmtBytes string | FmtScaled int int char

definition formatBytes :: "int \<Rightarrow> formatted option" where
  "formatBytes b =
    (if b < 1024 then Some (FmtBytes (Itoa b @ '' B''))
     else (case format_loop (b div 1024) 1024 0 of (dv, e) \<Rightarrow>
       if e < length ''KMGTPE'' then Some (FmtScaled b dv (''KMGTPE'' ! e)) else None))"

text \<open>The inner loop of \<open>handleStream\<close>; \<open>payload\<close> is what \<open>rand.Read\<close> makes of the buffer of \<open>CHUNKSIZE\<close> bytes.\<close>

fun pub_objects :: "(u64 \<Rightarrow> u64 \<Rightarrow> bytes) \<Rightarrow> u64 \<Rightarrow> nat \<Rightarrow> u64 \<Rightarrow> MOQTStream \<Rightarrow> i64 \<Rightarrow> MOQTStream \<times> i64" where
  "pub_objects payload groupid 0 objectid gs bytesSent = (gs, bytesSent)"
| "pub_objects payload groupid (Suc i) objectid gs bytesSent =
    pub_objects payload groupid i (objectid + 1)
      (MOQTStream_WriteObject \<lparr>obj_GroupID = groupid, obj_ID = objectid, obj_Payload = payload groupid objectid\<rparr> gs)
      (bytesSent + word_of_nat (length (payload groupid objectid)))"

text \<open>The outer loop, for \<open>rounds\<close> more groups. An unlimited publisher has any number of rounds.\<close>

fun pub_handleStream :: "quicvarint \<Rightarrow> (u64 \<Rightarrow> nat \<Rightarrow> goerror option) \<Rightarrow> PubStream \<Rightarrow> (u64 \<Rightarrow> u64 \<Rightarrow> bytes) \<Rightarrow> nat \<Rightarrow> u64 \<Rightarrow> i64
    \<Rightarrow> ((bytes \<times> MOQTStream) list \<times> i64 \<times> goerror option) option" where
  "pub_handleStream qv opens pub payload 0 groupid bytesSent = Some ([], bytesSent, None)"
| "pub_handleStream qv opens pub payload (Suc rounds) groupid bytesSent = do {
     (err, header, gs) \<leftarrow> PubStream_NewGroup qv (opens groupid) pub groupid;
     case (err, header) of
       (None, Some header) \<Rightarrow> (case pub_objects payload groupid OBJECTS_PER_GROUP 0 gs bytesSent of (gs, bytesSent) \<Rightarrow> do {
         (rest, bytesSent, err) \<leftarrow> pub_handleStream qv opens pub payload rounds (groupid + 1) bytesSent;
         Some ((header, MOQTStream_Close gs) # rest, bytesSent, err) })
     | _ \<Rightarrow> Some ([], bytesSent, err) }"

section \<open>The media publisher\<close>

fun write_blocks :: "u64 \<Rightarrow> bytes list \<Rightarrow> MOQTStream \<Rightarrow> u64 \<times> MOQTStream" where
  "write_blocks objid [] gs = (objid, gs)"
| "write_blocks objid (data # blocks) gs =
    write_blocks (objid + 1) blocks (MOQTStream_WriteObject (zero_Object\<lparr>obj_ID := objid, obj_Payload := data\<rparr>) gs)"

text \<open>\<open>handleStream\<close> with \<open>k\<close> blocks per group, 10 from the standard input and 7 from the socket.\<close>

function ffmpeg_handleStream :: "quicvarint \<Rightarrow> nat \<Rightarrow> (u64 \<Rightarrow> nat \<Rightarrow> goerror option) \<Rightarrow> PubStream \<Rightarrow> u64 \<Rightarrow> u64 \<Rightarrow> bytes list
    \<Rightarrow> ((bytes \<times> MOQTStream) list \<times> goerror option) option" where
  "ffmpeg_handleStream qv k opens pub groupid objid blocks =
    (case PubStream_NewGroup qv (opens groupid) pub groupid of
       None \<Rightarrow> None
     | Some (None, Some header, gs) \<Rightarrow>
         if k = 0 \<or> length blocks < k then Some ([(header, snd (write_blocks objid blocks gs))], None)
         else (case write_blocks objid (take k blocks) gs of (objid', gs) \<Rightarrow>
           (case ffmpeg_handleStream qv k opens pub (groupid + 1) objid' (drop k blocks) of
              None \<Rightarrow> None
            | Some (rest, err) \<Rightarrow> Some ((header, MOQTStream_Close gs) # rest, err)))
     | Some (err, _, _) \<Rightarrow> Some ([], err))"
  by auto
termination by (relation "measure (\<lambda>(_, _, _, _, _, _, blocks). length blocks)") auto

declare ffmpeg_handleStream.simps [simp del]

section \<open>The subscribers\<close>

text \<open>\<open>handleMOQStream\<close> of a media subscriber: the payloads it writes. Every round takes a byte off the reader, so one more
  round than bytes is enough.\<close>

definition handleMOQStream :: "quicvarint \<Rightarrow> GroupStream \<Rightarrow> bytes option" where
  "handleMOQStream qv gs = do {
     (objects, err, _) \<leftarrow> read_objects qv (Suc (case gs_reader gs of None \<Rightarrow> 0 | Some r \<Rightarrow> length (rd_data r))) (SGroup gs);
     Some (concat (map (\<lambda>(_, object). obj_Payload object) objects)) }"

record sub_totals =
  totalBytesReceived :: i64
  totalGroups :: i64
  totalObjects :: i64

text \<open>\<open>handleMOQStream\<close> of the file subscriber, up to its log lines; the totals are updated under a lock.\<close>

fun sub_handleMOQStream :: "quicvarint \<Rightarrow> MOQTStream \<Rightarrow> sub_totals \<Rightarrow> sub_totals option" where
  "sub_handleMOQStream qv (STrack ts) t = None"
| "sub_handleMOQStream qv (SGroup gs) t = do {
     (objects, err, _) \<leftarrow> read_objects qv (Suc (case gs_reader gs of None \<Rightarrow> 0 | Some r \<Rightarrow> length (rd_data r))) (SGroup gs);
     Some \<lparr>totalBytesReceived = totalBytesReceived t + (\<Sum>(_, object) \<leftarrow> objects. word_of_nat (length (obj_Payload object))),
       totalGroups = totalGroups t + 1, totalObjects = totalObjects t + word_of_nat (length objects)\<rparr> }"

text \<open>\<open>handleStream\<close> starts one \<open>handleMOQStream\<close> per stream; the streams are listed in the order in which these take the lock.\<close>

fun sub_handleStream :: "quicvarint \<Rightarrow> MOQTStream list \<Rightarrow> sub_totals \<Rightarrow> sub_totals option" where
  "sub_handleStream qv [] t = Some t"
| "sub_handleStream qv (moqtstream # ss) t = do {
     t \<leftarrow> sub_handleMOQStream qv moqtstream t;
     sub_handleStream qv ss t }"

section \<open>Units\<close>

lemma wrap64_id: "0 \<le> x \<Longrightarrow> x < 2 ^ 63 \<Longrightarrow> wrap64 x = x"
  by (simp add: wrap64_def)

text \<open>The quotient is what is left of the number, and the divisor does not overflow while the number is below \<open>2^63\<close>.\<close>

lemma format_loop_units:
  assumes "1 \<le> n" and "1024 ^ Suc e * n \<le> b" and "b < 1024 ^ Suc e * (n + 1)" and "b < 2 ^ 63"
  shows "\<exists>e'. format_loop n (1024 ^ Suc e) e = (1024 ^ Suc e', e') \<and> 1024 ^ Suc e' \<le> b \<and> b < 1024 ^ Suc (Suc e')"
  using assms
proof (induction n "1024 ^ Suc e :: int" e rule: format_loop.induct)
  case (1 n e)
  let ?u = "1024 ^ Suc e :: int"
  have u: "0 < ?u" by simp
  show ?case
  proof (cases "n \<ge> 1024")
    case False
    have "?u * 1 \<le> ?u * n" using "1.prems"(1) u by (intro mult_left_mono) simp_all
    moreover have "?u * (n + 1) \<le> ?u * 1024" using False u by (intro mult_left_mono) simp_all
    ultimately have "?u \<le> b" "b < ?u * 1024" using "1.prems"(2,3) by linarith+
    then have "?u \<le> b" "b < 1024 ^ Suc (Suc e)" by simp_all
    then show ?thesis using False by (subst format_loop.simps) auto
  next
    case True
    have n1: "1024 * (n div 1024) \<le> n" "n + 1 \<le> 1024 * (n div 1024 + 1)" by presburger+
    have m: "?u * (1024 * x) = 1024 ^ Suc (Suc e) * x" for x by simp
    have "?u * (1024 * (n div 1024)) \<le> ?u * n" using n1(1) u by (intro mult_left_mono) simp_all
    then have le: "1024 ^ Suc (Suc e) * (n div 1024) \<le> b" using "1.prems"(2) unfolding m by (rule order.trans)
    have "?u * (n + 1) \<le> ?u * (1024 * (n div 1024 + 1))" using n1(2) u by (intro mult_left_mono) simp_all
    with "1.prems"(3) have lt: "b < 1024 ^ Suc (Suc e) * (n div 1024 + 1)" unfolding m by (rule less_le_trans)
    have one: "1 \<le> n div 1024" using True by simp
    have "1024 ^ Suc (Suc e) * 1 \<le> 1024 ^ Suc (Suc e) * (n div 1024)" using one by (intro mult_left_mono) simp_all
    then have "1024 ^ Suc (Suc e) < (2 ^ 63 :: int)" using le "1.prems"(4) by linarith
    then have "wrap64 (1024 ^ Suc (Suc e)) = 1024 ^ Suc (Suc e)" by (intro wrap64_id) simp_all
    then have "wrap64 (?u * 1024) = 1024 ^ Suc (Suc e)" by (simp add: mult.commute)
    moreover from this have "\<exists>e'. format_loop (n div 1024) (1024 ^ Suc (Suc e)) (Suc e) = (1024 ^ Suc e', e') \<and>
        1024 ^ Suc e' \<le> b \<and> b < 1024 ^ Suc (Suc e')"
      using "1.hyps" [OF True] one le lt "1.prems"(4) by simp
    ultimately show ?thesis using True by (subst format_loop.simps) simp
  qed
qed

lemma unit_bound: "(1024 :: int) ^ Suc e < 2 ^ 63 \<Longrightarrow> e < 6"
proof (rule ccontr)
  assume "(1024 :: int) ^ Suc e < 2 ^ 63" and "\<not> e < 6"
  then have "(1024 :: int) ^ 7 \<le> 1024 ^ Suc e" by (intro power_increasing) simp_all
  then show False using \<open>(1024 :: int) ^ Suc e < 2 ^ 63\<close> by simp
qed

section \<open>Properties of the publishers\<close>

text \<open>Property C39 (the units of \<open>formatBytes\<close>). For every 64-bit number the function returns: the index into the units is never
  out of range and the divisor never overflows. From 1024 on the divisor is the power of 1024 that belongs to the unit, and the
  number is at least the divisor and below 1024 times the divisor.\<close>

theorem format_bytes_units:
  assumes "- (2 ^ 63) \<le> b" and "b < 2 ^ 63"
  shows "if b < 1024 then formatBytes b = Some (FmtBytes (Itoa b @ '' B''))
    else \<exists>e < 6. formatBytes b = Some (FmtScaled b (1024 ^ Suc e) (''KMGTPE'' ! e)) \<and> 1024 ^ Suc e \<le> b \<and> b < 1024 ^ Suc (Suc e)"
proof (cases "b < 1024")
  case False
  have "b < 1024 * (b div 1024 + 1)" "1024 * (b div 1024) \<le> b" by presburger+
  then obtain e where e: "format_loop (b div 1024) 1024 0 = (1024 ^ Suc e, e)" "1024 ^ Suc e \<le> b" "b < 1024 ^ Suc (Suc e)"
    using format_loop_units [of "b div 1024" 0 b] False assms(2) by auto
  have "e < 6" using e(2) assms(2) by (intro unit_bound) linarith
  then show ?thesis using False e by (auto simp: formatBytes_def)
qed (simp add: formatBytes_def)

theorem format_bytes_units_witness:
  "formatBytes 5000000 = Some (FmtScaled 5000000 1048576 (CHR ''M''))"
proof -
  obtain e where e: "e < 6" "formatBytes 5000000 = Some (FmtScaled 5000000 (1024 ^ Suc e) (''KMGTPE'' ! e))"
    "1024 ^ Suc e \<le> (5000000 :: int)" "(5000000 :: int) < 1024 ^ Suc (Suc e)"
    using format_bytes_units [of 5000000] by auto
  from e(1) consider "e = 0" | "e = 1" | "e = 2" | "e = 3" | "e = 4" | "e = 5" by linarith
  then show ?thesis using e by cases (auto simp: numeral_eq_Suc)
qed

section \<open>What the publishers put into their groups\<close>

text \<open>A published group: the stream as \<open>NewGroup\<close> makes it, with its objects, closed or not.\<close>

definition published :: "PubStream \<Rightarrow> u64 \<Rightarrow> Object list \<Rightarrow> bool \<Rightarrow> GroupStream" where
  "published pub g objs eof = (NewGroupStream (ps_SubID pub) g (ps_Alias pub))\<lparr>gs_ObjectsArr := objs, gs_IsEOF := eof\<rparr>"

definition group_header :: "quicvarint \<Rightarrow> PubStream \<Rightarrow> u64 \<Rightarrow> bytes" where
  "group_header qv pub g = venc qv STREAM_HEADER_GROUP @ venc qv (ps_SubID pub) @ venc qv (ps_Alias pub) @ venc qv g @ venc qv 0"

definition pub_fits :: "PubStream \<Rightarrow> bool" where
  "pub_fits pub \<longleftrightarrow> fits62 (ps_SubID pub) \<and> fits62 (ps_Alias pub)"

fun block_objects :: "u64 \<Rightarrow> bytes list \<Rightarrow> Object list" where
  "block_objects i [] = []"
| "block_objects i (b # bs) = zero_Object\<lparr>obj_ID := i, obj_Payload := b\<rparr> # block_objects (i + 1) bs"

lemma write_blocks_result:
  "write_blocks i bs (SGroup gs) = (i + word_of_nat (length bs), SGroup (gs\<lparr>gs_ObjectsArr := gs_ObjectsArr gs @ block_objects i bs\<rparr>))"
  by (induction bs arbitrary: i gs) (simp_all add: GroupStream_WriteObject_def ac_simps)

lemma block_objects_payloads: "map obj_Payload (block_objects i bs) = bs"
  by (induction bs arbitrary: i) simp_all

lemma pub_objects_result:
  "pub_objects payload g n i (SGroup gs) acc =
    (SGroup (gs\<lparr>gs_ObjectsArr := gs_ObjectsArr gs @
       map (\<lambda>j. \<lparr>obj_GroupID = g, obj_ID = i + word_of_nat j, obj_Payload = payload g (i + word_of_nat j)\<rparr>) [0..<n]\<rparr>),
     acc + (\<Sum>j \<leftarrow> [0..<n]. word_of_nat (length (payload g (i + word_of_nat j)))))"
proof (induction n arbitrary: i gs acc)
  case (Suc n)
  show ?case unfolding map_upt_Suc by (simp add: Suc GroupStream_WriteObject_def ac_simps)
qed simp

context varint_codec
begin

lemma NewGroup_ok:
  assumes "pub_fits pub" and "fits62 g" and "opens 0 = None"
  shows "PubStream_NewGroup qv opens pub g = Some (None, Some (group_header qv pub g), SGroup (published pub g [] False))"
  using assms
  by (simp add: PubStream_NewGroup_def PubStream_NewStream_def numeral_eq_Suc GroupStream_WgAdd_def GroupStream_WgDone_def
      GroupStream_GetHeaderBytes_def NewGroupStream_def zero_GroupStream_def Append_fits pub_fits_def group_header_def
      published_def)

text \<open>The file publisher.\<close>

lemma pub_handleStream_result:
  assumes "pub_fits pub" and "\<And>g. opens g 0 = None" and "unat g + n \<le> 2 ^ 62"
  shows "pub_handleStream qv opens pub payload n g acc = Some
    (map (\<lambda>i. let gr = g + word_of_nat i in (group_header qv pub gr, SGroup (published pub gr
       (map (\<lambda>j. \<lparr>obj_GroupID = gr, obj_ID = word_of_nat j, obj_Payload = payload gr (word_of_nat j)\<rparr>) [0..<OBJECTS_PER_GROUP]) True)))
       [0..<n],
     acc + (\<Sum>i \<leftarrow> [0..<n]. \<Sum>j \<leftarrow> [0..<OBJECTS_PER_GROUP]. word_of_nat (length (payload (g + word_of_nat i) (word_of_nat j)))), None)"
  using assms(3)
proof (induction n arbitrary: g acc)
  case (Suc n)
  have g: "fits62 g" "unat (g + 1) = Suc (unat g)" using Suc.prems by (simp_all add: fits62_def unat_next)
  have new: "PubStream_NewGroup qv (opens g) pub g = Some (None, Some (group_header qv pub g), SGroup (published pub g [] False))"
    using assms(1) g(1) assms(2) by (rule NewGroup_ok)
  note IH = Suc.IH [of "g + 1"]
  show ?case unfolding map_upt_Suc using Suc.prems g(2)
    by (simp add: new pub_objects_result IH published_def GroupStream_Close_def Let_def) (simp add: ac_simps)
qed simp

text \<open>The media publisher, while its groups are full.\<close>

lemma ffmpeg_full:
  assumes "pub_fits pub" and "\<And>g. opens g 0 = None" and "0 < k" and "unat g + length bs div k \<le> 2 ^ 62 - 1"
  shows "\<exists>last. ffmpeg_handleStream qv k opens pub g i bs = Some
    (map (\<lambda>n. (group_header qv pub (g + word_of_nat n), SGroup (published pub (g + word_of_nat n)
       (block_objects (i + word_of_nat (n * k)) (take k (drop (n * k) bs))) True))) [0..<length bs div k] @ [last], None)"
  using assms(4)
proof (induction "length bs div k" arbitrary: g i bs)
  case 0
  then have "length bs < k" using assms(3) by (metis div_greater_zero_iff not_less0 not_less)
  moreover have "fits62 g" using 0 by (simp add: fits62_def)
  ultimately show ?case using 0(1) NewGroup_ok [where opens = "opens g" and pub = pub and g = g] assms(1,2)
    by (subst ffmpeg_handleStream.simps) simp
next
  case (Suc n)
  have kl: "k \<le> length bs" using Suc(2) by (metis Zero_not_Suc div_less not_less)
  have n: "length (drop k bs) div k = n" using Suc(2) kl assms(3) by (metis diff_Suc_1 div_add_self2 length_drop le_add_diff_inverse2 add_diff_cancel_right' Suc_eq_plus1 less_irrefl)
  have g: "fits62 g" "unat (g + 1) = Suc (unat g)" using Suc(3) Suc(2) by (simp_all add: fits62_def unat_next)
  have new: "PubStream_NewGroup qv (opens g) pub g = Some (None, Some (group_header qv pub g), SGroup (published pub g [] False))"
    using assms(1) g(1) assms(2) by (rule NewGroup_ok)
  have "unat (g + 1) + length (drop k bs) div k \<le> 2 ^ 62 - 1" using Suc(3) g(2) n Suc(2) by simp
  from Suc(1) [OF n [symmetric] this, of "i + word_of_nat k"] obtain l where
    IH: "ffmpeg_handleStream qv k opens pub (g + 1) (i + word_of_nat k) (drop k bs) = Some
      (map (\<lambda>m. (group_header qv pub (g + 1 + word_of_nat m), SGroup (published pub (g + 1 + word_of_nat m)
         (block_objects (i + word_of_nat k + word_of_nat (m * k)) (take k (drop (m * k) (drop k bs)))) True))) [0..<n] @ [l], None)"
    unfolding n by blast
  have "ffmpeg_handleStream qv k opens pub g i bs = Some ((group_header qv pub g, SGroup (published pub g (block_objects i (take k bs)) True)) #
      map (\<lambda>m. (group_header qv pub (g + 1 + word_of_nat m), SGroup (published pub (g + 1 + word_of_nat m)
         (block_objects (i + word_of_nat k + word_of_nat (m * k)) (take k (drop (m * k) (drop k bs)))) True))) [0..<n] @ [l], None)"
    using kl assms(3) by (subst ffmpeg_handleStream.simps)
      (simp add: new write_blocks_result IH published_def GroupStream_Close_def min_absorb2)
  then show ?case unfolding Suc(2) [symmetric] map_upt_Suc by (simp add: ac_simps)
qed

end

section \<open>From the publisher through the relay to the subscriber\<close>

text \<open>A stream that is carried to its end. The publisher's goroutine pipes what the application writes behind the header, in any interleaving
  with it, until it ends; the relay parses the stream, reads it and pipes it on to its subscribers (\<open>fan_step\<close>), again in any
  interleaving, until the goroutine of this subscriber has closed its stream; then the subscriber parses that. None of the writes of the two
  goroutines fails. What the goroutines lose at the end of a stream is lost here too.\<close>

inductive carried :: "quicvarint \<Rightarrow> u64 \<Rightarrow> bytes \<times> MOQTStream \<Rightarrow> GroupStream \<Rightarrow> bool"
  for qv :: quicvarint and subid :: u64 where
  carry: "pub_run (MOQTStream_pipe qv stream) pps \<Longrightarrow> ps_objs pps = MOQTStream_objects stream \<Longrightarrow> pp_pc (ps_pipers pps 0) = PcDone \<Longrightarrow>
    ParseMOQTStream qv \<lparr>rd_data = hdr @ pp_out (ps_pipers pps 0), rd_end = EOF\<rparr> = Some (Inr (pid, st)) \<Longrightarrow>
    distinct subs \<Longrightarrow> \<forall>sub \<in> set subs. world_ok (ws sub) \<Longrightarrow>
    reach (fan_init (MOQTStream_SetStreamID sid st) rs subs) (fan_step qv ws opened) s \<Longrightarrow>
    fo_phase s sub = SubClosed h True \<Longrightarrow> pp_pc (fo_pipers s sub) = PcDone \<Longrightarrow>
    ParseMOQTStream qv \<lparr>rd_data = fan_bytes s sub, rd_end = EOF\<rparr> = Some (Inr (subid, SGroup gs)) \<Longrightarrow>
    carried qv subid (hdr, stream) gs"

definition wire_group :: "quicvarint \<Rightarrow> u64 \<Rightarrow> u64 \<Rightarrow> u64 \<Rightarrow> Object list \<Rightarrow> bytes" where
  "wire_group qv subid alias g objs = venc qv STREAM_HEADER_GROUP @ venc qv subid @ venc qv alias @ venc qv g @ venc qv 0 @
     concat (map (object_enc qv) objs)"

definition parsed_group :: "quicvarint \<Rightarrow> u64 \<Rightarrow> u64 \<Rightarrow> u64 \<Rightarrow> Object list \<Rightarrow> GroupStream" where
  "parsed_group qv subid alias g objs = zero_GroupStream\<lparr>gs_SubID := subid, gs_TrackAlias := alias, gs_GroupID := g,
     gs_reader := Some \<lparr>rd_data = concat (map (object_enc qv) objs), rd_end = EOF\<rparr>\<rparr>"

lemma parsed_group_simps [simp]:
  "gs_GroupID (parsed_group qv subid alias g objs) = g" "gs_ObjectsArr (parsed_group qv subid alias g objs) = []"
  "gs_TrackAlias (parsed_group qv subid alias g objs) = alias" "gs_SendOrder (parsed_group qv subid alias g objs) = 0"
  "gs_reader (parsed_group qv subid alias g objs) = Some \<lparr>rd_data = concat (map (object_enc qv) objs), rd_end = EOF\<rparr>"
  by (simp_all add: parsed_group_def zero_GroupStream_def)

context varint_codec
begin

lemma parse_wire_group:
  assumes "fits62 subid" and "fits62 alias" and "fits62 g"
  shows "ParseMOQTStream qv \<lparr>rd_data = wire_group qv subid alias g objs, rd_end = EOF\<rparr>
    = Some (Inr (subid, SGroup (parsed_group qv subid alias g objs)))"
proof -
  let ?gs = "zero_GroupStream\<lparr>gs_TrackAlias := alias, gs_GroupID := g\<rparr>"
  obtain h where h: "GroupStream_GetHeaderSubIDBytes qv ?gs subid = Some h" and
    p: "\<And>r rest. ParseMOQTStream qv (r\<lparr>rd_data := h @ rest\<rparr>) =
      Some (Inr (subid, SGroup (zero_GroupStream\<lparr>gs_SubID := subid, gs_TrackAlias := alias, gs_GroupID := g,
        gs_SendOrder := 0, gs_reader := Some (r\<lparr>rd_data := rest\<rparr>)\<rparr>)))"
    using GroupStream_header_enc [of subid ?gs] assms by (auto simp: zero_GroupStream_def)
  have "wire_group qv subid alias g objs = h @ concat (map (object_enc qv) objs)"
    using h assms by (auto simp: GroupStream_GetHeaderSubIDBytes_def wire_group_def zero_GroupStream_def Append_fits)
  then show ?thesis using p [where r = "\<lparr>rd_data = [], rd_end = EOF\<rparr>" and rest = "concat (map (object_enc qv) objs)"]
    by (simp add: parsed_group_def zero_GroupStream_def)
qed

lemma read_parsed_group:
  assumes "list_all Object_ok objs" and "length (concat (map (object_enc qv) objs)) < fuel"
  shows "read_objects qv fuel (SGroup (parsed_group qv subid alias g objs)) =
    Some (map (\<lambda>ob. (g, ob\<lparr>obj_GroupID := 0\<rparr>)) objs, Some EOF,
      SGroup ((parsed_group qv subid alias g objs)\<lparr>gs_reader := Some \<lparr>rd_data = [], rd_end = EOF\<rparr>, gs_IsEOF := True,
        gs_ObjectsArr := map (\<lambda>ob. ob\<lparr>obj_GroupID := 0\<rparr>) objs\<rparr>))"
proof -
  have "length objs < fuel" using object_enc_lengths [OF assms(1)] assms(2) by linarith
  then show ?thesis
    using read_objects_group [OF assms(1), where gs = "parsed_group qv subid alias g objs" and r = "\<lparr>rd_data = [], rd_end = EOF\<rparr>"]
    by simp
qed

lemma handle_parsed_group:
  assumes "list_all Object_ok objs"
  shows "handleMOQStream qv (parsed_group qv subid alias g objs) = Some (concat (map obj_Payload objs))"
  using read_parsed_group [OF assms, of "Suc (length (concat (map (object_enc qv) objs)))"]
  by (simp add: handleMOQStream_def comp_def)

lemma wire_group_header:
  assumes "GroupStream_GetHeaderSubIDBytes qv gs subid = Some h" and "fits62 subid" and "fits62 (gs_TrackAlias gs)" and "fits62 (gs_GroupID gs)"
    and "gs_SendOrder gs = 0"
  shows "h @ concat (map (object_enc qv) objs) = wire_group qv subid (gs_TrackAlias gs) (gs_GroupID gs) objs"
  using assms by (auto simp: GroupStream_GetHeaderSubIDBytes_def wire_group_def Append_fits)

lemma parsed_group_fresh:
  "fits62 pid \<Longrightarrow> fits62 alias \<Longrightarrow> fits62 g \<Longrightarrow> fresh_stream qv objs (SGroup (parsed_group qv pid alias g objs))"
  by (simp add: fresh_stream_def parsed_group_def zero_GroupStream_def fits62_def)

text \<open>What the fan-out leaves of a group on a subscriber's stream.\<close>

lemma fan_group_prefix:
  assumes "fits62 pid" and "fits62 (al :: u64)" and "fits62 g" and "list_all Object_ok objs"
    and "distinct subs" and "\<forall>sub \<in> set subs. world_ok (ws sub)"
    and "reach (fan_init (MOQTStream_SetStreamID sid (SGroup (parsed_group qv pid al g objs))) rs subs) (fan_step qv ws opened) s"
    and "fo_phase s sub = SubClosed h True" and "pp_pc (fo_pipers s sub) = PcDone"
  shows "\<exists>k subid. fits62 subid \<and> fan_bytes s sub = wire_group qv subid al g (take k objs)"
proof -
  let ?st = "MOQTStream_SetStreamID sid (SGroup (parsed_group qv pid al g objs))"
  have fresh: "fresh_stream qv objs ?st" unfolding SetStreamID_fresh using assms(1-3) by (rule parsed_group_fresh)
  have ph: "fo_phase s sub \<in> {SubPiping h True, SubClosed h True}" using assms(8) by simp
  from fan_bytes_prefix [OF assms(7) fresh assms(4-6) ph] assms(9) obtain k hd where
    own: "own_header qv (ws sub) ?st sub hd" and b: "fan_bytes s sub = hd @ concat (map (stream_enc qv ?st) (take k objs))" by auto
  from own obtain rh subid p where o: "get_relay (ws sub) sub = Some rh" "SubIDGetStream (rh_SubscribedStreams rh) subid = Some p"
      "MOQTStream_GetHeaderSubIDBytes qv ?st subid = Some hd" by (auto simp: own_header_def)
  have "fan_ok qv ws ?st subs s" using assms(5-7) fresh by (intro fan_invariant) (simp_all add: fresh_stream_def)
  then have "sub \<in> set subs" using assms(8) by (cases "sub \<in> set subs") (auto simp: fan_ok_def fan_wg_ok_def)
  then have "handler_ok (ws sub) sub ROLE_RELAY (HRelay rh)" using get_relay_ok assms(6) o(1) by blast
  then have id: "fits62 subid" using o(2) by (auto simp: SubIDGetStream_def dest!: map_of_SomeD)
  have "fan_bytes s sub = wire_group qv subid al g (take k objs)"
    using o(3) id assms(2,3) wire_group_header [of "GroupStream_SetStreamID sid (parsed_group qv pid al g objs)" subid hd "take k objs"]
    unfolding b by (simp add: GroupStream_SetStreamID_def)
  then show ?thesis using id by blast
qed

lemma group_header_wire: "group_header qv pub g @ concat (map (object_enc qv) objs) = wire_group qv (ps_SubID pub) (ps_Alias pub) g objs"
  by (simp add: group_header_def wire_group_def)

text \<open>A published group that is carried to its end arrives as a group with the same ID and the first \<open>k\<close> of its objects.\<close>

lemma carried_prefix:
  assumes c: "carried qv subid (group_header qv pub g, SGroup (published pub g objs eof)) gs"
    and pub: "pub_fits pub" and g: "fits62 g" and objs: "list_all Object_ok objs"
  shows "\<exists>k \<le> length objs. gs = parsed_group qv subid (ps_Alias pub) g (take k objs)"
  using c
proof cases
  case (carry pps pid st subs ws sid rs opened s sub h)
  have f: "fits62 (ps_SubID pub)" "fits62 (ps_Alias pub)" using pub by (simp_all add: pub_fits_def)
  from carry(2) have o: "ps_objs pps = objs" by (simp add: published_def)
  from pub_run_pipe [OF carry(1)] have "reach pipe_init (pipe_next (GroupStream_pipe qv)) pps" "pp_pc (ps_pipers pps 0) \<noteq> PcFailed" by simp_all
  then obtain n where "pp_out (ps_pipers pps 0) = concat (map (object_enc qv) (take n objs))" using group_prefix [of pps 0] unfolding o by auto
  then have st: "st = SGroup (parsed_group qv (ps_SubID pub) (ps_Alias pub) g (take n objs))"
    using carry(4) parse_wire_group [OF f g, of "take n objs"] by (auto simp: group_header_wire)
  have ok: "list_all Object_ok (take n objs)" using objs by (auto simp: list_all_iff dest: in_set_takeD)
  obtain k subid' where k: "fits62 subid'" "fan_bytes s sub = wire_group qv subid' (ps_Alias pub) g (take k (take n objs))"
    using fan_group_prefix [OF f g ok carry(5,6) carry(7) [unfolded st] carry(8,9)] by blast
  then have "gs = parsed_group qv subid (ps_Alias pub) g (take (min (min k n) (length objs)) objs)"
    using carry(10) parse_wire_group [OF k(1) f(2) g, of "take k (take n objs)"] by (auto simp: min_def)
  then show ?thesis by (intro exI [of _ "min (min k n) (length objs)"]) simp
qed

lemma parsed_group_all:
  assumes "parsed_group qv subid al g (take c objs) = parsed_group qv subid al g objs" and "list_all Object_ok objs"
  shows "length objs \<le> c"
proof -
  from arg_cong [OF assms(1), of gs_reader] have "concat (map (object_enc qv) (take c objs)) = concat (map (object_enc qv) objs)" by simp
  moreover have "concat (map (object_enc qv) objs) = concat (map (object_enc qv) (take c objs)) @ concat (map (object_enc qv) (drop c objs))"
    by (metis append_take_drop_id concat_append map_append)
  ultimately have "concat (map (object_enc qv) (drop c objs)) = []" by (metis append_self_conv)
  moreover have "list_all Object_ok (drop c objs)" using assms(2) by (auto simp: list_all_iff dest: in_set_dropD)
  note ok = this
  ultimately have "length (drop c objs) \<le> length ([] :: bytes)" using object_enc_lengths [OF ok] by metis
  then show ?thesis by simp
qed

end

section \<open>A stream that loses nothing\<close>

lemma sample_one_subscription:
  "get_relay sample_forwarding 1 = Some rh \<Longrightarrow> SubIDGetStream (rh_SubscribedStreams rh) k = Some p \<Longrightarrow> k = 7"
proof -
  have "get_relay sample_serving 1 = Some NewRelayHandler"
    by (simp add: sample_serving_def sample_world_def get_relay_Some sample_session_def)
  then show "get_relay sample_forwarding 1 = Some rh \<Longrightarrow> SubIDGetStream (rh_SubscribedStreams rh) k = Some p \<Longrightarrow> k = 7"
    using register_result [OF sample_forwarding_reg(1)] sample_serving_refs(3)
    by (auto simp: SubIDGetStream_def AddStream_def gomap_simps NewRelayHandler_def NewStreamsMap_def split: if_splits)
qed

text \<open>A run of the publisher's goroutine that waits, is woken by the first object or by the closing, and copies when all is there.\<close>

lemma pub_run_all:
  assumes "coll objs = Some data"
  shows "\<exists>pps. pub_run coll pps \<and> ps_objs pps = objs \<and> pp_pc (ps_pipers pps 0) = PcDone \<and> pp_out (ps_pipers pps 0) = data"
proof -
  let ?s = "\<lambda>os eof p. \<lparr>ps_objs = os, ps_eof = eof, ps_pipers = (\<lambda>_. new_piper)(0 := p)\<rparr>"
  let ?p = "\<lambda>pc. new_piper\<lparr>pp_pc := pc\<rparr>"
  have upd: "set_piper 0 q (?s os eof p) = ?s os eof q" for q os eof p by (simp add: set_piper_def)
  have brd: "Broadcast (?s os eof (?p pc)) = ?s os eof (?p PcWoken)" if "pc \<in> {PcWaiting, PcWoken}" for os eof pc
    using that by (auto simp: Broadcast_def wake_def new_piper_def fun_eq_iff)
  have 0: "pub_run coll (?s [] False new_piper)"
    using pub_run_start [of coll] by (simp add: pipe0_def new_piper_def fun_upd_idem)
  have "pipe_step coll (LPiper 0) (?s [] False new_piper) (?s [] False (?p PcWaiting))"
    using lock_wait [of "?s [] False new_piper" 0 new_piper coll] unfolding upd by (simp add: new_piper_def)
  from pub_run_via [OF 0 this] have 1: "pub_run coll (?s [] False (?p PcWaiting))" by (simp add: new_piper_def)
  have "\<exists>pc \<in> {PcWaiting, PcWoken}. pub_run coll (?s os False (?p pc))" for os
  proof (induction os rule: rev_induct)
    case (snoc ob os)
    then obtain pc where pc: "pc \<in> {PcWaiting, PcWoken}" "pub_run coll (?s os False (?p pc))" by blast
    have "pipe_step coll (LWrite ob) (?s os False (?p pc)) (?s (os @ [ob]) False (?p PcWoken))"
      using write_object [of coll ob "?s os False (?p pc)"] brd [OF pc(1)] by simp
    from pub_run_via [OF pc(2) this] have "pub_run coll (?s (os @ [ob]) False (?p PcWoken))" by (simp add: new_piper_def)
    then show ?case by blast
  qed (use 1 in blast)
  then obtain pc where pc: "pc \<in> {PcWaiting, PcWoken}" "pub_run coll (?s objs False (?p pc))" by blast
  let ?q = "\<lambda>pc out. \<lparr>pp_pc = pc, pp_index = length objs, pp_out = out\<rparr>"
  have "pipe_step coll LClose (?s objs False (?p pc)) (?s objs True (?p PcWoken))"
    using close_stream [of coll "?s objs False (?p pc)"] brd [OF pc(1)] by simp
  from pub_run_via [OF pc(2) this] have 2: "pub_run coll (?s objs True (?p PcWoken))" by (simp add: new_piper_def)
  have "pipe_step coll (LPiper 0) (?s objs True (?p PcWoken)) (?s objs True (?q (PcCopied data) []))"
    using copy_objects [of "?s objs True (?p PcWoken)" 0 "?p PcWoken" coll data] assms unfolding upd by (simp add: new_piper_def)
  from pub_run_via [OF 2 this] have 3: "pub_run coll (?s objs True (?q (PcCopied data) []))" by (simp add: new_piper_def)
  have "pipe_step coll (LPiper 0) (?s objs True (?q (PcCopied data) [])) (?s objs True (?q PcWritten data))"
    using write_bytes [of "?s objs True (?q (PcCopied data) [])" 0 _ data coll] unfolding upd by simp
  from pub_run_via [OF 3 this] have 4: "pub_run coll (?s objs True (?q PcWritten data))" by (simp add: new_piper_def)
  have "pipe_step coll (LPiper 0) (?s objs True (?q PcWritten data)) (?s objs True (?q PcDone data))"
    using check_eof [of "?s objs True (?q PcWritten data)" 0 _ coll] unfolding upd by simp
  from pub_run_via [OF 4 this] have 5: "pub_run coll (?s objs True (?q PcDone data))" by (simp add: new_piper_def)
  then show ?thesis by (intro exI [of _ "?s objs True (?q PcDone data)"]) simp
qed

lemma sample_carries:
  assumes pub: "pub_fits pub" and g: "fits62 g" and objs: "list_all Object_ok objs"
    and pps: "pub_run (GroupStream_pipe rfc9000) pps" "ps_objs pps = objs" "pp_pc (ps_pipers pps 0) = PcDone"
      "pp_out (ps_pipers pps 0) = concat (map (object_enc rfc9000) (take n objs))"
  shows "carried rfc9000 7 (group_header rfc9000 pub g, SGroup (published pub g objs eof)) (parsed_group rfc9000 7 (ps_Alias pub) g (take n objs))"
proof -
  let ?os = "take n objs"
  have ok: "list_all Object_ok ?os" using objs by (auto simp: list_all_iff dest: in_set_takeD)
  have f: "fits62 (ps_SubID pub)" "fits62 (ps_Alias pub)" using pub by (simp_all add: pub_fits_def)
  let ?st = "SGroup (parsed_group rfc9000 (ps_SubID pub) (ps_Alias pub) g ?os)"
  let ?st1 = "MOQTStream_SetStreamID ''live_video'' ?st"
  have fresh: "fresh_stream rfc9000 ?os ?st1" unfolding SetStreamID_fresh using f g by (rule rfc.parsed_group_fresh)
  obtain rh where rh: "get_relay sample_forwarding 1 = Some rh" "SubIDGetStream (rh_SubscribedStreams rh) 7 = Some 0"
      "strm_StreamID sample_forwarding 0 = ''live_video''" using sample_fan_world(1) by blast
  have "strm_StreamID sample_forwarding 0 = MOQTStream_GetStreamID ?st1" using rh(3) by (simp add: GroupStream_SetStreamID_def)
  from rfc.fan_one_subscriber [where ws = "\<lambda>_. sample_forwarding" and opened = "\<lambda>_. None" and rs = full_cache and sub = 1,
      OF fresh sample_forwarding_reg(2) rh(1,2) this refl] obtain h s where
    s: "reach (fan_init ?st1 full_cache [1]) (fan_step rfc9000 (\<lambda>_. sample_forwarding) (\<lambda>_. None)) s" "fo_main s = FwdRead"
      "fo_phase s 1 = SubPiping h True" "pp_pc (fo_pipers s 1) = PcWaiting" by blast
  have "pp_pc (fo_pipers s 1) \<in> {PcWaiting, PcWoken}" using s(4) by simp
  from rfc.fan_waiting_delivers [OF s(1) fresh ok s(2,3) this] obtain t where
    t: "(fan_step rfc9000 (\<lambda>_. sample_forwarding) (\<lambda>_. None))\<^sup>*\<^sup>* s t" "fo_phase t 1 = SubClosed h True"
      "fan_bytes t 1 = h @ concat (map (stream_enc rfc9000 ?st1) ?os)" "pp_pc (fo_pipers t 1) = PcDone" by blast
  have r: "reach (fan_init ?st1 full_cache [1]) (fan_step rfc9000 (\<lambda>_. sample_forwarding) (\<lambda>_. None)) t"
    using t(1) s(1) by (rule reach_rtranclp)
  have b: "fan_bytes t 1 = wire_group rfc9000 7 (ps_Alias pub) g ?os"
  proof -
    have "fan_ok rfc9000 (\<lambda>_. sample_forwarding) ?st1 [1] t"
      using r sample_forwarding_reg(2) fresh by (intro rfc.fan_invariant) (simp_all add: fresh_stream_def)
    then have "fan_sub_ok rfc9000 (\<lambda>_. sample_forwarding) ?st1 1 (fo_phase t 1) (fo_pipers t 1)" by (simp add: fan_ok_def)
    then have "GroupStream_GetHeaderSubIDBytes rfc9000 (GroupStream_SetStreamID ''live_video'' (parsed_group rfc9000 (ps_SubID pub) (ps_Alias pub) g ?os)) 7 = Some h"
      using t(2) sample_one_subscription by (auto simp: fan_sub_ok_def own_header_def)
    from rfc.wire_group_header [OF this, of ?os] show ?thesis
      using f(2) g unfolding t(3) by (simp add: GroupStream_SetStreamID_def fits62_def)
  qed
  have "fits62 7" by (simp add: fits62_def)
  note p = rfc.parse_wire_group [OF this f(2) g, of ?os]
  show ?thesis
    by (rule carry [where st = ?st and sid = "''live_video''" and subs = "[1]" and ws = "\<lambda>_. sample_forwarding", OF _ _ pps(3) _ _ _ r t(2,4)])
      (use pps rfc.parse_wire_group [OF f g, of ?os] p sample_forwarding_reg(2) in \<open>simp_all add: published_def rfc.group_header_wire b [unfolded One_nat_def]\<close>)
qed


lemma sample_carried:
  assumes "pub_fits pub" and "fits62 g" and "list_all Object_ok objs"
  shows "carried rfc9000 7 (group_header rfc9000 pub g, SGroup (published pub g objs eof)) (parsed_group rfc9000 7 (ps_Alias pub) g objs)"
proof -
  obtain pps where "pub_run (GroupStream_pipe rfc9000) pps" "ps_objs pps = objs" "pp_pc (ps_pipers pps 0) = PcDone"
      "pp_out (ps_pipers pps 0) = concat (map (object_enc rfc9000) objs)"
    using pub_run_all [of "GroupStream_pipe rfc9000" objs] rfc.GroupStream_pipe_ok [OF assms(3)] by blast
  then show ?thesis using sample_carries [OF assms, of pps "length objs"] by simp
qed

text \<open>And a stream that loses its last object, with every write done and both goroutines at their end: the publisher closes it between the
  write and the check.\<close>

lemma carried_can_lose:
  assumes "pub_fits pub" and "fits62 g" and "Object_ok a" and "Object_ok b"
  shows "carried rfc9000 7 (group_header rfc9000 pub g, SGroup (published pub g [a, b] True)) (parsed_group rfc9000 7 (ps_Alias pub) g [a])"
proof -
  have a: "GroupStream_pipe rfc9000 [a] = Some (object_enc rfc9000 a)" using assms(3) by (simp add: rfc.GroupStream_pipe_ok)
  let ?run = "early_eof a b (object_enc rfc9000 a)"
  have "pp_pc (ps_pipers ?run i) \<noteq> PcFailed" for i
    by (simp add: early_eof_def pipe0_def set_piper_def Broadcast_def wake_def Let_def)
  then have "pub_run (GroupStream_pipe rfc9000) ?run" using early_eof_reachable [where coll = "GroupStream_pipe rfc9000", OF a] by (blast intro: pipe_pub_run)
  moreover have "ps_objs ?run = [a, b]" "pp_pc (ps_pipers ?run 0) = PcDone" "pp_out (ps_pipers ?run 0) = concat (map (object_enc rfc9000) (take 1 [a, b]))"
    by (simp_all add: early_eof_def Let_def)
  ultimately show ?thesis using sample_carries [OF assms(1,2), of "[a, b]" ?run 1] assms(3,4) by simp
qed

section \<open>End to end\<close>

lemma concat_blocks: "m * k \<le> length bs \<Longrightarrow> concat (map (\<lambda>i. take k (drop (i * k) bs)) [0..<m]) = take (m * k) bs"
proof (induction m)
  case (Suc m)
  have "take (Suc m * k) bs = take (m * k) bs @ take k (drop (m * k) bs)" by (metis mult_Suc add.commute take_add)
  with Suc show ?case by simp
qed simp

lemma those_map_Some: "(\<And>x. x \<in> set xs \<Longrightarrow> f x = Some (g x)) \<Longrightarrow> those (map f xs) = Some (map g xs)"
  by (induction xs) auto

lemma block_objects_ok:
  "list_all (\<lambda>b. length b \<le> maxAlloc) bs \<Longrightarrow> unat i + length bs \<le> 2 ^ 62 \<Longrightarrow> list_all Object_ok (block_objects i bs)"
proof (induction bs arbitrary: i)
  case (Cons b bs)
  then have "unat (i + 1) = Suc (unat i)" by (intro unat_next) simp
  with Cons show ?case by (simp add: Object_ok_def zero_Object_def fits62_def)
qed simp

text \<open>The streams that the reorder buffer hands on, when it has restored the order.\<close>

lemma ordered_out:
  assumes "set out \<subseteq> f ` {0..<n}" and "map gid out = [0..<m]" and "\<And>i. i < n \<Longrightarrow> gid (f i) = i"
  shows "out = map f [0..<m]"
proof -
  have "f (gid x) = x" if "x \<in> set out" for x
  proof -
    from that assms(1) obtain j where "j < n" "x = f j" by fastforce
    then show ?thesis using assms(3) by simp
  qed
  then have "map f (map gid out) = out" unfolding map_map by (intro map_idI) simp
  then show ?thesis unfolding assms(2) ..
qed

lemma reorder_streams:
  assumes ord: "mset ord = mset [0..<n]" and n: "n \<le> 2 ^ 62" and window: "sorted_wrt (\<lambda>i j. i < j + 25) ord"
    and gids: "\<And>i. i < n \<Longrightarrow> gid (f i) = i"
  shows "\<exists>st m. reorder_handleStream (map (\<lambda>i. SGroup (f i)) ord) empty_reorder = Some st \<and> ro_out st = map f [0..<m] \<and>
    m \<le> n \<and> n < m + 25"
proof -
  have so: "set ord = {0..<n}" using mset_eq_setD [OF ord] by simp
  have ids: "map gid (map f ord) = ord" unfolding map_map using so gids by (intro map_idI) simp
  have "sorted_wrt (\<lambda>x y. gid x < gid y + REORDER_WINDOW) ([] @ map f ord)"
    using window so gids unfolding append_Nil sorted_wrt_map REORDER_WINDOW_def
    by (elim sorted_wrt_mono_rel [rotated]) simp
  moreover have "mset (map gid ([] @ map f ord)) = mset [0..<n]" unfolding append_Nil ids by (rule ord)
  moreover have "map gid (ro_out empty_reorder) = [0..<0]" by (simp add: empty_reorder_def)
  ultimately obtain st m where st: "reorder_handleStream (map SGroup (map f ord)) empty_reorder = Some st"
      "reorder_ok (map f ord) st" "map gid (ro_out st) = [0..<m]"
    using reorder_in_order [OF reorder_ok_Nil, of 0 "map f ord" n] n by auto
  have c: "mset (ro_out st @ map snd (ro_gsMap st)) = mset (map f ord)" using st(2) by (simp add: reorder_ok_def contents_def)
  have "set (ro_out st) \<subseteq> f ` {0..<n}" using mset_eq_setD [OF c] so by auto
  from ordered_out [OF this st(3) gids] have "ro_out st = map f [0..<m]" by simp
  moreover have "length (ro_out st) + length (ro_gsMap st) = n"
    using arg_cong [OF c, of size] arg_cong [OF ord, of size] by simp
  moreover have "length (ro_gsMap st) < 25" using st(2) by (simp add: reorder_ok_def REORDER_WINDOW_def)
  ultimately show ?thesis using st(1) by (auto simp: comp_def)
qed

text \<open>The blocks of a media publisher's \<open>i\<close>-th full group, its objects, and the group as the subscriber parses it when the first \<open>c\<close> of them
  have arrived.\<close>

definition media_block :: "nat \<Rightarrow> 'a list \<Rightarrow> nat \<Rightarrow> 'a list" where
  "media_block k bs i = take k (drop (i * k) bs)"

definition media_objects :: "nat \<Rightarrow> bytes list \<Rightarrow> nat \<Rightarrow> Object list" where
  "media_objects k bs i = block_objects (word_of_nat (i * k)) (media_block k bs i)"

definition media_group :: "quicvarint \<Rightarrow> u64 \<Rightarrow> PubStream \<Rightarrow> nat \<Rightarrow> bytes list \<Rightarrow> nat \<Rightarrow> nat \<Rightarrow> GroupStream" where
  "media_group qv subid pub k bs c i = parsed_group qv subid (ps_Alias pub) (word_of_nat i) (take c (media_objects k bs i))"

lemma small_id: "i \<le> length bs \<Longrightarrow> length bs < 2 ^ 61 \<Longrightarrow> fits62 (word_of_nat i) \<and> unat (word_of_nat i :: u64) = i"
  by (simp add: fits62_def unat_of_length)

lemma list_all_take: "list_all P xs \<Longrightarrow> list_all P (take c xs)"
  by (auto simp: list_all_iff dest: in_set_takeD)

lemma media_objects_ok:
  assumes "list_all (\<lambda>b. length b \<le> maxAlloc) bs" and "length bs < 2 ^ 61" and "i * k \<le> length bs"
  shows "list_all Object_ok (media_objects k bs i)"
proof -
  have "unat (word_of_nat (i * k) :: u64) = i * k" using small_id [OF assms(3,2)] by blast
  then show ?thesis unfolding media_objects_def media_block_def using assms
    by (intro block_objects_ok) (auto simp: list_all_iff simp del: of_nat_mult dest: in_set_takeD in_set_dropD)
qed

lemma block_objects_take: "map obj_Payload (take c (block_objects i bs)) = take c bs"
  by (simp only: take_map [symmetric] block_objects_payloads)

lemma length_block_objects: "length (block_objects i bs) = length bs"
  by (induction bs arbitrary: i) simp_all

lemma media_payloads: "map obj_Payload (take c (media_objects k bs i)) = take c (media_block k bs i)"
  by (simp add: media_objects_def block_objects_take)

text \<open>What is left of blocks when some are lost at the ends of the groups.\<close>

lemma subseq_concat: "(\<And>x. x \<in> set xs \<Longrightarrow> subseq (f x) (g x)) \<Longrightarrow> subseq (concat (map f xs)) (concat (map g xs))"
  by (induction xs) (auto intro: list_emb_append_mono)

lemma concat_subseq: "subseq xs ys \<Longrightarrow> subseq (concat xs) (concat ys)"
  by (induction rule: list_emb.induct) (auto intro: list_emb_append_mono subseq_order.order_trans [OF _ list_emb_append2])

lemma blocks_subseq:
  assumes "m * k \<le> length bs"
  shows "subseq (concat (map (\<lambda>i. take (ks i) (media_block k bs i)) [0..<m])) bs"
proof -
  have "subseq (concat (map (\<lambda>i. take (ks i) (media_block k bs i)) [0..<m])) (concat (map (\<lambda>i. media_block k bs i) [0..<m]))"
    by (intro subseq_concat prefix_imp_subseq take_is_prefix)
  also have "concat (map (\<lambda>i. media_block k bs i) [0..<m]) = take (m * k) bs" unfolding media_block_def using assms by (rule concat_blocks)
  finally show ?thesis using prefix_imp_subseq [OF take_is_prefix [of "m * k" bs]] by (rule subseq_order.order_trans)
qed

lemma blocks_whole:
  assumes "m * k \<le> length bs" and "\<And>i. i < m \<Longrightarrow> ks i = k"
  shows "concat (map (\<lambda>i. take (ks i) (media_block k bs i)) [0..<m]) = take (m * k) bs"
proof -
  have "map (\<lambda>i. take (ks i) (media_block k bs i)) [0..<m] = map (\<lambda>i. take k (drop (i * k) bs)) [0..<m]"
    using assms(2) by (simp add: media_block_def)
  then show ?thesis by (simp only: concat_blocks [OF assms(1)])
qed

context varint_codec
begin

lemma media_streams:
  assumes pub: "pub_fits pub" and opens: "\<And>g. opens g 0 = None" and k: "0 < k"
    and blocks: "list_all (\<lambda>b. length b \<le> maxAlloc) bs" and len: "length bs < 2 ^ 61"
  shows "\<exists>groups. ffmpeg_handleStream qv k opens pub 0 0 bs = Some (groups, None) \<and> length groups = Suc (length bs div k) \<and>
    (\<forall>i < length bs div k. groups ! i =
      (group_header qv pub (word_of_nat i), SGroup (published pub (word_of_nat i) (media_objects k bs i) True))) \<and>
    (\<forall>subid arrived. (\<forall>i < length bs div k. carried qv subid (groups ! i) (arrived ! i)) \<longrightarrow>
      (\<exists>ks. \<forall>i < length bs div k. ks i \<le> k \<and> arrived ! i = media_group qv subid pub k bs (ks i) i))"
proof -
  let ?n = "length bs div k"
  let ?f = "\<lambda>i. (group_header qv pub (word_of_nat i), SGroup (published pub (word_of_nat i) (media_objects k bs i) True))"
  have n: "?n * k \<le> length bs" "?n \<le> length bs" by simp_all
  have "?n < 2 ^ 61" using n(2) len by (rule le_less_trans)
  then have "unat (0 :: u64) + ?n \<le> 2 ^ 62 - 1" by simp
  from ffmpeg_full [where opens = opens and i = 0, OF pub opens k this]
  obtain last where groups: "ffmpeg_handleStream qv k opens pub 0 0 bs = Some (map ?f [0..<?n] @ [last], None)"
    unfolding media_objects_def media_block_def add_0 by blast
  have nth: "(map ?f [0..<?n] @ [last]) ! i = ?f i" if "i < ?n" for i using that by (simp add: nth_append)
  have came: "\<exists>c \<le> k. gs = media_group qv subid pub k bs c i" if i: "i < ?n" and c: "carried qv subid (?f i) gs" for subid i gs
  proof -
    have "i * k \<le> length bs" using i n(1) by (meson le_trans less_imp_le mult_le_mono1)
    with blocks len have ok: "list_all Object_ok (media_objects k bs i)" by (intro media_objects_ok)
    have g: "fits62 (word_of_nat i)" using small_id [of i bs] i n(2) len by simp
    obtain c where "c \<le> length (media_objects k bs i)" "gs = media_group qv subid pub k bs c i"
      using carried_prefix [OF c pub g ok] unfolding media_group_def by blast
    moreover have "length (media_objects k bs i) \<le> k" by (simp add: media_objects_def length_block_objects media_block_def)
    ultimately show ?thesis by (intro exI [of _ c]) simp
  qed
  have "\<exists>ks. \<forall>i < ?n. ks i \<le> k \<and> gss ! i = media_group qv subid pub k bs (ks i) i"
    if c: "\<forall>i < ?n. carried qv subid ((map ?f [0..<?n] @ [last]) ! i) (gss ! i)" for subid and gss :: "GroupStream list"
  proof -
    have "\<exists>c. c \<le> k \<and> gss ! i = media_group qv subid pub k bs c i" if i: "i \<in> {..<?n}" for i
      using came [of i subid "gss ! i"] c [rule_format, of i] i by (simp only: lessThan_iff nth)
    then have "\<forall>i \<in> {..<?n}. \<exists>c. c \<le> k \<and> gss ! i = media_group qv subid pub k bs c i" by (rule ballI)
    from bchoice [OF this] show ?thesis by (simp only: lessThan_iff Ball_def)
  qed
  then show ?thesis using groups nth by (intro exI [of _ "map ?f [0..<?n] @ [last]"] conjI) simp_all
qed

lemma media_written:
  assumes "list_all (\<lambda>b. length b \<le> maxAlloc) bs" and "length bs < 2 ^ 61" and "i * k \<le> length bs"
  shows "handleMOQStream qv (media_group qv subid pub k bs c i) = Some (concat (take c (media_block k bs i)))"
  unfolding media_group_def using list_all_take [OF media_objects_ok [OF assms]] by (simp add: handle_parsed_group media_payloads)

end

text \<open>The streams of the publisher's full groups reach the subscriber in any order in which none is overtaken by one that is 25 or more
  ahead: the subscriber hands on the first \<open>m\<close> groups, in their order, with what has arrived of each.\<close>

lemma media_handed_on:
  assumes len: "length bs < 2 ^ 61" and ord: "mset ord = mset [0..<length bs div k]" and window: "sorted_wrt (\<lambda>i j. i < j + 25) ord"
    and arrived: "\<And>i. i < length bs div k \<Longrightarrow> gss ! i = media_group qv subid pub k bs (ks i) i"
  shows "\<exists>st m. reorder_handleStream (map (\<lambda>i. SGroup (gss ! i)) ord) empty_reorder = Some st \<and>
    ro_out st = map (\<lambda>i. media_group qv subid pub k bs (ks i) i) [0..<m] \<and> m \<le> length bs div k \<and> length bs div k < m + 25 \<and> m * k \<le> length bs"
proof -
  let ?n = "length bs div k" and ?f = "\<lambda>i. media_group qv subid pub k bs (ks i) i"
  have n: "?n * k \<le> length bs" "?n \<le> length bs" by simp_all
  have "?n < 2 ^ 61" using n(2) len by (rule le_less_trans)
  then have small: "?n \<le> 2 ^ 62" by simp
  have gids: "gid (?f i) = i" if "i < ?n" for i using small_id [of i bs] that n(2) len by (simp add: media_group_def)
  obtain st m where st: "reorder_handleStream (map (\<lambda>i. SGroup (?f i)) ord) empty_reorder = Some st" "ro_out st = map ?f [0..<m]"
      "m \<le> ?n" "?n < m + 25"
    using reorder_streams [where f = ?f, OF ord small window gids] by blast
  have "map (\<lambda>i. SGroup (gss ! i)) ord = map (\<lambda>i. SGroup (?f i)) ord" using mset_eq_setD [OF ord] arrived by simp
  then have "reorder_handleStream (map (\<lambda>i. SGroup (gss ! i)) ord) empty_reorder = Some st" using st(1) by (simp only:)
  moreover have "m * k \<le> length bs" using st(3) n(1) by (meson le_trans mult_le_mono1)
  ultimately show ?thesis using st(2-4) by blast
qed

definition media_pub :: PubStream where
  "media_pub = \<lparr>ps_session = 0, ps_StreamID = ''live'', ps_SubID = 3, ps_Namespace = ''tv'', ps_TrackName = ''one'', ps_Alias = 5,
     ps_GroupCounter = 0\<rparr>"

section \<open>A file transfer\<close>

text \<open>The objects of the file publisher's group \<open>g\<close>.\<close>

definition file_objects :: "(u64 \<Rightarrow> u64 \<Rightarrow> bytes) \<Rightarrow> u64 \<Rightarrow> Object list" where
  "file_objects payload g =
    map (\<lambda>j. \<lparr>obj_GroupID = g, obj_ID = word_of_nat j, obj_Payload = payload g (word_of_nat j)\<rparr>) [0..<OBJECTS_PER_GROUP]"

lemma file_objects_ok: "(\<And>g i. length (payload g i) = CHUNKSIZE) \<Longrightarrow> fits62 g \<Longrightarrow> list_all Object_ok (file_objects payload g)"
  by (auto simp: file_objects_def list_all_iff Object_ok_def OBJECTS_PER_GROUP_def fits62_def CHUNKSIZE_def maxAlloc_def unat_of_nat)

lemma length_file_objects [simp]: "length (file_objects payload g) = 10"
  by (simp add: file_objects_def OBJECTS_PER_GROUP_def)

lemma file_objects_size: "(\<And>g i. length (payload g i) = CHUNKSIZE) \<Longrightarrow> \<forall>ob \<in> set (file_objects payload g). length (obj_Payload ob) = CHUNKSIZE"
  by (auto simp: file_objects_def)

context varint_codec
begin

text \<open>The file publisher's groups, and what can arrive of each.\<close>

lemma file_streams:
  assumes pub: "pub_fits pub" and opens: "\<And>g. opens g 0 = None" and payload: "\<And>g i. length (payload g i) = CHUNKSIZE" and n: "n \<le> 2 ^ 62"
  shows "\<exists>groups. pub_handleStream qv opens pub payload n 0 0 = Some (groups, word_of_nat (n * 655360), None) \<and> length groups = n \<and>
    (\<forall>i < n. groups ! i = (group_header qv pub (word_of_nat i),
      SGroup (published pub (word_of_nat i) (file_objects payload (word_of_nat i)) True))) \<and>
    (\<forall>subid arrived ord. (\<forall>i \<in> set ord. i < n \<and> carried qv subid (groups ! i) (arrived ! i)) \<longrightarrow>
      (\<exists>ks. \<forall>i \<in> set ord. ks i \<le> 10 \<and> arrived ! i =
        parsed_group qv subid (ps_Alias pub) (word_of_nat i) (take (ks i) (file_objects payload (word_of_nat i)))))"
proof -
  let ?s = "\<lambda>i. (group_header qv pub (word_of_nat i), SGroup (published pub (word_of_nat i) (file_objects payload (word_of_nat i)) True))"
  have c: "OBJECTS_PER_GROUP * CHUNKSIZE = 655360" by (simp add: OBJECTS_PER_GROUP_def CHUNKSIZE_def)
  have "(\<Sum>i \<leftarrow> [0..<n]. \<Sum>j \<leftarrow> [0..<OBJECTS_PER_GROUP]. word_of_nat (length (payload (0 + word_of_nat i) (word_of_nat j)))) =
      (word_of_nat (n * 655360) :: i64)"
    by (simp add: payload map_replicate_const sum_list_replicate flip: c)
  then have groups: "pub_handleStream qv opens pub payload n 0 0 = Some (map ?s [0..<n], word_of_nat (n * 655360), None)"
    using pub_handleStream_result [where opens = opens and g = 0 and acc = 0 and payload = payload, OF pub opens] n
    by (simp add: file_objects_def Let_def)
  have "\<exists>c \<le> 10. gs = parsed_group qv subid (ps_Alias pub) (word_of_nat i) (take c (file_objects payload (word_of_nat i)))"
    if i: "i < n" and c: "carried qv subid (?s i) gs" for subid i gs
  proof -
    have g: "fits62 (word_of_nat i)" using i n by (simp add: fits62_def unat_of_nat)
    from carried_prefix [OF c pub g file_objects_ok [where payload = payload, OF payload g]] show ?thesis by simp
  qed
  note came = this
  have nth: "map ?s [0..<n] ! i = ?s i" if "i < n" for i using that by simp
  have each: "\<exists>ks. \<forall>i \<in> set ord. ks i \<le> 10 \<and> gss ! i =
      parsed_group qv subid (ps_Alias pub) (word_of_nat i) (take (ks i) (file_objects payload (word_of_nat i)))"
    if c: "\<forall>i \<in> set ord. i < n \<and> carried qv subid (map ?s [0..<n] ! i) (gss ! i)" for subid ord and gss :: "GroupStream list"
  proof (rule bchoice, rule ballI)
    fix i assume "i \<in> set ord"
    with c have i: "i < n" and "carried qv subid (map ?s [0..<n] ! i) (gss ! i)" by blast+
    from i this(2) [unfolded nth [OF i]] show "\<exists>c. c \<le> 10 \<and> gss ! i =
      parsed_group qv subid (ps_Alias pub) (word_of_nat i) (take c (file_objects payload (word_of_nat i)))" by (rule came)
  qed
  show ?thesis
    by (intro exI [of _ "map ?s [0..<n]"] conjI allI impI) (rule groups, simp, simp, erule each)
qed

lemma sub_handleStream_totals:
  assumes "\<And>i. i \<in> set js \<Longrightarrow> list_all Object_ok (objs i) \<and> (\<forall>ob \<in> set (objs i). length (obj_Payload ob) = c)"
    and "\<And>i. i \<in> set js \<Longrightarrow> gss ! i = parsed_group qv subid al (g i) (objs i)"
  shows "sub_handleStream qv (map (\<lambda>i. SGroup (gss ! i)) js) t =
    Some \<lparr>totalBytesReceived = totalBytesReceived t + word_of_nat (c * (\<Sum>i \<leftarrow> js. length (objs i))),
      totalGroups = totalGroups t + word_of_nat (length js), totalObjects = totalObjects t + word_of_nat (\<Sum>i \<leftarrow> js. length (objs i))\<rparr>"
  using assms
proof (induction js arbitrary: t)
  case (Cons i js)
  have o: "list_all Object_ok (objs i)" "\<forall>ob \<in> set (objs i). length (obj_Payload ob) = c"
    and gs: "gss ! i = parsed_group qv subid al (g i) (objs i)" using Cons.prems by auto
  have "map (\<lambda>ob. word_of_nat (length (obj_Payload ob))) (objs i) = replicate (length (objs i)) (word_of_nat c :: i64)"
    using o(2) by (auto intro: replicate_eqI)
  then have "(\<Sum>ob \<leftarrow> objs i. word_of_nat (length (obj_Payload ob))) = (word_of_nat (c * length (objs i)) :: i64)"
    by (simp add: sum_list_replicate mult.commute)
  moreover have "sub_handleStream qv (map (\<lambda>i. SGroup (gss ! i)) js) t =
    Some \<lparr>totalBytesReceived = totalBytesReceived t + word_of_nat (c * (\<Sum>i \<leftarrow> js. length (objs i))),
      totalGroups = totalGroups t + word_of_nat (length js), totalObjects = totalObjects t + word_of_nat (\<Sum>i \<leftarrow> js. length (objs i))\<rparr>" for t
    by (rule Cons.IH) (use Cons.prems in auto)
  ultimately show ?case using read_parsed_group [OF o(1), of "Suc (length (concat (map (object_enc qv) (objs i))))"]
    by (simp add: gs comp_def algebra_simps del: read_objects.simps)
qed simp

end

text \<open>The totals over the streams that came, with the first \<open>ks i\<close> objects of group \<open>i\<close>.\<close>

lemma file_counted:
  assumes codec: "varint_codec qv" and payload: "\<And>g i. length (payload g i) = CHUNKSIZE" and n: "n \<le> 2 ^ 62"
    and came: "\<forall>i \<in> set ord. i < n \<and> ks i \<le> 10 \<and>
      gss ! i = parsed_group qv subid al (word_of_nat i) (take (ks i) (file_objects payload (word_of_nat i)))"
  shows "sub_handleStream qv (map (\<lambda>i. SGroup (gss ! i)) ord) \<lparr>totalBytesReceived = 0, totalGroups = 0, totalObjects = 0\<rparr> =
    Some \<lparr>totalBytesReceived = word_of_nat (65536 * (\<Sum>i \<leftarrow> ord. ks i)), totalGroups = word_of_nat (length ord),
      totalObjects = word_of_nat (\<Sum>i \<leftarrow> ord. ks i)\<rparr>"
proof -
  let ?objs = "\<lambda>i. take (ks i) (file_objects payload (word_of_nat i))"
  have ok: "list_all Object_ok (?objs i) \<and> (\<forall>ob \<in> set (?objs i). length (obj_Payload ob) = CHUNKSIZE)" if "i \<in> set ord" for i
  proof -
    have "fits62 (word_of_nat i)" using came n that by (auto simp: fits62_def unat_of_nat)
    from file_objects_ok [where payload = payload, OF payload this] file_objects_size [where payload = payload and g = "word_of_nat i", OF payload]
    show ?thesis by (simp add: list_all_take) (meson in_set_takeD)
  qed
  have gss: "gss ! i = parsed_group qv subid al (word_of_nat i) (?objs i)" if "i \<in> set ord" for i using came that by blast
  have "map (\<lambda>i. length (?objs i)) ord = map ks ord" using came by simp
  then have "(\<Sum>i \<leftarrow> ord. length (?objs i)) = (\<Sum>i \<leftarrow> ord. ks i)" by (simp only:)
  with varint_codec.sub_handleStream_totals [where objs = ?objs and js = ord and g = word_of_nat and gss = gss and c = CHUNKSIZE, OF codec ok gss]
  show ?thesis by (simp only:) (simp add: CHUNKSIZE_def)
qed

lemma full_counts:
  assumes "mset ord = mset [0..<n]" and "\<forall>i < n. ks i = (10 :: nat)"
  shows "length ord = n \<and> (\<Sum>i \<leftarrow> ord. ks i) = n * 10"
proof -
  have l: "length ord = n" using arg_cong [OF assms(1), of size] by simp
  have "set ord = {0..<n}" using mset_eq_setD [OF assms(1)] by simp
  then have "map ks ord = replicate (length ord) 10" using assms(2) by (auto intro: replicate_eqI)
  with l show ?thesis by (simp add: sum_list_replicate)
qed

text \<open>Property C28 (a file transfer is accounted for). The file publisher sends \<open>n\<close> groups of ten objects of 64 KiB, its streams opening at the
  first try. Any of them are carried through the relay to the subscriber, each to its end and without a failed write; as the
  goroutines that pipe a group can lose its last objects, stream \<open>i\<close> carries the first \<open>ks i\<close> of the ten. In whatever order the
  subscriber's goroutines finish, its totals count, in 64-bit arithmetic, exactly the groups that came, the objects on them and
  their bytes; and they are the publisher's, if all groups came and with all their objects.\<close>

theorem file_transfer_totals:
  assumes codec: "varint_codec qv" and pub: "pub_fits pub" and opens: "\<And>g. opens g 0 = None"
    and payload: "\<And>g i. length (payload g i) = CHUNKSIZE" and n: "n \<le> 2 ^ 62"
  shows "\<exists>groups bytesSent. pub_handleStream qv opens pub payload n 0 0 = Some (groups, bytesSent, None) \<and>
    bytesSent = word_of_nat (n * 655360) \<and> length groups = n \<and>
    (\<forall>subid arrived ord. (\<forall>i \<in> set ord. i < n \<and> carried qv subid (groups ! i) (arrived ! i)) \<longrightarrow> (\<exists>ks t.
      (\<forall>i \<in> set ord. ks i \<le> 10 \<and> arrived ! i =
        parsed_group qv subid (ps_Alias pub) (word_of_nat i) (take (ks i) (file_objects payload (word_of_nat i)))) \<and>
      sub_handleStream qv (map (\<lambda>i. SGroup (arrived ! i)) ord) \<lparr>totalBytesReceived = 0, totalGroups = 0, totalObjects = 0\<rparr> = Some t \<and>
      t = \<lparr>totalBytesReceived = word_of_nat (65536 * (\<Sum>i \<leftarrow> ord. ks i)), totalGroups = word_of_nat (length ord),
        totalObjects = word_of_nat (\<Sum>i \<leftarrow> ord. ks i)\<rparr> \<and>
      (mset ord = mset [0..<n] \<and> (\<forall>i < n. ks i = 10) \<longrightarrow>
        t = \<lparr>totalBytesReceived = bytesSent, totalGroups = word_of_nat n, totalObjects = word_of_nat (n * 10)\<rparr>)))"
proof -
  obtain groups where groups: "pub_handleStream qv opens pub payload n 0 0 = Some (groups, word_of_nat (n * 655360), None)" "length groups = n"
    and arrive: "\<forall>subid arrived ord. (\<forall>i \<in> set ord. i < n \<and> carried qv subid (groups ! i) (arrived ! i)) \<longrightarrow>
      (\<exists>ks. \<forall>i \<in> set ord. ks i \<le> 10 \<and> arrived ! i =
        parsed_group qv subid (ps_Alias pub) (word_of_nat i) (take (ks i) (file_objects payload (word_of_nat i))))"
    using varint_codec.file_streams [where opens = opens and payload = payload, OF codec pub opens payload n] by blast
  show ?thesis
  proof (intro exI [of _ groups] exI [of _ "word_of_nat (n * 655360)"] conjI groups refl allI impI)
    fix subid gss ord assume a: "\<forall>i \<in> set ord. i < n \<and> carried qv subid (groups ! i) (gss ! i)"
    let ?came = "\<lambda>i c. c \<le> 10 \<and> gss ! i = parsed_group qv subid (ps_Alias pub) (word_of_nat i) (take c (file_objects payload (word_of_nat i)))"
    obtain ks where ks: "\<forall>i \<in> set ord. ?came i (ks i)" using arrive a by blast
    let ?t = "\<lparr>totalBytesReceived = word_of_nat (65536 * (\<Sum>i \<leftarrow> ord. ks i)), totalGroups = word_of_nat (length ord),
        totalObjects = word_of_nat (\<Sum>i \<leftarrow> ord. ks i)\<rparr>"
    have "\<forall>i \<in> set ord. i < n \<and> ?came i (ks i)" using a ks by blast
    note t = file_counted [where payload = payload, OF codec payload n this]
    have full: "?t = \<lparr>totalBytesReceived = word_of_nat (n * 655360), totalGroups = word_of_nat n, totalObjects = word_of_nat (n * 10)\<rparr>"
      if "mset ord = mset [0..<n] \<and> (\<forall>i < n. ks i = 10)"
      using full_counts [OF conjunct1 [OF that] conjunct2 [OF that]] by (simp add: mult.commute)
    show "\<exists>ks t. (\<forall>i \<in> set ord. ?came i (ks i)) \<and>
      sub_handleStream qv (map (\<lambda>i. SGroup (gss ! i)) ord) \<lparr>totalBytesReceived = 0, totalGroups = 0, totalObjects = 0\<rparr> = Some t \<and>
      t = \<lparr>totalBytesReceived = word_of_nat (65536 * (\<Sum>i \<leftarrow> ord. ks i)), totalGroups = word_of_nat (length ord),
        totalObjects = word_of_nat (\<Sum>i \<leftarrow> ord. ks i)\<rparr> \<and>
      (mset ord = mset [0..<n] \<and> (\<forall>i < n. ks i = 10) \<longrightarrow>
        t = \<lparr>totalBytesReceived = word_of_nat (n * 655360), totalGroups = word_of_nat n, totalObjects = word_of_nat (n * 10)\<rparr>)"
      by (intro exI [of _ ks] exI [of _ ?t] conjI ks t refl) (rule impI, erule full)
  qed
qed

theorem file_transfer_totals_witness:
  "\<exists>groups bytesSent arrived.
    pub_handleStream rfc9000 (\<lambda>_ _. None) media_pub (\<lambda>_ _. replicate 65536 7) 3 0 0 = Some (groups, bytesSent, None) \<and>
    (\<forall>i < 3. carried rfc9000 7 (groups ! i) (arrived ! i)) \<and> bytesSent = 1966080 \<and>
    sub_handleStream rfc9000 (map (\<lambda>i. SGroup (arrived ! i)) [2, 0, 1]) \<lparr>totalBytesReceived = 0, totalGroups = 0, totalObjects = 0\<rparr> =
      Some \<lparr>totalBytesReceived = bytesSent, totalGroups = 3, totalObjects = 30\<rparr>"
proof -
  let ?payload = "\<lambda>_ _. replicate 65536 7 :: bytes"
  have fits: "pub_fits media_pub" by (simp add: pub_fits_def media_pub_def fits62_def)
  have payload: "length (?payload (g :: u64) (i :: u64)) = CHUNKSIZE" for g i by (simp add: CHUNKSIZE_def)
  have n: "(3 :: nat) \<le> 2 ^ 62" by simp
  let ?objs = "\<lambda>i. file_objects ?payload (word_of_nat i)"
  let ?arrived = "map (\<lambda>i. parsed_group rfc9000 7 (ps_Alias media_pub) (word_of_nat i) (?objs i)) [0..<3]"
  obtain groups where groups: "pub_handleStream rfc9000 (\<lambda>_ _. None) media_pub ?payload 3 0 0 = Some (groups, word_of_nat (3 * 655360), None)"
      "\<forall>i < 3. groups ! i = (group_header rfc9000 media_pub (word_of_nat i), SGroup (published media_pub (word_of_nat i) (?objs i) True))"
    using rfc.file_streams [where opens = "\<lambda>_ _. None" and payload = ?payload, OF fits refl payload n] by blast
  have ok: "list_all Object_ok (?objs i)" "fits62 (word_of_nat i)" if "i < 3" for i
  proof -
    show "fits62 (word_of_nat i)" using that by (simp add: fits62_def unat_of_nat)
    then show "list_all Object_ok (?objs i)" using payload by (intro file_objects_ok)
  qed
  have c: "carried rfc9000 7 (groups ! i) (?arrived ! i)" if "i < 3" for i
    using sample_carried [OF fits ok(2) [OF that] ok(1) [OF that]] groups(2) that by simp
  have ord: "mset [2, 0, 1] = mset [0..<3]" by (simp add: numeral_3_eq_3 numeral_2_eq_2 del: mset_upt)
  have "\<forall>i \<in> set [2, 0, 1]. i < 3 \<and> carried rfc9000 7 (groups ! i) (?arrived ! i)"
  proof (intro ballI conjI)
    fix i :: nat assume "i \<in> set [2, 0, 1]"
    then show i: "i < 3" by auto
    then show "carried rfc9000 7 (groups ! i) (?arrived ! i)" by (rule c)
  qed
  note came = this
  obtain groups' bytesSent where run: "pub_handleStream rfc9000 (\<lambda>_ _. None) media_pub ?payload 3 0 0 = Some (groups', bytesSent, None)"
    and all: "\<forall>subid arrived ord. (\<forall>i \<in> set ord. i < 3 \<and> carried rfc9000 subid (groups' ! i) (arrived ! i)) \<longrightarrow> (\<exists>ks t.
      (\<forall>i \<in> set ord. ks i \<le> 10 \<and> arrived ! i = parsed_group rfc9000 subid (ps_Alias media_pub) (word_of_nat i) (take (ks i) (?objs i))) \<and>
      sub_handleStream rfc9000 (map (\<lambda>i. SGroup (arrived ! i)) ord) \<lparr>totalBytesReceived = 0, totalGroups = 0, totalObjects = 0\<rparr> = Some t \<and>
      t = \<lparr>totalBytesReceived = word_of_nat (65536 * (\<Sum>i \<leftarrow> ord. ks i)), totalGroups = word_of_nat (length ord),
        totalObjects = word_of_nat (\<Sum>i \<leftarrow> ord. ks i)\<rparr> \<and>
      (mset ord = mset [0..<3] \<and> (\<forall>i < 3. ks i = 10) \<longrightarrow>
        t = \<lparr>totalBytesReceived = bytesSent, totalGroups = word_of_nat 3, totalObjects = word_of_nat (3 * 10)\<rparr>))"
    using file_transfer_totals [where opens = "\<lambda>_ _. None" and payload = ?payload, OF rfc.varint_codec_axioms fits refl payload n]
    by (elim exE conjE) (rule that)
  have same: "groups' = groups" "bytesSent = word_of_nat (3 * 655360)" using groups(1) unfolding run by simp_all
  obtain ks t where t: "\<forall>i \<in> set [2, 0, 1]. ks i \<le> 10 \<and> ?arrived ! i =
        parsed_group rfc9000 7 (ps_Alias media_pub) (word_of_nat i) (take (ks i) (?objs i))"
      "sub_handleStream rfc9000 (map (\<lambda>i. SGroup (?arrived ! i)) [2, 0, 1]) \<lparr>totalBytesReceived = 0, totalGroups = 0, totalObjects = 0\<rparr> = Some t"
      "mset [2, 0, 1] = mset [0..<3] \<and> (\<forall>i < 3. ks i = 10) \<longrightarrow>
        t = \<lparr>totalBytesReceived = word_of_nat (3 * 655360), totalGroups = word_of_nat 3, totalObjects = word_of_nat (3 * 10)\<rparr>"
    using all [THEN spec, THEN spec, THEN spec, THEN mp, unfolded same, OF came] by (elim exE conjE) (rule that)
  have "ks i = 10" if "i < 3" for i
  proof -
    have "i \<in> set [2, 0, 1]" using that mset_eq_setD [OF ord] by simp
    with t(1) that have "ks i \<le> 10" "parsed_group rfc9000 7 (ps_Alias media_pub) (word_of_nat i) (take (ks i) (?objs i)) =
      parsed_group rfc9000 7 (ps_Alias media_pub) (word_of_nat i) (?objs i)" by fastforce+
    from this(1) rfc.parsed_group_all [OF this(2) ok(1) [OF that]] show ?thesis by simp
  qed
  with t(3) ord have "t = \<lparr>totalBytesReceived = word_of_nat (3 * 655360), totalGroups = word_of_nat 3, totalObjects = word_of_nat (3 * 10)\<rparr>" by blast
  with groups(1) c t(2) show ?thesis by (intro exI [of _ groups] exI [of _ "word_of_nat (3 * 655360)"] exI [of _ ?arrived] conjI) simp_all
qed

end
