(* ===== verification/Media_Programs.thy ===== *)
theory Media_Programs
  imports Endpoints Media_Apps
begin

text \<open>
  The media programs as a whole (\<open>src/examples/ffmpeg\<close> for standard input and output, \<open>src/examples/ffmpeg-udp\<close> for sockets).

  \<open>ns\<close> are the sizes of the reads from standard input, in bytes, as far as the operating system has a choice: a read takes at least one
  byte and at most 1024. Reading from the socket takes blocks of 188 bytes, the packets of a transport stream; an error of the
  socket panics. What is written to standard output is a byte string; what is sent to a socket is a list of datagrams.

  Shown here: what a subscriber writes is what the publisher reads, in order and unchanged, with gaps at the ends of groups where the goroutines lost
  objects, and a bound on the groups held back; over sockets the datagrams are packets, in order, and no group is reported as wrong.
\<close>

section \<open>The publishers\<close>

fun ReadFromStdin :: "nat list \<Rightarrow> bytes \<Rightarrow> bytes list" where
  "ReadFromStdin [] data = []"
| "ReadFromStdin (n # ns) data = (if data = [] then []
     else take (max 1 (min n 1024)) data # ReadFromStdin ns (drop (max 1 (min n 1024)) data))"

definition ffmpeg_pub_handleStream :: "quicvarint \<Rightarrow> (u64 \<Rightarrow> nat \<Rightarrow> goerror option) \<Rightarrow> PubStream \<Rightarrow> nat list \<Rightarrow> bytes \<Rightarrow> world
    \<Rightarrow> (world \<times> (bytes \<times> MOQTStream) list \<times> goerror option) option" where
  "ffmpeg_pub_handleStream qv opens stream ns data w = do {
     w \<leftarrow> PubStream_Accept qv stream w;
     (groups, err) \<leftarrow> ffmpeg_handleStream qv 10 opens stream 0 0 (ReadFromStdin ns data);
     Some (w, groups, err) }"

definition TS_PACKET :: nat where
  "TS_PACKET = 188"

function udp_packets :: "bytes \<Rightarrow> bytes list" where
  "udp_packets data = (if length data < TS_PACKET then [] else take TS_PACKET data # udp_packets (drop TS_PACKET data))"
  by auto
termination by (relation "measure length") (auto simp: TS_PACKET_def)

declare udp_packets.simps [simp del]

text \<open>The errors of \<open>ListenUDP\<close> and of the read after the last packet panic; without the latter the reader waits.\<close>

definition udp_ReadFromStdin :: "goerror option \<Rightarrow> goerror option \<Rightarrow> bytes \<Rightarrow> bytes list option" where
  "udp_ReadFromStdin listen_err read_err data =
    (case (listen_err, read_err) of (None, None) \<Rightarrow> Some (udp_packets data) | _ \<Rightarrow> None)"

definition udp_pub_handleStream :: "quicvarint \<Rightarrow> (u64 \<Rightarrow> nat \<Rightarrow> goerror option) \<Rightarrow> goerror option \<Rightarrow> goerror option \<Rightarrow> PubStream \<Rightarrow> bytes \<Rightarrow> world
    \<Rightarrow> (world \<times> (bytes \<times> MOQTStream) list \<times> goerror option) option" where
  "udp_pub_handleStream qv opens listen_err read_err stream data w = do {
     w \<leftarrow> PubStream_Accept qv stream w;
     ch \<leftarrow> udp_ReadFromStdin listen_err read_err data;
     (groups, err) \<leftarrow> ffmpeg_handleStream qv 7 opens stream 0 0 ch;
     Some (w, groups, err) }"

section \<open>The subscribers\<close>

text \<open>The streams are written as the reorder buffer hands them on; \<open>ro_out\<close> has them in that order.\<close>

definition ffmpeg_sub_handleStream :: "quicvarint \<Rightarrow> MOQTStream list \<Rightarrow> bytes option" where
  "ffmpeg_sub_handleStream qv moqtstreams = do {
     st \<leftarrow> reorder_handleStream moqtstreams empty_reorder;
     outs \<leftarrow> those (map (handleMOQStream qv) (ro_out st));
     Some (concat outs) }"

text \<open>The state of the socket subscriber: its counter, the datagrams sent, and the log lines about wrong groups (expected, got).\<close>

record udp_sub =
  us_GROUPID :: u64
  us_sent :: "bytes list"
  us_wrong :: "(u64 \<times> u64) list"

definition udp_handleMOQStream :: "quicvarint \<Rightarrow> (u64 \<Rightarrow> goerror option) \<Rightarrow> GroupStream \<Rightarrow> udp_sub \<Rightarrow> udp_sub option" where
  "udp_handleMOQStream qv dial gs st = (case dial (gs_GroupID gs) of
      Some err \<Rightarrow> None
    | None \<Rightarrow> do {
        (objects, err, _) \<leftarrow> read_objects qv (Suc (case gs_reader gs of None \<Rightarrow> 0 | Some r \<Rightarrow> length (rd_data r))) (SGroup gs);
        let st = st\<lparr>us_sent := us_sent st @ map (\<lambda>(_, object). obj_Payload object) objects\<rparr>;
        let st = (if us_GROUPID st \<noteq> gs_GroupID gs
          then st\<lparr>us_wrong := us_wrong st @ [(us_GROUPID st, gs_GroupID gs)], us_GROUPID := gs_GroupID gs\<rparr> else st);
        Some (st\<lparr>us_GROUPID := us_GROUPID st + 1\<rparr>) })"

fun udp_write :: "quicvarint \<Rightarrow> (u64 \<Rightarrow> goerror option) \<Rightarrow> GroupStream list \<Rightarrow> udp_sub \<Rightarrow> udp_sub option" where
  "udp_write qv dial [] st = Some st"
| "udp_write qv dial (gs # gss) st = do {
     st \<leftarrow> udp_handleMOQStream qv dial gs st;
     udp_write qv dial gss st }"

definition udp_sub_handleStream :: "quicvarint \<Rightarrow> (u64 \<Rightarrow> goerror option) \<Rightarrow> MOQTStream list \<Rightarrow> udp_sub option" where
  "udp_sub_handleStream qv dial moqtstreams = do {
     st \<leftarrow> reorder_handleStream moqtstreams empty_reorder;
     udp_write qv dial (ro_out st) \<lparr>us_GROUPID = 0, us_sent = [], us_wrong = []\<rparr> }"

section \<open>The file publisher\<close>

text \<open>\<open>groupCount\<close> is the flag; with 0 or less the loop has no end, and \<open>rounds\<close> is how far it comes.\<close>

definition file_pub_handleStream :: "quicvarint \<Rightarrow> (u64 \<Rightarrow> nat \<Rightarrow> goerror option) \<Rightarrow> PubStream \<Rightarrow> (u64 \<Rightarrow> u64 \<Rightarrow> bytes) \<Rightarrow> int \<Rightarrow> nat \<Rightarrow> world
    \<Rightarrow> (world \<times> (bytes \<times> MOQTStream) list \<times> i64 \<times> goerror option) option" where
  "file_pub_handleStream qv opens stream payload groupCount rounds w = do {
     w \<leftarrow> PubStream_Accept qv stream w;
     let maxGroups = (if groupCount = 0 then -1 else groupCount);
     (groups, bytesSent, err) \<leftarrow> pub_handleStream qv opens stream payload (if maxGroups < 0 then rounds else nat maxGroups) 0 0;
     Some (w, groups, bytesSent, err) }"

section \<open>The input\<close>

lemma ReadFromStdin_prefix: "prefix (concat (ReadFromStdin ns data)) data"
proof (induction ns data rule: ReadFromStdin.induct)
  case (2 n ns data)
  let ?k = "max 1 (min n 1024)"
  have "prefix (take ?k data @ concat (ReadFromStdin ns (drop ?k data))) (take ?k data @ drop ?k data)" if "data \<noteq> []"
    using 2 [OF that] by (simp only: same_prefix_prefix)
  then show ?case by simp
qed simp

lemma ReadFromStdin_blocks: "list_all (\<lambda>b. b \<noteq> [] \<and> length b \<le> 1024) (ReadFromStdin ns data)"
  by (induction ns data rule: ReadFromStdin.induct) auto

lemma length_ReadFromStdin: "length (ReadFromStdin ns data) \<le> length ns"
  by (induction ns data rule: ReadFromStdin.induct) auto

lemma udp_packets_length: "list_all (\<lambda>b. length b = TS_PACKET) (udp_packets data)"
proof (induction data rule: udp_packets.induct)
  case (1 data)
  then show ?case by (subst udp_packets.simps) auto
qed

lemma udp_packets_concat: "concat (udp_packets data) = take (TS_PACKET * (length data div TS_PACKET)) data"
proof (induction data rule: udp_packets.induct)
  case (1 data)
  show ?case
  proof (cases "length data < TS_PACKET")
    case False
    then have "length data div TS_PACKET = Suc (length (drop TS_PACKET data) div TS_PACKET)"
      by (simp add: TS_PACKET_def le_div_geq)
    then show ?thesis using False 1 by (subst udp_packets.simps) (simp add: take_add)
  qed (subst udp_packets.simps, simp)
qed

lemma length_udp_packets: "length (udp_packets data) = length data div TS_PACKET"
proof (induction data rule: udp_packets.induct)
  case (1 data)
  then show ?case by (subst udp_packets.simps) (auto simp: TS_PACKET_def le_div_geq)
qed

lemma udp_packets_prefix: "prefix (concat (udp_packets data)) data"
  by (simp add: udp_packets_concat take_is_prefix)

section \<open>What is written\<close>

context varint_codec
begin

lemma udp_handle_parsed:
  assumes "list_all Object_ok objs" and "us_GROUPID st = g"
  shows "udp_handleMOQStream qv (\<lambda>_. None) (parsed_group qv subid alias g objs) st =
    Some (st\<lparr>us_GROUPID := g + 1, us_sent := us_sent st @ map obj_Payload objs\<rparr>)"
  using assms(2) read_parsed_group [OF assms(1), of "Suc (length (concat (map (object_enc qv) objs)))"]
  by (simp add: udp_handleMOQStream_def comp_def del: read_objects.simps)

lemma udp_written:
  assumes "list_all (\<lambda>b. length b \<le> maxAlloc) bs" and "length bs < 2 ^ 61" and "(i + m) * k \<le> length bs"
  shows "udp_write qv (\<lambda>_. None) (map (\<lambda>j. media_group qv subid pub k bs (ks j) j) [i..<i + m])
      \<lparr>us_GROUPID = word_of_nat i, us_sent = acc, us_wrong = []\<rparr> =
    Some \<lparr>us_GROUPID = word_of_nat (i + m), us_sent = acc @ concat (map (\<lambda>j. take (ks j) (media_block k bs j)) [i..<i + m]), us_wrong = []\<rparr>"
  using assms(3)
proof (induction m arbitrary: i acc)
  case (Suc m)
  have "i * k \<le> length bs" using Suc.prems by (meson le_add1 le_trans mult_le_mono1)
  with assms(1,2) have "list_all Object_ok (take (ks i) (media_objects k bs i))" by (intro list_all_take media_objects_ok)
  then have first: "udp_handleMOQStream qv (\<lambda>_. None) (media_group qv subid pub k bs (ks i) i)
      \<lparr>us_GROUPID = word_of_nat i, us_sent = acc, us_wrong = []\<rparr> =
    Some \<lparr>us_GROUPID = word_of_nat (Suc i), us_sent = acc @ take (ks i) (media_block k bs i), us_wrong = []\<rparr>"
    unfolding media_group_def by (subst udp_handle_parsed) (simp_all add: media_payloads add.commute)
  have "[i..<i + Suc m] = i # [Suc i..<Suc i + m]" by (simp add: upt_conv_Cons del: upt_Suc)
  then show ?case using Suc.IH [of "Suc i"] Suc.prems
    by (simp only: list.map udp_write.simps first bind.bind_lunit add_Suc_right add_Suc concat.simps append_assoc)
qed simp

end

lemma blocks_small: "list_all (\<lambda>b. length b \<le> maxAlloc) (ReadFromStdin ns data)" "list_all (\<lambda>b. length b \<le> maxAlloc) (udp_packets data)"
  using ReadFromStdin_blocks [of ns data] udp_packets_length [of data]
  by (auto simp: list_all_iff maxAlloc_def TS_PACKET_def)

lemma concat_take_prefix: "prefix (concat (take n bs)) (concat bs)"
  by (metis append_take_drop_id concat_append prefixI)

section \<open>Properties\<close>

lemma sample_accept: "\<exists>w'. PubStream_Accept rfc9000 media_pub sample_world = Some w'"
proof -
  have "message_ok (subscribe_ok_msg (ps_SubID media_pub))"
    by (simp add: subscribe_ok_msg_def media_pub_def zero_defs fits62_def)
  then show ?thesis using rfc.WriteControlMessage_total [OF sample_world_refs(2), of "subscribe_ok_msg (ps_SubID media_pub)"]
    by (simp add: PubStream_Accept_def media_pub_def)
qed

lemma ReadFromStdin_bytewise: "ReadFromStdin (replicate n (Suc 0)) (replicate m b) = replicate (min n m) [b]"
proof (induction n arbitrary: m)
  case (Suc n)
  then show ?case by (cases m) simp_all
qed simp

lemma media_pub_fits: "pub_fits media_pub" "fits62 9"
  by (simp_all add: pub_fits_def media_pub_def fits62_def)

lemma block_start: "i < length bs div k \<Longrightarrow> i * k \<le> length bs"
  by (metis less_imp_le mult_le_mono1 div_times_less_eq_dividend le_trans)

lemma concat_parts: "concat (map (\<lambda>i. concat (f i)) xs) = concat (concat (map f xs))"
  by (induction xs) simp_all

text \<open>What the two subscribers do with the groups that have arrived, of group \<open>i\<close> the first \<open>ks i\<close> blocks.\<close>

lemma media_sub_writes:
  assumes codec: "varint_codec qv" and bs: "bs = ReadFromStdin ns data" and len: "length bs < 2 ^ 61"
    and ord: "mset ord = mset [0..<length bs div 10]" and window: "sorted_wrt (\<lambda>i j. i < j + 25) ord"
    and ks: "\<And>i. i < length bs div 10 \<Longrightarrow> gss ! i = media_group qv subid pub 10 bs (ks i) i"
  shows "\<exists>out m. ffmpeg_sub_handleStream qv (map (\<lambda>i. SGroup (gss ! i)) ord) = Some out \<and>
    out = concat (map (\<lambda>i. concat (take (ks i) (media_block 10 bs i))) [0..<m]) \<and> m \<le> length bs div 10 \<and> length bs div 10 < m + 25 \<and>
    subseq out data \<and> ((\<forall>i < m. ks i = 10) \<longrightarrow> out = concat (take (m * 10) bs) \<and> prefix out data)"
proof -
  obtain st m where st: "reorder_handleStream (map (\<lambda>i. SGroup (gss ! i)) ord) empty_reorder = Some st"
      "ro_out st = map (\<lambda>i. media_group qv subid pub 10 bs (ks i) i) [0..<m]" "m \<le> length bs div 10" "length bs div 10 < m + 25" "m * 10 \<le> length bs"
    using media_handed_on [OF len ord window ks] by blast
  let ?parts = "concat (map (\<lambda>i. take (ks i) (media_block 10 bs i)) [0..<m])"
  let ?out = "concat (map (\<lambda>i. concat (take (ks i) (media_block 10 bs i))) [0..<m])"
  have small: "list_all (\<lambda>b. length b \<le> maxAlloc) bs" unfolding bs by (rule blocks_small(1))
  have pre: "prefix (concat bs) data" unfolding bs by (rule ReadFromStdin_prefix)
  have "handleMOQStream qv (media_group qv subid pub 10 bs (ks i) i) = Some (concat (take (ks i) (media_block 10 bs i)))" if "i < m" for i
    using that st(3) by (intro varint_codec.media_written [OF codec small len] block_start) simp
  then have "those (map (handleMOQStream qv) (ro_out st)) = Some (map (\<lambda>i. concat (take (ks i) (media_block 10 bs i))) [0..<m])"
    unfolding st(2) map_map comp_def by (intro those_map_Some) simp
  with st(1) have sub: "ffmpeg_sub_handleStream qv (map (\<lambda>i. SGroup (gss ! i)) ord) = Some ?out" by (simp add: ffmpeg_sub_handleStream_def)
  have "subseq ?out (concat bs)" unfolding concat_parts using st(5) by (intro concat_subseq blocks_subseq)
  then have subs: "subseq ?out data" using prefix_imp_subseq [OF pre] by (rule subseq_order.order_trans)
  have full: "?out = concat (take (m * 10) bs) \<and> prefix ?out data" if "\<forall>i < m. ks i = 10"
  proof -
    have "?parts = take (m * 10) bs" using st(5) that by (intro blocks_whole) simp_all
    moreover have "prefix (concat (take (m * 10) bs)) data" using concat_take_prefix pre by (rule prefix_order.trans)
    ultimately show ?thesis unfolding concat_parts by (simp only:)
  qed
  show ?thesis by (intro exI [of _ ?out] exI [of _ m] conjI sub refl st(3,4) subs) (rule impI, erule full)
qed

lemma udp_sub_sends:
  assumes codec: "varint_codec qv" and bs: "bs = udp_packets data" and len: "length bs < 2 ^ 61"
    and ord: "mset ord = mset [0..<length bs div 7]" and window: "sorted_wrt (\<lambda>i j. i < j + 25) ord"
    and ks: "\<And>i. i < length bs div 7 \<Longrightarrow> gss ! i = media_group qv subid pub 7 bs (ks i) i"
  shows "\<exists>out m. udp_sub_handleStream qv (\<lambda>_. None) (map (\<lambda>i. SGroup (gss ! i)) ord) = Some \<lparr>us_GROUPID = word_of_nat m, us_sent = out, us_wrong = []\<rparr> \<and>
    out = concat (map (\<lambda>i. take (ks i) (media_block 7 bs i)) [0..<m]) \<and> m \<le> length bs div 7 \<and> length bs div 7 < m + 25 \<and>
    subseq out bs \<and> ((\<forall>i < m. ks i = 7) \<longrightarrow> out = take (m * 7) bs)"
proof -
  obtain st m where st: "reorder_handleStream (map (\<lambda>i. SGroup (gss ! i)) ord) empty_reorder = Some st"
      "ro_out st = map (\<lambda>i. media_group qv subid pub 7 bs (ks i) i) [0..<m]" "m \<le> length bs div 7" "length bs div 7 < m + 25" "m * 7 \<le> length bs"
    using media_handed_on [OF len ord window ks] by blast
  let ?out = "concat (map (\<lambda>i. take (ks i) (media_block 7 bs i)) [0..<m])"
  have "list_all (\<lambda>b. length b \<le> maxAlloc) bs" unfolding bs by (rule blocks_small(2))
  from varint_codec.udp_written [OF codec this len, of 0 m 7 subid pub ks "[]"] st(5)
  have sub: "udp_sub_handleStream qv (\<lambda>_. None) (map (\<lambda>i. SGroup (gss ! i)) ord) = Some \<lparr>us_GROUPID = word_of_nat m, us_sent = ?out, us_wrong = []\<rparr>"
    using st(1,2) by (simp add: udp_sub_handleStream_def)
  have subs: "subseq ?out bs" using st(5) by (rule blocks_subseq)
  have full: "?out = take (m * 7) bs" if "\<forall>i < m. ks i = 7" using st(5) that by (intro blocks_whole) simp_all
  show ?thesis by (intro exI [of _ ?out] exI [of _ m] conjI sub refl st(3,4) subs) (rule impI, erule full)
qed

text \<open>Property C11 (media arrives in order). A publisher reads its standard input in pieces, of whatever sizes, and sends ten of them per
  group, each group on a stream of its own; opening a stream succeeds at the first try. The streams of the \<open>n\<close> full groups are all
  carried through the relay to the subscriber, each to its end and without a failed write, and they reach it in any order in which none
  is overtaken by one that is 25 or more ahead. The goroutines that pipe a group can lose its last pieces, so that the first \<open>ks i\<close> of the ten
  arrive. Then the subscriber writes what has arrived of the first \<open>m\<close> groups, in their order, and holds back fewer than 25 groups:
  its output is the input with nothing changed, moved or repeated; pieces are missing at ends of groups only; and if none is lost, the output is a prefix
  of the input.\<close>

theorem media_end_to_end:
  assumes codec: "varint_codec qv" and pub: "pub_fits stream" and opens: "\<And>g. opens g 0 = None"
    and accept: "PubStream_Accept qv stream w = Some w'" and len: "length ns < 2 ^ 61" and bs: "bs = ReadFromStdin ns data"
    and ord: "mset ord = mset [0..<length bs div 10]" and window: "sorted_wrt (\<lambda>i j. i < j + 25) ord"
  shows "\<exists>groups. ffmpeg_pub_handleStream qv opens stream ns data w = Some (w', groups, None) \<and> length groups = Suc (length bs div 10) \<and>
    (\<forall>subid arrived. (\<forall>i < length bs div 10. carried qv subid (groups ! i) (arrived ! i)) \<longrightarrow> (\<exists>ks out m.
      (\<forall>i < length bs div 10. ks i \<le> 10 \<and> handleMOQStream qv (arrived ! i) = Some (concat (take (ks i) (media_block 10 bs i)))) \<and>
      ffmpeg_sub_handleStream qv (map (\<lambda>i. SGroup (arrived ! i)) ord) = Some out \<and>
      out = concat (map (\<lambda>i. concat (take (ks i) (media_block 10 bs i))) [0..<m]) \<and> m \<le> length bs div 10 \<and> length bs div 10 < m + 25 \<and>
      subseq out data \<and> ((\<forall>i < m. ks i = 10) \<longrightarrow> out = concat (take (m * 10) bs) \<and> prefix out data)))"
proof -
  let ?n = "length bs div 10"
  have len': "length bs < 2 ^ 61" using length_ReadFromStdin [of ns data] len unfolding bs by linarith
  have small: "list_all (\<lambda>b. length b \<le> maxAlloc) bs" unfolding bs by (rule blocks_small(1))
  obtain groups where groups: "ffmpeg_handleStream qv 10 opens stream 0 0 bs = Some (groups, None)" "length groups = Suc ?n"
    and came: "\<forall>subid arrived. (\<forall>i < ?n. carried qv subid (groups ! i) (arrived ! i)) \<longrightarrow>
      (\<exists>ks. \<forall>i < ?n. ks i \<le> 10 \<and> arrived ! i = media_group qv subid stream 10 bs (ks i) i)"
    using varint_codec.media_streams [where opens = opens, OF codec pub opens zero_less_numeral small len'] by blast
  show ?thesis
  proof (intro exI [of _ groups] conjI groups(2) allI impI)
    show "ffmpeg_pub_handleStream qv opens stream ns data w = Some (w', groups, None)"
      using accept groups(1) by (simp add: ffmpeg_pub_handleStream_def bs)
    fix subid gss assume "\<forall>i < ?n. carried qv subid (groups ! i) (gss ! i)"
    then obtain ks where ks: "\<And>i. i < ?n \<Longrightarrow> ks i \<le> 10" "\<And>i. i < ?n \<Longrightarrow> gss ! i = media_group qv subid stream 10 bs (ks i) i"
      using came by blast
    have each: "\<forall>i < ?n. ks i \<le> 10 \<and> handleMOQStream qv (gss ! i) = Some (concat (take (ks i) (media_block 10 bs i)))"
      using ks varint_codec.media_written [OF codec small len' block_start] by simp
    obtain out m where "ffmpeg_sub_handleStream qv (map (\<lambda>i. SGroup (gss ! i)) ord) = Some out"
        "out = concat (map (\<lambda>i. concat (take (ks i) (media_block 10 bs i))) [0..<m])" "m \<le> ?n" "?n < m + 25"
        "subseq out data" "(\<forall>i < m. ks i = 10) \<longrightarrow> out = concat (take (m * 10) bs) \<and> prefix out data"
      using media_sub_writes [OF codec bs len' ord window ks(2)] by blast
    then show "\<exists>ks out m.
      (\<forall>i < ?n. ks i \<le> 10 \<and> handleMOQStream qv (gss ! i) = Some (concat (take (ks i) (media_block 10 bs i)))) \<and>
      ffmpeg_sub_handleStream qv (map (\<lambda>i. SGroup (gss ! i)) ord) = Some out \<and>
      out = concat (map (\<lambda>i. concat (take (ks i) (media_block 10 bs i))) [0..<m]) \<and> m \<le> ?n \<and> ?n < m + 25 \<and>
      subseq out data \<and> ((\<forall>i < m. ks i = 10) \<longrightarrow> out = concat (take (m * 10) bs) \<and> prefix out data)"
      by (intro exI [of _ ks] exI [of _ out] exI [of _ m] conjI each)
  qed
qed

text \<open>Two full groups of single bytes, nothing lost, the second before the first.\<close>

lemma sample_media_carried:
  assumes "ffmpeg_handleStream rfc9000 k (\<lambda>_ _. None) media_pub 0 0 bs = Some (groups, None)" and "0 < k"
    and "list_all (\<lambda>b. length b \<le> maxAlloc) bs" and "length bs < 2 ^ 61" and "i < length bs div k"
  shows "carried rfc9000 7 (groups ! i) (media_group rfc9000 7 media_pub k bs k i)"
proof -
  have g: "groups ! i = (group_header rfc9000 media_pub (word_of_nat i), SGroup (published media_pub (word_of_nat i) (media_objects k bs i) True))"
    using rfc.media_streams [where opens = "\<lambda>_ _. None", OF media_pub_fits(1) refl assms(2-4)] assms(1,5) by auto
  have "i \<le> length bs" using assms(2,5) by (meson div_le_dividend le_trans less_imp_le)
  then have f: "fits62 (word_of_nat i)" using small_id assms(4) by blast
  have ok: "list_all Object_ok (media_objects k bs i)" using assms(3,4) block_start [OF assms(5)] by (rule media_objects_ok)
  have "take k (media_objects k bs i) = media_objects k bs i" by (simp add: media_objects_def length_block_objects media_block_def)
  then show ?thesis using sample_carried [OF media_pub_fits(1) f ok] unfolding g media_group_def by simp
qed

theorem media_end_to_end_witness:
  "\<exists>w' groups arrived ks out m. (\<forall>i < 2. carried rfc9000 7 (groups ! i) (arrived ! i)) \<and>
    ffmpeg_pub_handleStream rfc9000 (\<lambda>_ _. None) media_pub (replicate 25 1) (replicate 23 7) sample_world = Some (w', groups, None) \<and>
    ffmpeg_sub_handleStream rfc9000 (map (\<lambda>i. SGroup (arrived ! i)) [1, 0]) = Some out \<and> subseq out (replicate 23 7) \<and> 2 < m + (25 :: nat) \<and>
    out = concat (map (\<lambda>i. concat (take (ks i) (media_block 10 (ReadFromStdin (replicate 25 1) (replicate 23 7)) i))) [0..<m])"
proof -
  let ?bs = "ReadFromStdin (replicate 25 1) (replicate 23 7)"
  obtain w' where w': "PubStream_Accept rfc9000 media_pub sample_world = Some w'" using sample_accept by blast
  have n: "length ?bs div 10 = 2" "length ?bs < 2 ^ 61" by (simp_all add: ReadFromStdin_bytewise)
  have ord: "mset [1, 0] = mset [0..<length ?bs div 10]" unfolding n by (simp add: numeral_2_eq_2 del: mset_upt)
  have "length (replicate 25 (1 :: nat)) < 2 ^ 61" "sorted_wrt (\<lambda>i j :: nat. i < j + 25) [1, 0]" by simp_all
  from media_end_to_end [where opens = "\<lambda>_ _. None", OF rfc.varint_codec_axioms media_pub_fits(1) refl w' this(1) refl ord this(2)]
  obtain groups where pub: "ffmpeg_pub_handleStream rfc9000 (\<lambda>_ _. None) media_pub (replicate 25 1) (replicate 23 7) sample_world = Some (w', groups, None)"
    and sub: "\<forall>subid arrived. (\<forall>i < 2. carried rfc9000 subid (groups ! i) (arrived ! i)) \<longrightarrow> (\<exists>ks out m.
      (\<forall>i < 2. ks i \<le> 10 \<and> handleMOQStream rfc9000 (arrived ! i) = Some (concat (take (ks i) (media_block 10 ?bs i)))) \<and>
      ffmpeg_sub_handleStream rfc9000 (map (\<lambda>i. SGroup (arrived ! i)) [1, 0]) = Some out \<and>
      out = concat (map (\<lambda>i. concat (take (ks i) (media_block 10 ?bs i))) [0..<m]) \<and> m \<le> 2 \<and> 2 < m + 25 \<and>
      subseq out (replicate 23 7) \<and> ((\<forall>i < m. ks i = 10) \<longrightarrow> out = concat (take (m * 10) ?bs) \<and> prefix out (replicate 23 7)))"
    unfolding n by (elim exE conjE) (rule that)
  have run: "ffmpeg_handleStream rfc9000 10 (\<lambda>_ _. None) media_pub 0 0 ?bs = Some (groups, None)"
    using pub w' by (auto simp: ffmpeg_pub_handleStream_def bind_eq_Some_conv)
  let ?arrived = "map (media_group rfc9000 7 media_pub 10 ?bs 10) [0..<2]"
  have "carried rfc9000 7 (groups ! i) (?arrived ! i)" if "i < 2" for i
    using sample_media_carried [OF run zero_less_numeral blocks_small(1) n(2), of i] that unfolding n by (simp del: upt_rec_numeral)
  then have c: "\<forall>i < 2. carried rfc9000 7 (groups ! i) (?arrived ! i)" by blast
  from sub [THEN spec, THEN spec, THEN mp, OF c] show ?thesis
    using pub c by (elim exE conjE) (intro exI conjI, assumption+)
qed

text \<open>Property C27 (a transport stream over sockets). The same from socket to socket, with seven packets of 188 bytes per group, under the
  same conditions: streams open at the first try, those of the \<open>n\<close> full groups are carried to their end without a failed write, and none is overtaken by one
  that is 25 or more ahead. The datagrams that the subscriber sends are the packets that have arrived of the first \<open>m\<close>
  groups, in order, unchanged and none of them twice; no group is reported as wrong; a gap is at the end of a group, and if all seven packets of each
  group have arrived, there is none.\<close>

theorem udp_packets_in_order:
  assumes codec: "varint_codec qv" and pub: "pub_fits stream" and opens: "\<And>g. opens g 0 = None"
    and accept: "PubStream_Accept qv stream w = Some w'" and len: "length data < 2 ^ 61" and bs: "bs = udp_packets data"
    and ord: "mset ord = mset [0..<length bs div 7]" and window: "sorted_wrt (\<lambda>i j. i < j + 25) ord"
  shows "\<exists>groups. udp_pub_handleStream qv opens None None stream data w = Some (w', groups, None) \<and> length groups = Suc (length bs div 7) \<and>
    (\<forall>subid arrived. (\<forall>i < length bs div 7. carried qv subid (groups ! i) (arrived ! i)) \<longrightarrow> (\<exists>ks out m.
      (\<forall>i < length bs div 7. ks i \<le> 7 \<and> handleMOQStream qv (arrived ! i) = Some (concat (take (ks i) (media_block 7 bs i)))) \<and>
      udp_sub_handleStream qv (\<lambda>_. None) (map (\<lambda>i. SGroup (arrived ! i)) ord) =
        Some \<lparr>us_GROUPID = word_of_nat m, us_sent = out, us_wrong = []\<rparr> \<and>
      out = concat (map (\<lambda>i. take (ks i) (media_block 7 bs i)) [0..<m]) \<and> m \<le> length bs div 7 \<and> length bs div 7 < m + 25 \<and>
      subseq out bs \<and> ((\<forall>i < m. ks i = 7) \<longrightarrow> out = take (m * 7) bs)))"
proof -
  let ?n = "length bs div 7"
  have "length bs \<le> length data" unfolding bs by (simp add: length_udp_packets)
  then have len': "length bs < 2 ^ 61" using len by (rule le_less_trans)
  have small: "list_all (\<lambda>b. length b \<le> maxAlloc) bs" unfolding bs by (rule blocks_small(2))
  obtain groups where groups: "ffmpeg_handleStream qv 7 opens stream 0 0 bs = Some (groups, None)" "length groups = Suc ?n"
    and came: "\<forall>subid arrived. (\<forall>i < ?n. carried qv subid (groups ! i) (arrived ! i)) \<longrightarrow>
      (\<exists>ks. \<forall>i < ?n. ks i \<le> 7 \<and> arrived ! i = media_group qv subid stream 7 bs (ks i) i)"
    using varint_codec.media_streams [where opens = opens, OF codec pub opens zero_less_numeral small len'] by blast
  show ?thesis
  proof (intro exI [of _ groups] conjI groups(2) allI impI)
    show "udp_pub_handleStream qv opens None None stream data w = Some (w', groups, None)"
      using accept groups(1) by (simp add: udp_pub_handleStream_def udp_ReadFromStdin_def bs)
    fix subid gss assume "\<forall>i < ?n. carried qv subid (groups ! i) (gss ! i)"
    then obtain ks where ks: "\<And>i. i < ?n \<Longrightarrow> ks i \<le> 7" "\<And>i. i < ?n \<Longrightarrow> gss ! i = media_group qv subid stream 7 bs (ks i) i"
      using came by blast
    have each: "\<forall>i < ?n. ks i \<le> 7 \<and> handleMOQStream qv (gss ! i) = Some (concat (take (ks i) (media_block 7 bs i)))"
      using ks varint_codec.media_written [OF codec small len' block_start] by simp
    obtain out m where "udp_sub_handleStream qv (\<lambda>_. None) (map (\<lambda>i. SGroup (gss ! i)) ord) =
          Some \<lparr>us_GROUPID = word_of_nat m, us_sent = out, us_wrong = []\<rparr>"
        "out = concat (map (\<lambda>i. take (ks i) (media_block 7 bs i)) [0..<m])" "m \<le> ?n" "?n < m + 25"
        "subseq out bs" "(\<forall>i < m. ks i = 7) \<longrightarrow> out = take (m * 7) bs"
      using udp_sub_sends [OF codec bs len' ord window ks(2)] by blast
    then show "\<exists>ks out m.
      (\<forall>i < ?n. ks i \<le> 7 \<and> handleMOQStream qv (gss ! i) = Some (concat (take (ks i) (media_block 7 bs i)))) \<and>
      udp_sub_handleStream qv (\<lambda>_. None) (map (\<lambda>i. SGroup (gss ! i)) ord) =
        Some \<lparr>us_GROUPID = word_of_nat m, us_sent = out, us_wrong = []\<rparr> \<and>
      out = concat (map (\<lambda>i. take (ks i) (media_block 7 bs i)) [0..<m]) \<and> m \<le> ?n \<and> ?n < m + 25 \<and>
      subseq out bs \<and> ((\<forall>i < m. ks i = 7) \<longrightarrow> out = take (m * 7) bs)"
      by (intro exI [of _ ks] exI [of _ out] exI [of _ m] conjI each)
  qed
qed

theorem udp_packets_in_order_witness:
  "\<exists>w' groups arrived out m. (\<forall>i < 3. carried rfc9000 7 (groups ! i) (arrived ! i)) \<and>
    udp_pub_handleStream rfc9000 (\<lambda>_ _. None) None None media_pub (replicate 4000 71) sample_world = Some (w', groups, None) \<and>
    udp_sub_handleStream rfc9000 (\<lambda>_. None) (map (\<lambda>i. SGroup (arrived ! i)) [1, 0, 2]) =
      Some \<lparr>us_GROUPID = word_of_nat m, us_sent = out, us_wrong = []\<rparr> \<and> subseq out (udp_packets (replicate 4000 71)) \<and> 3 < m + (25 :: nat)"
proof -
  let ?data = "replicate 4000 71 :: bytes" and ?bs = "udp_packets (replicate 4000 71)"
  obtain w' where w': "PubStream_Accept rfc9000 media_pub sample_world = Some w'" using sample_accept by blast
  have n: "length ?bs div 7 = 3" "length ?bs < 2 ^ 61" by (simp_all add: length_udp_packets TS_PACKET_def)
  have ord: "mset [1, 0, 2] = mset [0..<length ?bs div 7]" unfolding n by (simp add: numeral_3_eq_3 numeral_2_eq_2 del: mset_upt)
  have "length ?data < 2 ^ 61" "sorted_wrt (\<lambda>i j :: nat. i < j + 25) [1, 0, 2]" by simp_all
  from udp_packets_in_order [where opens = "\<lambda>_ _. None", OF rfc.varint_codec_axioms media_pub_fits(1) refl w' this(1) refl ord this(2)]
  obtain groups where pub: "udp_pub_handleStream rfc9000 (\<lambda>_ _. None) None None media_pub ?data sample_world = Some (w', groups, None)"
    and sub: "\<forall>subid arrived. (\<forall>i < 3. carried rfc9000 subid (groups ! i) (arrived ! i)) \<longrightarrow> (\<exists>ks out m.
      (\<forall>i < 3. ks i \<le> 7 \<and> handleMOQStream rfc9000 (arrived ! i) = Some (concat (take (ks i) (media_block 7 ?bs i)))) \<and>
      udp_sub_handleStream rfc9000 (\<lambda>_. None) (map (\<lambda>i. SGroup (arrived ! i)) [1, 0, 2]) =
        Some \<lparr>us_GROUPID = word_of_nat m, us_sent = out, us_wrong = []\<rparr> \<and>
      out = concat (map (\<lambda>i. take (ks i) (media_block 7 ?bs i)) [0..<m]) \<and> m \<le> 3 \<and> 3 < m + 25 \<and>
      subseq out ?bs \<and> ((\<forall>i < m. ks i = 7) \<longrightarrow> out = take (m * 7) ?bs))"
    unfolding n by (elim exE conjE) (rule that)
  have run: "ffmpeg_handleStream rfc9000 7 (\<lambda>_ _. None) media_pub 0 0 ?bs = Some (groups, None)"
    using pub w' by (auto simp: udp_pub_handleStream_def udp_ReadFromStdin_def bind_eq_Some_conv)
  let ?arrived = "map (media_group rfc9000 7 media_pub 7 ?bs 7) [0..<3]"
  have "carried rfc9000 7 (groups ! i) (?arrived ! i)" if "i < 3" for i
    using sample_media_carried [OF run zero_less_numeral blocks_small(2) n(2), of i] that unfolding n by (simp del: upt_rec_numeral)
  then have c: "\<forall>i < 3. carried rfc9000 7 (groups ! i) (?arrived ! i)" by blast
  from sub [THEN spec, THEN spec, THEN mp, OF c] show ?thesis
    using pub c by (elim exE conjE) (intro exI conjI, assumption+)
qed

end
