(* ===== verification/App_Interface.thy ===== *)
theory App_Interface
  imports Endpoints
begin

text \<open>
  The application interface (\<open>src/moqt/api/pub.go\<close>, \<open>src/moqt/api/sub.go\<close>): an application gives callbacks, and a goroutine that
  \<open>Connect\<close> starts calls them for each value of a channel. The callback is a function on the application's state; \<^const>\<open>None\<close> is a
  panic, and calling a callback that was never set is one. With it, the callbacks of the example programs.

  The goroutine reads the callback when it calls it, and the example programs set it after \<open>Connect\<close> has started the goroutine:
  \<open>early\<close> is the number of values that come before it is set.

  Shown here: each subscription to an announced namespace reaches the application once, in order and with its own names
  and IDs; the media publishers serve all of them, the file publisher no more than one.
\<close>

section \<open>Publishers and subscribers\<close>

record 's MOQPub =
  mp_Options :: DialerOptions
  mp_Relay :: string
  mp_onSubscribeHandler :: "(PubStream \<Rightarrow> 's \<Rightarrow> 's option) option"

definition NewMOQPub :: "DialerOptions \<Rightarrow> string \<Rightarrow> 's MOQPub" where
  "NewMOQPub options relay = \<lparr>mp_Options = options, mp_Relay = relay, mp_onSubscribeHandler = None\<rparr>"

definition MOQPub_OnSubscribe :: "(PubStream \<Rightarrow> 's \<Rightarrow> 's option) \<Rightarrow> 's MOQPub \<Rightarrow> 's MOQPub" where
  "MOQPub_OnSubscribe f pub = pub\<lparr>mp_onSubscribeHandler := Some f\<rparr>"

record 's MOQSub =
  ms_Options :: DialerOptions
  ms_Relay :: string
  ms_onStreamHandler :: "(SubStream \<Rightarrow> 's \<Rightarrow> 's option) option"
  ms_onAnnounceHandler :: "(string \<Rightarrow> 's \<Rightarrow> 's option) option"

definition NewMOQSub :: "DialerOptions \<Rightarrow> string \<Rightarrow> 's MOQSub" where
  "NewMOQSub options relay = \<lparr>ms_Options = options, ms_Relay = relay, ms_onStreamHandler = None, ms_onAnnounceHandler = None\<rparr>"

definition MOQSub_OnStream :: "(SubStream \<Rightarrow> 's \<Rightarrow> 's option) \<Rightarrow> 's MOQSub \<Rightarrow> 's MOQSub" where
  "MOQSub_OnStream f sub = sub\<lparr>ms_onStreamHandler := Some f\<rparr>"

definition MOQSub_OnAnnounce :: "(string \<Rightarrow> 's \<Rightarrow> 's option) \<Rightarrow> 's MOQSub \<Rightarrow> 's MOQSub" where
  "MOQSub_OnAnnounce f sub = sub\<lparr>ms_onAnnounceHandler := Some f\<rparr>"

text \<open>The first part of \<open>Connect\<close>, up to where \<open>Dial\<close> waits; \<open>MOQPub_Connect\<close> and \<open>MOQSub_Connect\<close> are the rest.\<close>

definition MOQPub_Connect_start :: "network \<Rightarrow> 's MOQPub \<Rightarrow> string \<Rightarrow> world \<Rightarrow> ((goerror + ref) \<times> world) option" where
  "MOQPub_Connect_start net pub sid w =
     MOQTDialer_Dial_start net \<lparr>md_Options = mp_Options pub, md_Role = ROLE_PUBLISHER\<rparr> (mp_Relay pub) sid w"

definition MOQSub_Connect_start :: "network \<Rightarrow> 's MOQSub \<Rightarrow> string \<Rightarrow> world \<Rightarrow> ((goerror + ref) \<times> world) option" where
  "MOQSub_Connect_start net sub sid w =
     MOQTDialer_Dial_start net \<lparr>md_Options = ms_Options sub, md_Role = ROLE_SUBSCRIBER\<rparr> (ms_Relay sub) sid w"

section \<open>The goroutines of Connect\<close>

text \<open>\<open>for v := range channel { handler(v) }\<close>\<close>

fun range_chan :: "('a \<Rightarrow> 's \<Rightarrow> 's option) option \<Rightarrow> 'a list \<Rightarrow> 's \<Rightarrow> 's option" where
  "range_chan handler [] st = Some st"
| "range_chan handler (v # vs) st = do {
     f \<leftarrow> handler;
     st \<leftarrow> f v st;
     range_chan handler vs st }"

definition MOQPub_goroutine :: "nat \<Rightarrow> 's MOQPub \<Rightarrow> PubHandler \<Rightarrow> 's \<Rightarrow> 's option" where
  "MOQPub_goroutine early pub h st = do {
     st \<leftarrow> range_chan None (take early (ch_sent (ph_SubscribeChan h))) st;
     range_chan (mp_onSubscribeHandler pub) (drop early (ch_sent (ph_SubscribeChan h))) st }"

definition MOQSub_streams_goroutine :: "nat \<Rightarrow> 's MOQSub \<Rightarrow> SubHandler \<Rightarrow> 's \<Rightarrow> 's option" where
  "MOQSub_streams_goroutine early sub h st = do {
     st \<leftarrow> range_chan None (take early (ch_sent (sh_StreamsChan h))) st;
     range_chan (ms_onStreamHandler sub) (drop early (ch_sent (sh_StreamsChan h))) st }"

definition MOQSub_announce_goroutine :: "nat \<Rightarrow> 's MOQSub \<Rightarrow> SubHandler \<Rightarrow> 's \<Rightarrow> 's option" where
  "MOQSub_announce_goroutine early sub h st = do {
     st \<leftarrow> range_chan None (take early (ch_sent (sh_AnnounceChan h))) st;
     range_chan (ms_onAnnounceHandler sub) (drop early (ch_sent (sh_AnnounceChan h))) st }"

section \<open>Callbacks of the example programs\<close>

text \<open>The media publishers start \<open>handleStream\<close> for each subscription; the state is the list of those started.\<close>

definition media_onSubscribe :: "PubStream \<Rightarrow> PubStream list \<Rightarrow> PubStream list option" where
  "media_onSubscribe ps started = Some (started @ [ps])"

text \<open>The file publisher calls \<open>Done\<close> of the wait group \<open>subscriberReady\<close> first, which panics below zero.\<close>

definition file_onSubscribe :: "PubStream \<Rightarrow> nat \<times> PubStream list \<Rightarrow> (nat \<times> PubStream list) option" where
  "file_onSubscribe ps st = (case st of
      (0, started) \<Rightarrow> None
    | (Suc n, started) \<Rightarrow> Some (n, started @ [ps]))"

text \<open>The file subscriber subscribes to a track of every namespace that is announced.\<close>

definition file_onAnnounce :: "quicvarint \<Rightarrow> ref \<Rightarrow> (string \<Rightarrow> u32) \<Rightarrow> string \<Rightarrow> world \<Rightarrow> world option" where
  "file_onAnnounce qv handler rnd ns w = SubHandler_Subscribe qv handler ns ''dumeel'' 0 (rnd ns) w"

section \<open>The options of the example programs\<close>

text \<open>Fields that a composite literal leaves out are zero.\<close>

definition zero_quic_Config :: quic_Config where
  "zero_quic_Config = \<lparr>EnableDatagrams = False, MaxIncomingUniStreams = 0, MaxIdleTimeout = 0, KeepAlivePeriod = 0\<rparr>"

definition time_Second :: int where "time_Second = 1000000000"

definition time_Hour :: int where "time_Hour = 3600 * time_Second"

definition file_ALPNS :: "string list" where "file_ALPNS = [''moq-00'']"

definition file_RELAY :: string where "file_RELAY = ''127.0.0.1:4443''"

definition file_pub_options :: DialerOptions where
  "file_pub_options = \<lparr>do_QuicConfig = zero_quic_Config\<lparr>EnableDatagrams := True, MaxIncomingUniStreams := 1000, MaxIdleTimeout := time_Hour,
     KeepAlivePeriod := time_Second * 30\<rparr>, do_ALPNs = file_ALPNS, do_InsecureSkipVerify = True\<rparr>"

definition file_sub_options :: DialerOptions where
  "file_sub_options = \<lparr>do_QuicConfig = zero_quic_Config\<lparr>EnableDatagrams := True, MaxIdleTimeout := time_Hour,
     KeepAlivePeriod := time_Second * 30\<rparr>, do_ALPNs = file_ALPNS, do_InsecureSkipVerify = True\<rparr>"

definition ffmpeg_ALPNS :: "string list" where "ffmpeg_ALPNS = [''moq-00'']"

definition ffmpeg_RELAY :: string where "ffmpeg_RELAY = ''localhost:4443''"

definition ffmpeg_pub_options :: DialerOptions where
  "ffmpeg_pub_options = \<lparr>do_QuicConfig = zero_quic_Config\<lparr>EnableDatagrams := True, MaxIncomingUniStreams := 1000\<rparr>,
     do_ALPNs = ffmpeg_ALPNS, do_InsecureSkipVerify = False\<rparr>"

definition ffmpeg_sub_options :: DialerOptions where
  "ffmpeg_sub_options = \<lparr>do_QuicConfig = zero_quic_Config\<lparr>EnableDatagrams := True\<rparr>, do_ALPNs = ffmpeg_ALPNS, do_InsecureSkipVerify = False\<rparr>"

definition udp_ALPNS :: "string list" where "udp_ALPNS = [''moq-00'']"

definition udp_RELAY :: string where "udp_RELAY = ''localhost:4443''"

definition udp_pub_options :: DialerOptions where
  "udp_pub_options = \<lparr>do_QuicConfig = zero_quic_Config\<lparr>EnableDatagrams := True, MaxIncomingUniStreams := 1000\<rparr>,
     do_ALPNs = udp_ALPNS, do_InsecureSkipVerify = False\<rparr>"

definition udp_sub_options :: DialerOptions where
  "udp_sub_options = \<lparr>do_QuicConfig = zero_quic_Config\<lparr>EnableDatagrams := True\<rparr>, do_ALPNs = udp_ALPNS, do_InsecureSkipVerify = False\<rparr>"

text \<open>The connections of the example programs.\<close>

definition file_pub_connect :: "network \<Rightarrow> string \<Rightarrow> world \<Rightarrow> ((goerror + ref) \<times> world) option" where
  "file_pub_connect net = MOQPub_Connect_start net (NewMOQPub file_pub_options file_RELAY :: unit MOQPub)"

definition file_sub_connect :: "network \<Rightarrow> string \<Rightarrow> world \<Rightarrow> ((goerror + ref) \<times> world) option" where
  "file_sub_connect net = MOQSub_Connect_start net (NewMOQSub file_sub_options file_RELAY :: unit MOQSub)"

definition ffmpeg_pub_connect :: "network \<Rightarrow> string \<Rightarrow> world \<Rightarrow> ((goerror + ref) \<times> world) option" where
  "ffmpeg_pub_connect net = MOQPub_Connect_start net (NewMOQPub ffmpeg_pub_options ffmpeg_RELAY :: unit MOQPub)"

definition ffmpeg_sub_connect :: "network \<Rightarrow> string \<Rightarrow> world \<Rightarrow> ((goerror + ref) \<times> world) option" where
  "ffmpeg_sub_connect net = MOQSub_Connect_start net (NewMOQSub ffmpeg_sub_options ffmpeg_RELAY :: unit MOQSub)"

definition udp_pub_connect :: "network \<Rightarrow> string \<Rightarrow> world \<Rightarrow> ((goerror + ref) \<times> world) option" where
  "udp_pub_connect net = MOQPub_Connect_start net (NewMOQPub udp_pub_options udp_RELAY :: unit MOQPub)"

definition udp_sub_connect :: "network \<Rightarrow> string \<Rightarrow> world \<Rightarrow> ((goerror + ref) \<times> world) option" where
  "udp_sub_connect net = MOQSub_Connect_start net (NewMOQSub udp_sub_options udp_RELAY :: unit MOQSub)"

text \<open>The relay's program: flags and environment are its arguments.\<close>

record relay_flags =
  rf_port :: int
  rf_KEYPATH :: string
  rf_CERTPATH :: string

definition relay_PORT :: int where "relay_PORT = 4443"

definition relay_ALPNS :: "string list" where "relay_ALPNS = [''h3'', ''moq-00'']"

definition relay_flags_default :: "string \<Rightarrow> string \<Rightarrow> relay_flags" where
  "relay_flags_default ENVKEYPATH ENVCERTPATH = \<lparr>rf_port = relay_PORT, rf_KEYPATH = ENVKEYPATH, rf_CERTPATH = ENVCERTPATH\<rparr>"

definition relay_options :: "relay_flags \<Rightarrow> ListenerOptions" where
  "relay_options flags = \<lparr>lo_ListenAddr = ''0.0.0.0:'' @ Itoa (rf_port flags), lo_CertPath = rf_CERTPATH flags, lo_KeyPath = rf_KEYPATH flags,
     lo_ALPNs = relay_ALPNS, lo_QuicConfig = \<lparr>EnableDatagrams = True, MaxIncomingUniStreams = 100000, MaxIdleTimeout = time_Hour,
       KeepAlivePeriod = time_Second * 30\<rparr>\<rparr>"

definition relay_main ::
  "quicvarint \<Rightarrow> qpack \<Rightarrow> (string \<Rightarrow> goerror + 'u) \<Rightarrow> network \<Rightarrow> relay_flags \<Rightarrow> (goerror + incoming) list \<Rightarrow> string list \<times> listener
    \<Rightarrow> (string list \<times> listener \<times> goerror option) option" where
  "relay_main qv qp parse_uri net flags evs st =
     MOQRelay_Run qv qp parse_uri net (NewMOQTRelay (relay_options flags) []) evs st"

section \<open>The main functions, from the result of Dial on\<close>

text \<open>Flags, logging and options come before; afterwards \<open>main\<close> waits for a context that is never cancelled.\<close>

definition pub_main :: "quicvarint \<Rightarrow> string \<Rightarrow> goerror + ref \<Rightarrow> world \<Rightarrow> world option" where
  "pub_main qv ns session_or_err w = do {
     handler \<leftarrow> MOQPub_Connect session_or_err w;
     case (handler, session_or_err) of
       (Inr _, Inr session) \<Rightarrow> PubHandler_SendAnnounce qv session ns w
     | _ \<Rightarrow> Some w }"

definition sub_main :: "quicvarint \<Rightarrow> string \<Rightarrow> string \<Rightarrow> u32 \<Rightarrow> goerror + ref \<Rightarrow> world \<Rightarrow> world option" where
  "sub_main qv ns name rnd session_or_err w = do {
     handler \<leftarrow> MOQSub_Connect session_or_err w;
     case (handler, session_or_err) of
       (Inr _, Inr session) \<Rightarrow> SubHandler_Subscribe qv session ns name 0 rnd w
     | _ \<Rightarrow> Some w }"

definition file_pub_main :: "quicvarint \<Rightarrow> goerror + ref \<Rightarrow> world \<Rightarrow> world option" where
  "file_pub_main qv = pub_main qv ''bbb''"

definition ffmpeg_pub_main :: "quicvarint \<Rightarrow> goerror + ref \<Rightarrow> world \<Rightarrow> world option" where
  "ffmpeg_pub_main qv = pub_main qv ''ffmpegtest''"

definition udp_pub_main :: "quicvarint \<Rightarrow> goerror + ref \<Rightarrow> world \<Rightarrow> world option" where
  "udp_pub_main qv = pub_main qv ''ffmpegtest''"

definition file_sub_main :: "quicvarint \<Rightarrow> u32 \<Rightarrow> goerror + ref \<Rightarrow> world \<Rightarrow> world option" where
  "file_sub_main qv = sub_main qv ''bbb'' ''dumeel''"

definition ffmpeg_sub_main :: "quicvarint \<Rightarrow> u32 \<Rightarrow> goerror + ref \<Rightarrow> world \<Rightarrow> world option" where
  "ffmpeg_sub_main qv = sub_main qv ''ffmpegtest'' ''teststream''"

definition udp_sub_main :: "quicvarint \<Rightarrow> u32 \<Rightarrow> goerror + ref \<Rightarrow> world \<Rightarrow> world option" where
  "udp_sub_main qv = sub_main qv ''ffmpegtest'' ''teststream''"

section \<open>Lemmas\<close>

fun HandleSubscribes :: "ref \<Rightarrow> Subscribe list \<Rightarrow> world \<Rightarrow> world option" where
  "HandleSubscribes pub [] w = Some w"
| "HandleSubscribes pub (msg # msgs) w = do {
     w \<leftarrow> PubHandler_HandleSubscribe pub msg w;
     HandleSubscribes pub msgs w }"

definition subscription :: "ref \<Rightarrow> Subscribe \<Rightarrow> PubStream" where
  "subscription pub msg = \<lparr>ps_session = pub, ps_StreamID = sub_TrackNameSpace msg @ ''_'' @ sub_TrackName msg, ps_SubID = sub_SubscribeID msg,
     ps_Namespace = sub_TrackNameSpace msg, ps_TrackName = sub_TrackName msg, ps_Alias = sub_TrackAlias msg, ps_GroupCounter = 0\<rparr>"

lemma HandleSubscribe_step:
  assumes "get_pub w pub = Some ph" and "\<not> ch_closed (ph_SubscribeChan ph)"
    and "gomap_get (ph_AnnouncedStreams ph) (sub_TrackNameSpace msg) \<noteq> None"
  shows "\<exists>w' ph'. PubHandler_HandleSubscribe pub msg w = Some w' \<and> get_pub w' pub = Some ph' \<and> \<not> ch_closed (ph_SubscribeChan ph') \<and>
    dom (gomap_get (ph_AnnouncedStreams ph')) = dom (gomap_get (ph_AnnouncedStreams ph)) \<and>
    ch_sent (ph_SubscribeChan ph') = ch_sent (ph_SubscribeChan ph) @ [subscription pub msg]"
proof -
  obtain s where s: "w_sess w pub = Some s" "session_PubHandler s = Some ph"
    using assms(1) by (auto simp: get_pub_def bind_eq_Some_conv)
  obtain smap where "gomap_get (ph_AnnouncedStreams ph) (sub_TrackNameSpace msg) = Some smap" using assms(3) by blast
  then show ?thesis using assms(1,2) s
    by (auto simp: PubHandler_HandleSubscribe_def chan_send_def put_handler_def get_pub_def put_sess_def session_PubHandler_def
        NewPubStream_def subscription_def Subscribe_GetStreamID_def gomap_simps Let_def split: if_splits)
qed

lemma HandleSubscribes_result:
  assumes "get_pub w pub = Some ph" and "\<not> ch_closed (ph_SubscribeChan ph)"
    and "\<And>msg. msg \<in> set msgs \<Longrightarrow> gomap_get (ph_AnnouncedStreams ph) (sub_TrackNameSpace msg) \<noteq> None"
  shows "\<exists>w' ph'. HandleSubscribes pub msgs w = Some w' \<and> get_pub w' pub = Some ph' \<and>
    ch_sent (ph_SubscribeChan ph') = ch_sent (ph_SubscribeChan ph) @ map (subscription pub) msgs"
  using assms
proof (induction msgs arbitrary: w ph)
  case (Cons msg msgs)
  obtain w1 ph1 where 1: "PubHandler_HandleSubscribe pub msg w = Some w1" "get_pub w1 pub = Some ph1" "\<not> ch_closed (ph_SubscribeChan ph1)"
      "dom (gomap_get (ph_AnnouncedStreams ph1)) = dom (gomap_get (ph_AnnouncedStreams ph))"
      "ch_sent (ph_SubscribeChan ph1) = ch_sent (ph_SubscribeChan ph) @ [subscription pub msg]"
    using HandleSubscribe_step [OF Cons.prems(1,2), of msg] Cons.prems(3) by auto
  have "gomap_get (ph_AnnouncedStreams ph1) (sub_TrackNameSpace m) \<noteq> None" if "m \<in> set msgs" for m
    using Cons.prems(3) [of m] that 1(4) by (metis domIff list.set_intros(2))
  from Cons.IH [OF 1(2,3) this] show ?case using 1(1,5) by auto
qed auto

lemma range_media: "range_chan (Some media_onSubscribe) ss started = Some (started @ ss)"
  by (induction ss arbitrary: started) (simp_all add: media_onSubscribe_def)

lemma range_file: "range_chan (Some file_onSubscribe) ss (n, started) = (if length ss \<le> n then Some (n - length ss, started @ ss) else None)"
  by (induction ss arbitrary: n started) (auto simp: file_onSubscribe_def split: nat.splits)

lemma range_nil: "range_chan None vs st = (if vs = [] then Some st else None)"
  by (cases vs) simp_all

section \<open>The programs together\<close>

text \<open>How the TLS server of Go chooses the protocol of a QUIC connection: the first of its own that the client offers.\<close>

definition negotiateALPN :: "string list \<Rightarrow> string list \<Rightarrow> goerror + string" where
  "negotiateALPN serverProtos clientProtos =
    (if serverProtos = [] then Inr ''''
     else if clientProtos = [] then Inl (Errorf ''tls: client did not request an application protocol'')
     else (case filter (\<lambda>s. s \<in> set clientProtos) serverProtos of
         [] \<Rightarrow> Inl (Errorf ''tls: client requested unsupported application protocols'')
       | s # _ \<Rightarrow> Inr s))"

definition example_clients :: "(string \<times> DialerOptions) list" where
  "example_clients = [(file_RELAY, file_pub_options), (file_RELAY, file_sub_options), (ffmpeg_RELAY, ffmpeg_pub_options),
     (ffmpeg_RELAY, ffmpeg_sub_options), (udp_RELAY, udp_pub_options), (udp_RELAY, udp_sub_options)]"

lemmas example_defs = file_pub_options_def file_sub_options_def ffmpeg_pub_options_def ffmpeg_sub_options_def udp_pub_options_def
  udp_sub_options_def file_ALPNS_def ffmpeg_ALPNS_def udp_ALPNS_def file_RELAY_def ffmpeg_RELAY_def udp_RELAY_def

lemma example_alpn: "(addr, opts) \<in> set example_clients \<Longrightarrow> negotiateALPN (lo_ALPNs (relay_options flags)) (do_ALPNs opts) = Inr ''moq-00''"
  by (auto simp: example_clients_def negotiateALPN_def relay_options_def relay_ALPNS_def example_defs)

lemma Itoa_PORT: "Itoa relay_PORT = ''4443''"
  by (simp add: relay_PORT_def Itoa_def nat_digits.simps char_of_def bit_iff_odd)

lemma example_port: "(addr, opts) \<in> set example_clients \<Longrightarrow> \<exists>host. addr = host @ '':'' @ Itoa relay_PORT"
  by (auto simp: example_clients_def example_defs Itoa_PORT)

lemma relay_main_result:
  assumes "LoadX509KeyPair net (rf_CERTPATH flags) (rf_KEYPATH flags) = None"
    and "ListenAddr net (lo_ListenAddr (relay_options flags)) relay_ALPNS (lo_QuicConfig (relay_options flags)) = None"
    and "''/'' \<notin> set mux" and "''/moqt'' \<notin> set mux"
  shows "relay_main qv qp parse_uri net flags evs (mux, l) =
    map_option (\<lambda>(l, _). ([''/moqt'', ''/''] @ mux, l, None)) (Listen_loop qv qp parse_uri ROLE_RELAY evs l)"
proof -
  have o: "lo_CertPath (relay_options flags) = rf_CERTPATH flags" "lo_KeyPath (relay_options flags) = rf_KEYPATH flags"
    "lo_ALPNs (relay_options flags) = relay_ALPNS" by (simp_all add: relay_options_def)
  show ?thesis using assms
    by (cases "Listen_loop qv qp parse_uri ROLE_RELAY evs l") (auto simp: relay_main_def MOQRelay_Run_def NewMOQTRelay_def Listen_def http_Handle_def o)
qed

text \<open>An example program creates its session, in client mode and with its own role, exactly when its connection is dialed.\<close>

lemma example_connects:
  assumes "\<And>opts addr. (addr, opts) \<in> set example_clients \<Longrightarrow> DialAddr net addr (do_ALPNs opts) (do_InsecureSkipVerify opts) (do_QuicConfig opts) = None"
  shows "connect \<in> {file_pub_connect net, ffmpeg_pub_connect net, udp_pub_connect net} \<Longrightarrow>
      connect sid w = Some (Inr (w_next_sess w), dialed sid ROLE_PUBLISHER (HPub NewPubHandler) w)"
    and "connect \<in> {file_sub_connect net, ffmpeg_sub_connect net, udp_sub_connect net} \<Longrightarrow>
      connect sid w = Some (Inr (w_next_sess w), dialed sid ROLE_SUBSCRIBER (HSub NewSubHandler) w)"
  using assms [of file_RELAY file_pub_options] assms [of file_RELAY file_sub_options] assms [of ffmpeg_RELAY ffmpeg_pub_options]
    assms [of ffmpeg_RELAY ffmpeg_sub_options] assms [of udp_RELAY udp_pub_options] assms [of udp_RELAY udp_sub_options]
  by (auto simp: example_clients_def file_pub_connect_def file_sub_connect_def ffmpeg_pub_connect_def ffmpeg_sub_connect_def udp_pub_connect_def
      udp_sub_connect_def MOQPub_Connect_start_def MOQSub_Connect_start_def NewMOQPub_def NewMOQSub_def MOQTDialer_Dial_start_def CreateNewHandler_def
      ROLE_PUBLISHER_def ROLE_SUBSCRIBER_def ROLE_RELAY_def Let_def intro!: Dial_start_result(1))

text \<open>A relay without certificates serves nobody, and \<open>Run\<close> reports no error. A second relay in the same process panics.\<close>

lemma relay_main_failures:
  "LoadX509KeyPair net (rf_CERTPATH flags) (rf_KEYPATH flags) = Some err \<Longrightarrow> relay_main qv qp parse_uri net flags evs (mux, l) = Some (mux, l, None)"
  "LoadX509KeyPair net (rf_CERTPATH flags) (rf_KEYPATH flags) = None \<Longrightarrow>
   ListenAddr net (lo_ListenAddr (relay_options flags)) relay_ALPNS (lo_QuicConfig (relay_options flags)) = None \<Longrightarrow>
   ''/'' \<in> set mux \<Longrightarrow> relay_main qv qp parse_uri net flags evs (mux, l) = None"
  by (simp_all add: relay_main_def MOQRelay_Run_def NewMOQTRelay_def Listen_def http_Handle_def relay_options_def Let_def)

section \<open>Properties\<close>

text \<open>Property C32 (subscriptions reach the application). A publisher with an open channel handles any subscriptions to namespaces that it
  has announced. Then its application's callback gets, for each of them in turn, the stream with the names, the ID and the alias
  of the request. The media publishers start one \<open>handleStream\<close> for each. The file publisher, whose callback counts down a wait
  group that starts at one, serves a single subscription and panics at a second one. A publisher panics at any subscription that
  comes before its callback is set.\<close>

theorem subscriptions_reach_application:
  assumes "get_pub w pub = Some ph" and "ph_SubscribeChan ph = make_chan"
    and "\<And>msg. msg \<in> set msgs \<Longrightarrow> gomap_get (ph_AnnouncedStreams ph) (sub_TrackNameSpace msg) \<noteq> None"
  shows "\<exists>w' ph'. HandleSubscribes pub msgs w = Some w' \<and> get_pub w' pub = Some ph' \<and>
    MOQPub_goroutine 0 (MOQPub_OnSubscribe media_onSubscribe (NewMOQPub options relay)) ph' [] = Some (map (subscription pub) msgs) \<and>
    MOQPub_goroutine 0 (MOQPub_OnSubscribe file_onSubscribe (NewMOQPub options relay)) ph' (1, []) =
      (if length msgs \<le> 1 then Some (1 - length msgs, map (subscription pub) msgs) else None) \<and>
    (0 < early \<and> msgs \<noteq> [] \<longrightarrow> MOQPub_goroutine early (MOQPub_OnSubscribe media_onSubscribe (NewMOQPub options relay)) ph' [] = None)"
proof -
  obtain w' ph' where "HandleSubscribes pub msgs w = Some w'" "get_pub w' pub = Some ph'"
      "ch_sent (ph_SubscribeChan ph') = map (subscription pub) msgs"
    using HandleSubscribes_result [where msgs = msgs, OF assms(1) _ assms(3)] assms(2) by (auto simp: make_chan_def)
  then show ?thesis
    by (auto simp: MOQPub_goroutine_def MOQPub_OnSubscribe_def NewMOQPub_def range_media range_file range_nil)
qed

theorem subscriptions_reach_application_witness:
  "\<exists>w' ph'. HandleSubscribes 0 [sample_sub, sample_sub]
      (put_sess 0 ((sample_session ''p'' ROLE_RELAY)\<lparr>s_Handler := HPub (NewPubHandler\<lparr>ph_AnnouncedStreams := [(''live'', NewStreamsMap)]\<rparr>)\<rparr>) world_start)
        = Some w' \<and> get_pub w' 0 = Some ph' \<and>
    MOQPub_goroutine 0 (MOQPub_OnSubscribe media_onSubscribe (NewMOQPub file_pub_options ''relay'')) ph' [] = Some [subscription 0 sample_sub, subscription 0 sample_sub] \<and>
    MOQPub_goroutine 0 (MOQPub_OnSubscribe file_onSubscribe (NewMOQPub file_pub_options ''relay'')) ph' (1, []) = None"
proof -
  let ?ph = "NewPubHandler\<lparr>ph_AnnouncedStreams := [(''live'', NewStreamsMap)]\<rparr>"
  let ?w = "put_sess 0 ((sample_session ''p'' ROLE_RELAY)\<lparr>s_Handler := HPub ?ph\<rparr>) world_start"
  have 1: "get_pub ?w 0 = Some ?ph" "ph_SubscribeChan ?ph = make_chan"
    by (simp_all add: get_pub_def put_sess_def session_PubHandler_def NewPubHandler_def)
  have 2: "gomap_get (ph_AnnouncedStreams ?ph) (sub_TrackNameSpace msg) \<noteq> None" if "msg \<in> set [sample_sub, sample_sub]" for msg
    using that by (simp add: sample_sub_def)
  from subscriptions_reach_application [where msgs = "[sample_sub, sample_sub]" and options = file_pub_options and relay = "''relay''" and early = 0, OF 1 2]
  obtain w' ph' where "HandleSubscribes 0 [sample_sub, sample_sub] ?w = Some w'" "get_pub w' 0 = Some ph'"
    "MOQPub_goroutine 0 (MOQPub_OnSubscribe media_onSubscribe (NewMOQPub file_pub_options ''relay'')) ph' [] = Some (map (subscription 0) [sample_sub, sample_sub])"
    "MOQPub_goroutine 0 (MOQPub_OnSubscribe file_onSubscribe (NewMOQPub file_pub_options ''relay'')) ph' (1, []) = None" by auto
  then show ?thesis by (intro exI [of _ w'] exI [of _ ph'] conjI) simp_all
qed

text \<open>Property C31 (the relay's program serves the example programs). The relay program, with certificates that load and an address
  that is free, accepts any number of connections of the example publishers and subscribers, whose protocol was negotiated between
  the options of the two programs. All of these negotiate plain MOQ: each connection gets a session of its own, with the relay's
  handler and in server mode, and none is refused or taken for WebTransport. With the default flags the relay listens on the port that
  all of them dial.\<close>

theorem relay_program_serves_examples:
  assumes "LoadX509KeyPair net (rf_CERTPATH flags) (rf_KEYPATH flags) = None"
    and "ListenAddr net (lo_ListenAddr (relay_options flags)) relay_ALPNS (lo_QuicConfig (relay_options flags)) = None"
    and "''/'' \<notin> set mux" and "''/moqt'' \<notin> set mux"
    and "\<And>c. c \<in> set conns \<Longrightarrow> \<exists>(addr, opts) \<in> set example_clients. negotiateALPN (lo_ALPNs (relay_options flags)) (do_ALPNs opts) = Inr (in_alpn c)"
  shows "\<exists>l'. relay_main qv qp parse_uri net flags (map Inr conns) (mux, l) = Some ([''/moqt'', ''/''] @ mux, l', None) \<and>
    (\<forall>i < length conns. w_sess (l_world l') (w_next_sess (l_world l) + i) =
      Some (new_session (in_id (conns ! i)) ROLE_RELAY SERVER_MODE (HRelay NewRelayHandler))) \<and>
    l_refused l' = l_refused l \<and> l_handlers l' = l_handlers l \<and>
    (flags = relay_flags_default key cert \<longrightarrow> lo_ListenAddr (relay_options flags) = ''0.0.0.0:4443'' \<and>
      (\<forall>(addr, opts) \<in> set example_clients. \<exists>host. addr = host @ '':4443''))"
proof -
  have moq: "is_moq c" if "c \<in> set conns" for c
    using assms(5) [OF that] example_alpn [of _ _ flags] by (fastforce simp: is_moq_def)
  then have f: "filter is_moq conns = conns" "filter is_h3 conns = []" "filter (\<lambda>c. \<not> is_moq c \<and> \<not> is_h3 c) conns = []"
    by (auto simp: filter_id_conv filter_empty_conv)
  have h: "CreateNewHandler ROLE_RELAY = Inr (HRelay NewRelayHandler)" by (simp add: CreateNewHandler_def)
  let ?l = "\<lparr>l_world = served ROLE_RELAY (HRelay NewRelayHandler) (map in_id conns) (l_world l), l_handlers = l_handlers l, l_refused = l_refused l\<rparr>"
  have "Listen_loop qv qp parse_uri ROLE_RELAY (map Inr conns @ []) l = Listen_loop qv qp parse_uri ROLE_RELAY [] ?l"
    using Listen_loop_result [where evs = "[]" and conns = conns and l = l and qv = qv and qp = qp and parse_uri = parse_uri, OF h] moq
    by (auto simp: f)
  then have "relay_main qv qp parse_uri net flags (map Inr conns) (mux, l) = Some ([''/moqt'', ''/''] @ mux, ?l, None)"
    by (simp add: relay_main_result [OF assms(1-4)])
  moreover have "\<forall>(addr, opts) \<in> set example_clients. \<exists>host. addr = host @ '':4443''" using example_port by (fastforce simp: Itoa_PORT)
  ultimately show ?thesis
    by (intro exI [of _ ?l]) (auto simp: served_new relay_options_def relay_flags_default_def Itoa_PORT)
qed

theorem relay_program_serves_examples_witness:
  "\<exists>l'. relay_main rfc9000 qpack_literal (Inr :: string \<Rightarrow> goerror + string)
      \<lparr>LoadX509KeyPair = (\<lambda>_ _. None), ListenAddr = (\<lambda>_ _ _. None), DialAddr = (\<lambda>_ _ _ _. None)\<rparr> (relay_flags_default ''key'' ''cert'')
      (map Inr [sample_conns ! 0]) ([], \<lparr>l_world = world_start, l_handlers = [], l_refused = []\<rparr>) = Some ([''/moqt'', ''/''], l', None) \<and>
    w_sess (l_world l') 0 = Some (new_session ''a'' ROLE_RELAY SERVER_MODE (HRelay NewRelayHandler)) \<and> l_refused l' = []"
proof -
  let ?net = "\<lparr>LoadX509KeyPair = (\<lambda>_ _. None), ListenAddr = (\<lambda>_ _ _. None), DialAddr = (\<lambda>_ _ _ _. None)\<rparr> :: network"
  let ?fl = "relay_flags_default ''key'' ''cert''"
  have n: "LoadX509KeyPair ?net (rf_CERTPATH ?fl) (rf_KEYPATH ?fl) = None"
    "ListenAddr ?net (lo_ListenAddr (relay_options ?fl)) relay_ALPNS (lo_QuicConfig (relay_options ?fl)) = None"
    "''/'' \<notin> set []" "''/moqt'' \<notin> set []" by simp_all
  have c: "\<exists>(addr, opts) \<in> set example_clients. negotiateALPN (lo_ALPNs (relay_options ?fl)) (do_ALPNs opts) = Inr (in_alpn c)"
    if "c \<in> set [sample_conns ! 0]" for c
    using that example_alpn [of file_RELAY file_pub_options ?fl] by (auto simp: sample_conns_def example_clients_def)
  from relay_program_serves_examples [where conns = "[sample_conns ! 0]" and flags = ?fl and net = ?net and key = "''key''" and cert = "''cert''"
      and l = "\<lparr>l_world = world_start, l_handlers = [], l_refused = []\<rparr>" and qv = rfc9000 and qp = qpack_literal
      and parse_uri = "Inr :: string \<Rightarrow> goerror + string", OF n c]
  show ?thesis by (auto simp: sample_conns_def world_start_def)
qed

end
