(* ===== verification/End_To_End.thy ===== *)
theory End_To_End
  imports App_Interface Stream_Goroutines
begin

text \<open>
  Three processes together: a publisher, a relay and a subscriber, each with a \<open>world\<close> of its own, that exchange control messages
  over the wire.

  Shown here: an announcement travels from the publisher's program through the relay to the subscriber's program; a subscription travels from the subscriber through the relay to the publisher's application, and the answer back to
  the subscriber's application, with the IDs that each side has chosen; and, while no write fails, the objects of a group travel from the publisher's application through
  the goroutines of the relay to the application of every subscriber.
\<close>

section \<open>One side at a time\<close>

definition subscribe_request :: "string \<Rightarrow> string \<Rightarrow> u64 \<Rightarrow> u32 \<Rightarrow> Subscribe" where
  "subscribe_request ns name alias rnd = zero_Subscribe\<lparr>sub_SubscribeID := ucast rnd, sub_TrackAlias := alias, sub_TrackName := name,
     sub_TrackNameSpace := ns, sub_FilterType := LatestGroup\<rparr>"

definition subscribe_answer :: "u32 \<Rightarrow> SubscribeOk" where
  "subscribe_answer rnd = zero_SubscribeOk\<lparr>subok_SubscribeID := ucast rnd, subok_Expires := 1024, subok_ContentExists := 0\<rparr>"

lemma filter_fits: "fits62 LatestGroup" "fits62 0"
  by (simp_all add: fits62_def LatestGroup_def)

lemma subscribe_request_faithful:
  assumes "string_ok ns" and "string_ok name" and "fits62 alias"
  shows "faithful (MsgSubscribe (subscribe_request ns name alias rnd))"
    and "faithful (MsgSubscribe ((subscribe_request ns name alias rnd)\<lparr>sub_SubscribeID := ucast (rnd' :: u32)\<rparr>))"
  using assms by (simp_all add: faithful_def subscribe_request_def zero_Subscribe_def has_start_def has_end_def filter_fits)

lemma subscribe_answer_faithful: "faithful (MsgSubscribeOk (subscribe_answer rnd))"
proof -
  have "fits62 1024" "fits62 0" by (simp_all add: fits62_def)
  then show ?thesis by (simp add: faithful_def subscribe_answer_def zero_SubscribeOk_def)
qed

context varint_codec
begin

text \<open>A message that is written to an open control stream.\<close>

lemma write_result:
  assumes "world_ok w" and "has_cs w r" and "message_ok msg"
  shows "\<exists>s cs. w_sess w r = Some s \<and> s_CS s = Some cs \<and>
    WriteControlMessage qv r msg w = Some (put_sess r (s\<lparr>s_CS := Some (cs\<lparr>cs_sent := cs_sent cs @ [msg]\<rparr>)\<rparr>) w)"
proof -
  obtain s cs where s: "w_sess w r = Some s" "s_CS s = Some cs" using assms(2) by (auto simp: has_cs_def)
  have "session_ok w r s" using assms(1) s(1) by (rule world_okD)
  then have "cs_stream cs" using s(2) by (simp add: session_ok_def)
  then show ?thesis using s message_GetBytes_total [OF assms(3)] by (auto simp: WriteControlMessage_def)
qed

lemma Subscribe_sent:
  assumes "world_ok w" and "has_cs w s" and "get_sub w s = Some sh" and "string_ok ns" and "string_ok name" and "fits62 alias"
  shows "\<exists>w' ss sh'. SubHandler_Subscribe qv s ns name alias rnd w = Some w' \<and>
    sent w' s = sent w s @ [MsgSubscribe (subscribe_request ns name alias rnd)] \<and> get_sub w' s = Some sh' \<and>
    SubIDGetStream (sh_SubscribedStreams sh') (ucast rnd) = Some ss \<and> ss_StreamID ss = ns @ ''_'' @ name \<and> ss_SubID ss = ucast rnd \<and>
    sh_StreamsChan sh' = sh_StreamsChan sh"
proof -
  have "message_ok (MsgSubscribe (subscribe_request ns name alias rnd))"
    using subscribe_request_faithful(1) [OF assms(4-6)] by (simp add: faithful_def)
  from write_result [OF assms(1,2) this] obtain t cs where t: "w_sess w s = Some t" "s_CS t = Some cs"
    "WriteControlMessage qv s (MsgSubscribe (subscribe_request ns name alias rnd)) w =
       Some (put_sess s (t\<lparr>s_CS := Some (cs\<lparr>cs_sent := cs_sent cs @ [MsgSubscribe (subscribe_request ns name alias rnd)]\<rparr>)\<rparr>) w)" by blast
  moreover have "session_SubHandler t = Some sh" using assms(3) t(1) by (simp add: get_sub_def)
  ultimately show ?thesis
    by (simp add: SubHandler_Subscribe_def flip: subscribe_request_def)
      (auto simp: NewSubStream_def get_sub_def put_handler_def put_sess_def session_SubHandler_def sent_def SubIDGetStream_def
        AddStream_def gomap_simps subscribe_request_def Subscribe_GetStreamID_def Let_def)
qed

lemma Accept_sent:
  assumes "world_ok w" and "has_cs w (ps_session ps)" and "ps_SubID ps = ucast (rnd :: u32)"
  shows "\<exists>w'. PubStream_Accept qv ps w = Some w' \<and> sent w' (ps_session ps) = sent w (ps_session ps) @ [MsgSubscribeOk (subscribe_answer rnd)]"
proof -
  have "message_ok (MsgSubscribeOk (subscribe_answer rnd))" using subscribe_answer_faithful [of rnd] by (simp add: faithful_def)
  from write_result [OF assms(1,2) this] show ?thesis using assms(3)
    by (auto simp: PubStream_Accept_def subscribe_ok_msg_def subscribe_answer_def sent_def put_sess_def)
qed

end

lemma HandleSubscribeOk_delivers:
  assumes "get_sub w s = Some sh" and "SubIDGetStream (sh_SubscribedStreams sh) (subok_SubscribeID msg) = Some ss"
    and "\<not> ch_closed (sh_StreamsChan sh)"
  shows "\<exists>w' sh'. SubHandler_HandleSubscribeOk s msg w = Some w' \<and> get_sub w' s = Some sh' \<and>
    ch_sent (sh_StreamsChan sh') = ch_sent (sh_StreamsChan sh) @ [ss]"
proof -
  obtain t where "w_sess w s = Some t" "session_SubHandler t = Some sh" using assms(1) by (auto simp: get_sub_def bind_eq_Some_conv)
  then show ?thesis using assms
    by (auto simp: SubHandler_HandleSubscribeOk_def chan_send_def put_handler_def get_sub_def put_sess_def session_SubHandler_def)
qed

section \<open>The announcement\<close>

lemma announce_faithful: "string_ok ns \<Longrightarrow> faithful (announce_msg ns)"
  by (simp add: announce_msg_def faithful_def zero_Announce_def)

context varint_codec
begin

lemma SendAnnounce_sent:
  assumes "world_ok w" and "has_cs w p" and "get_pub w p = Some ph" and "string_ok ns"
  shows "\<exists>w' ph'. PubHandler_SendAnnounce qv p ns w = Some w' \<and> sent w' p = sent w p @ [announce_msg ns] \<and> get_pub w' p = Some ph' \<and>
    gomap_get (ph_AnnouncedStreams ph') ns \<noteq> None \<and> ph_SubscribeChan ph' = ph_SubscribeChan ph"
proof -
  have "message_ok (announce_msg ns)" using announce_faithful [OF assms(4)] by (simp add: faithful_def)
  from write_result [OF assms(1,2) this] obtain t cs where t: "w_sess w p = Some t" "s_CS t = Some cs"
    "WriteControlMessage qv p (announce_msg ns) w = Some (put_sess p (t\<lparr>s_CS := Some (cs\<lparr>cs_sent := cs_sent cs @ [announce_msg ns]\<rparr>)\<rparr>) w)"
    by blast
  moreover have "session_PubHandler t = Some ph" using assms(3) t(1) by (simp add: get_pub_def)
  ultimately show ?thesis
    by (auto simp: PubHandler_SendAnnounce_def get_pub_def put_handler_def put_sess_def session_PubHandler_def sent_def gomap_simps)
qed

lemma HandleAnnounce_delivers:
  assumes "world_ok w" and "has_cs w s" and "get_sub w s = Some sh" and "sh_AnnounceChan sh = make_chan"
  shows "\<exists>w' sh'. SubHandler_HandleAnnounce s msg w = Some w' \<and> get_sub w' s = Some sh' \<and> ch_sent (sh_AnnounceChan sh') = [ann_TrackNameSpace msg] \<and>
    sent w' s = sent w s"
proof -
  obtain t where "w_sess w s = Some t" "session_SubHandler t = Some sh" using assms(3) by (auto simp: get_sub_def bind_eq_Some_conv)
  then show ?thesis using assms(3,4)
    by (auto simp: SubHandler_HandleAnnounce_def chan_send_def make_chan_def put_handler_def get_sub_def put_sess_def session_SubHandler_def sent_def)
qed

end

section \<open>The subscription\<close>

text \<open>Property C3 (a subscription from end to end). A subscriber, a relay and a publisher run in three processes. The publisher has announced
  the namespace, and the relay knows it as the publisher of that namespace; nobody has asked for the track. When the subscriber
  subscribes, its request reaches the relay; the relay's own request, under the relay's ID, reaches the publisher; the publisher's
  application gets a stream with that ID and with the names and the alias of the request, and accepts it; the answer goes to the
  relay, and from there to the subscriber under the subscriber's ID; and the subscriber's application gets the stream it has
  asked for. Each of the four messages is parsed by its receiver as it was sent.\<close>

theorem subscription_end_to_end:
  assumes codec: "varint_codec qv" and request: "string_ok ns" "string_ok name" "fits62 alias"
    and subscriber: "world_ok ws" "has_cs ws s" "get_sub ws s = Some sh" "\<not> ch_closed (sh_StreamsChan sh)"
    and relay: "world_ok wr" "is_relay wr rs" "has_cs wr rs" "getPublisher ns wr = Some rp"
      "new_track wr rp (subscribe_request ns name alias rnd)" "not_subscribed wr rs (ns @ ''_'' @ name)"
    and publisher: "world_ok wp" "has_cs wp p" "get_pub wp p = Some ph" "\<not> ch_closed (ph_SubscribeChan ph)"
      "gomap_get (ph_AnnouncedStreams ph) ns \<noteq> None"
  shows "\<exists>ws1 wr1 wp1 wp2 wr2 ws2 ph1 sh2 ps ss. let req = subscribe_request ns name alias rnd; up = req\<lparr>sub_SubscribeID := ucast rnd'\<rparr> in
    SubHandler_Subscribe qv s ns name alias rnd ws = Some ws1 \<and> sent ws1 s = sent ws s @ [MsgSubscribe req] \<and>
    RelayHandler_HandleSubscribe qv rs req rnd' wr = Some wr1 \<and> sent wr1 rp = sent wr rp @ [MsgSubscribe up] \<and>
    PubHandler_HandleSubscribe p up wp = Some wp1 \<and> get_pub wp1 p = Some ph1 \<and>
    ch_sent (ph_SubscribeChan ph1) = ch_sent (ph_SubscribeChan ph) @ [ps] \<and>
    ps_SubID ps = ucast rnd' \<and> ps_StreamID ps = ns @ ''_'' @ name \<and> ps_TrackName ps = name \<and> ps_Alias ps = alias \<and>
    PubStream_Accept qv ps wp1 = Some wp2 \<and> sent wp2 p = sent wp1 p @ [MsgSubscribeOk (subscribe_answer rnd')] \<and>
    RelayHandler_HandleSubscribeOk qv rp (subscribe_answer rnd') wr1 = Some wr2 \<and>
    sent wr2 rs = sent wr1 rs @ [MsgSubscribeOk (subscribe_answer rnd)] \<and>
    SubHandler_HandleSubscribeOk s (subscribe_answer rnd) ws1 = Some ws2 \<and> get_sub ws2 s = Some sh2 \<and>
    ch_sent (sh_StreamsChan sh2) = ch_sent (sh_StreamsChan sh) @ [ss] \<and> ss_SubID ss = ucast rnd \<and> ss_StreamID ss = ns @ ''_'' @ name \<and>
    list_all faithful [MsgSubscribe req, MsgSubscribe up, MsgSubscribeOk (subscribe_answer rnd'), MsgSubscribeOk (subscribe_answer rnd)]"
proof -
  define req where "req = subscribe_request ns name alias rnd"
  let ?up = "req\<lparr>sub_SubscribeID := ucast rnd'\<rparr>"
  have f: "faithful (MsgSubscribe req)" "faithful (MsgSubscribe ?up)" unfolding req_def using request by (rule subscribe_request_faithful)+
  have names: "sub_TrackNameSpace req = ns" "Subscribe_GetStreamID req = ns @ ''_'' @ name" "sub_TrackName req = name"
    "sub_TrackAlias req = alias" "sub_SubscribeID req = ucast rnd"
    by (simp_all add: req_def subscribe_request_def Subscribe_GetStreamID_def)
  obtain ws1 ss sh1 where ws1: "SubHandler_Subscribe qv s ns name alias rnd ws = Some ws1" "sent ws1 s = sent ws s @ [MsgSubscribe req]"
      "get_sub ws1 s = Some sh1" "SubIDGetStream (sh_SubscribedStreams sh1) (ucast rnd) = Some ss" "ss_StreamID ss = ns @ ''_'' @ name"
      "ss_SubID ss = ucast rnd" "sh_StreamsChan sh1 = sh_StreamsChan sh"
    unfolding req_def using varint_codec.Subscribe_sent [OF codec subscriber(1-3) request] by blast
  have ids: "subok_SubscribeID (subscribe_answer rnd') = ucast rnd'" "subok_SubscribeID (subscribe_answer rnd) = ucast rnd"
    "(subscribe_answer rnd')\<lparr>subok_SubscribeID := ucast rnd\<rparr> = subscribe_answer rnd"
    by (simp_all add: subscribe_answer_def)
  have pub: "getPublisher (sub_TrackNameSpace req) wr = Some rp" "new_track wr rp req" "not_subscribed wr rs (Subscribe_GetStreamID req)"
    using relay(4-6) by (simp_all add: names) (simp add: req_def)
  have mok: "message_ok (MsgSubscribe req)" "message_ok (MsgSubscribeOk (subscribe_answer rnd'))"
    using f(1) subscribe_answer_faithful [of rnd'] by (simp_all only: faithful_def)
  obtain wr1 wr2 where wr: "RelayHandler_HandleSubscribe qv rs req rnd' wr = Some wr1" "sent wr1 rp = sent wr rp @ [MsgSubscribe ?up]"
      "RelayHandler_HandleSubscribeOk qv rp (subscribe_answer rnd') wr1 = Some wr2"
      "sent wr2 rs = sent wr1 rs @ [MsgSubscribeOk (subscribe_answer rnd)]"
    using subscription_answered [OF codec relay(1-3) mok(1) pub mok(2) ids(1)] by (auto simp: ids(3) names)
  obtain wp1 ph1 where wp1: "PubHandler_HandleSubscribe p ?up wp = Some wp1" "get_pub wp1 p = Some ph1"
      "ch_sent (ph_SubscribeChan ph1) = ch_sent (ph_SubscribeChan ph) @ [subscription p ?up]"
    using HandleSubscribe_step [OF publisher(3,4), of ?up] publisher(5) by (auto simp: names)
  have g: "good_step wp wp1" using PubHandler_good(1) [OF publisher(1) wp1(1)] .
  have ps: "ps_session (subscription p ?up) = p" "ps_SubID (subscription p ?up) = ucast rnd'"
      "ps_StreamID (subscription p ?up) = ns @ ''_'' @ name" "ps_TrackName (subscription p ?up) = name" "ps_Alias (subscription p ?up) = alias"
    by (simp_all add: subscription_def names)
  obtain wp2 where wp2: "PubStream_Accept qv (subscription p ?up) wp1 = Some wp2"
      "sent wp2 p = sent wp1 p @ [MsgSubscribeOk (subscribe_answer rnd')]"
    using varint_codec.Accept_sent [OF codec good_stepD(1) [OF g], of "subscription p ?up" rnd'] has_cs_mono [OF good_stepD(2) [OF g] publisher(2)] ps by auto
  obtain ws2 sh2 where ws2: "SubHandler_HandleSubscribeOk s (subscribe_answer rnd) ws1 = Some ws2" "get_sub ws2 s = Some sh2"
      "ch_sent (sh_StreamsChan sh2) = ch_sent (sh_StreamsChan sh) @ [ss]"
    using HandleSubscribeOk_delivers [OF ws1(3), of "subscribe_answer rnd" ss] ws1(4,7) subscriber(4) ids(2) by auto
  show ?thesis unfolding Let_def req_def [symmetric] using ws1(1,2,5,6) wr wp1 ps wp2 ws2 f subscribe_answer_faithful by auto
qed

text \<open>A process of an application whose session with the relay has finished its handshake.\<close>

definition app_process :: "u64 \<Rightarrow> Handler \<Rightarrow> world" where
  "app_process role h = world_start\<lparr>w_sess := [0 \<mapsto> (sample_session ''x'' ROLE_RELAY)\<lparr>s_LocalRole := role, s_Handler := h\<rparr>], w_next_sess := 1\<rparr>"

lemma app_process_ok:
  assumes "handler_ok (app_process role h) 0 role h"
  shows "world_ok (app_process role h)" and "has_cs (app_process role h) 0"
proof -
  have "session_ok (app_process role h) 0 ((sample_session ''x'' ROLE_RELAY)\<lparr>s_LocalRole := role, s_Handler := h\<rparr>)"
    using assms by (simp add: session_ok_def sample_session_def NewControlStream_def)
  moreover have "sm_ok (app_process role h)" by (simp add: sm_ok_def app_process_def world_start_def NewSessionManager_def)
  ultimately show "world_ok (app_process role h)"
    by (auto simp: world_ok_def app_process_def world_start_def split: if_splits)
qed (simp add: has_cs_def app_process_def sample_session_def)

definition sample_pub :: PubHandler where
  "sample_pub = NewPubHandler\<lparr>ph_AnnouncedStreams := [(''live'', NewStreamsMap)]\<rparr>"

lemma app_process_handlers:
  "get_sub (app_process ROLE_SUBSCRIBER (HSub NewSubHandler)) 0 = Some NewSubHandler"
  "get_pub (app_process ROLE_PUBLISHER (HPub sample_pub)) 0 = Some sample_pub"
  "handler_ok (app_process ROLE_SUBSCRIBER (HSub NewSubHandler)) 0 ROLE_SUBSCRIBER (HSub NewSubHandler)"
  "handler_ok (app_process ROLE_PUBLISHER (HPub sample_pub)) 0 ROLE_PUBLISHER (HPub sample_pub)"
  by (simp_all add: get_sub_def get_pub_def app_process_def session_SubHandler_def session_PubHandler_def)
    (simp_all add: NewSubHandler_def sample_pub_def NewStreamsMap_def StreamsMap_ok_def gomap_ok_def)

theorem subscription_end_to_end_witness:
  "\<exists>ws1 wr1 wp1 wp2 wr2 ws2 ph1 sh2 ps ss.
    SubHandler_Subscribe rfc9000 0 ''live'' ''one'' 5 7 (app_process ROLE_SUBSCRIBER (HSub NewSubHandler)) = Some ws1 \<and>
    RelayHandler_HandleSubscribe rfc9000 1 (subscribe_request ''live'' ''one'' 5 7) 99 sample_world = Some wr1 \<and>
    PubHandler_HandleSubscribe 0 ((subscribe_request ''live'' ''one'' 5 7)\<lparr>sub_SubscribeID := ucast (99 :: u32)\<rparr>)
      (app_process ROLE_PUBLISHER (HPub sample_pub)) = Some wp1 \<and>
    get_pub wp1 0 = Some ph1 \<and> ch_sent (ph_SubscribeChan ph1) = [ps] \<and> PubStream_Accept rfc9000 ps wp1 = Some wp2 \<and>
    RelayHandler_HandleSubscribeOk rfc9000 0 (subscribe_answer 99) wr1 = Some wr2 \<and>
    SubHandler_HandleSubscribeOk 0 (subscribe_answer 7) ws1 = Some ws2 \<and> get_sub ws2 0 = Some sh2 \<and>
    ch_sent (sh_StreamsChan sh2) = [ss] \<and> ss_SubID ss = ucast (7 :: u32)"
proof -
  have req: "string_ok ''live''" "string_ok ''one''" "fits62 5" by (simp_all add: string_ok_def maxAlloc_def fits62_def)
  have relay: "getPublisher ''live'' sample_world = Some 0" "new_track sample_world 0 (subscribe_request ''live'' ''one'' 5 7)"
    "not_subscribed sample_world 1 (''live'' @ ''_'' @ ''one'')"
    using sample_world_refs(5,6)
    by (simp_all add: getPublisher_def sample_world_def new_track_def not_subscribed_def NewRelayHandler_def StreamIDGetStream_def NewStreamsMap_def)
  have chans: "\<not> ch_closed (sh_StreamsChan NewSubHandler)" "\<not> ch_closed (ph_SubscribeChan sample_pub)"
    "gomap_get (ph_AnnouncedStreams sample_pub) ''live'' \<noteq> None" "ch_sent (sh_StreamsChan NewSubHandler) = []"
    "ch_sent (ph_SubscribeChan sample_pub) = []"
    by (simp_all add: NewSubHandler_def sample_pub_def NewPubHandler_def make_chan_def)
  from subscription_end_to_end [OF rfc9000_codec req app_process_ok [OF app_process_handlers(3)] app_process_handlers(1) chans(1)
      sample_world_ok sample_world_refs(3,4) relay app_process_ok [OF app_process_handlers(4)] app_process_handlers(2) chans(2,3), of 99]
  show ?thesis unfolding Let_def chans(4,5) append_Nil by blast
qed

text \<open>Property C4 (an announcement from end to end). A publisher's program announces its namespace after it has connected. The relay registers the
  session as the publisher of the namespace and starts to write the announcement to each subscriber; when that is written, the
  subscriber's program, which subscribes to a track of every announced namespace, sends its request. The announcement
  is parsed on both sides as it was sent.\<close>

theorem announcement_end_to_end:
  assumes codec: "varint_codec qv" and ns: "string_ok ns"
    and publisher: "world_ok wp" "has_cs wp p" "get_pub wp p = Some ph"
    and relay: "world_ok wr" "is_relay wr rp" "w_sess wr rp = Some sp" "has_cs wr rp"
      "rs \<in> snd ` set (sm_sessions (w_sm wr))" "w_sess wr rs = Some t" "s_RemoteRole t = ROLE_SUBSCRIBER" "s_Id t \<noteq> s_Id sp"
    and subscriber: "world_ok ws" "has_cs ws s" "get_sub ws s = Some sh" "sh_AnnounceChan sh = make_chan"
  shows "\<exists>wp1 ph1 wr1 wr2 ws1 sh1 ws2. let ann = zero_Announce\<lparr>ann_TrackNameSpace := ns\<rparr> in
    pub_main qv ns (Inr p) wp = Some wp1 \<and> sent wp1 p = sent wp p @ [MsgAnnounce ann] \<and>
    get_pub wp1 p = Some ph1 \<and> gomap_get (ph_AnnouncedStreams ph1) ns \<noteq> None \<and>
    RelayHandler_HandleAnnounce qv rp ann wr = Some wr1 \<and> TaskWrite rs (MsgAnnounce ann) \<in> set (w_tasks wr1) \<and>
    WriteControlMessage qv rs (MsgAnnounce ann) wr1 = Some wr2 \<and> sent wr2 rs = sent wr1 rs @ [MsgAnnounce ann] \<and>
    getPublisher ns wr2 = Some rp \<and>
    SubHandler_HandleAnnounce s ann ws = Some ws1 \<and> get_sub ws1 s = Some sh1 \<and>
    MOQSub_announce_goroutine 0 (MOQSub_OnAnnounce (file_onAnnounce qv s rnd) (NewMOQSub options addr)) sh1 ws1 = Some ws2 \<and>
    sent ws2 s = sent ws s @ [MsgSubscribe (subscribe_request ns ''dumeel'' 0 (rnd ns))] \<and> faithful (MsgAnnounce ann)"
proof -
  define ann where "ann = zero_Announce\<lparr>ann_TrackNameSpace := ns\<rparr>"
  have ann: "announce_msg ns = MsgAnnounce ann" "ann_TrackNameSpace ann = ns" by (simp_all add: ann_def announce_msg_def)
  have f: "faithful (MsgAnnounce ann)" using announce_faithful [OF ns] by (simp add: ann)
  then have mok: "message_ok (MsgAnnounce ann)" by (simp only: faithful_def)
  obtain wp1 ph1 where wp1: "PubHandler_SendAnnounce qv p ns wp = Some wp1" "sent wp1 p = sent wp p @ [MsgAnnounce ann]"
      "get_pub wp1 p = Some ph1" "gomap_get (ph_AnnouncedStreams ph1) ns \<noteq> None"
    using varint_codec.SendAnnounce_sent [OF codec publisher ns] by (auto simp: ann)
  have main: "pub_main qv ns (Inr p) wp = Some wp1" using publisher(3) wp1(1) by (simp add: pub_main_def MOQPub_Connect_def)
  obtain wr1 where wr1: "RelayHandler_HandleAnnounce qv rp ann wr = Some wr1" "good_step wr wr1" "getPublisher ns wr1 = Some rp"
      "w_tasks wr1 = w_tasks wr @ map (\<lambda>r. TaskWrite r (MsgAnnounce ann))
        (filter (\<lambda>r. \<exists>t. w_sess wr r = Some t \<and> s_RemoteRole t \<in> {ROLE_RELAY, ROLE_SUBSCRIBER} \<and> s_Id t \<noteq> s_Id sp)
          (map snd (sm_sessions (w_sm wr))))"
    using announce_handled [OF codec relay(1-4) mok] unfolding ann by blast
  have task: "TaskWrite rs (MsgAnnounce ann) \<in> set (w_tasks wr1)" unfolding wr1(4) using relay(5-8) by auto
  then have "has_cs wr1 rs" using good_stepD(1) [OF wr1(2)] unfolding world_ok_def by force
  from varint_codec.WriteControlMessage_total [OF codec this mok] obtain wr2 where
    wr2: "WriteControlMessage qv rs (MsgAnnounce ann) wr1 = Some wr2" by blast
  note W = WriteControlMessage_result [OF good_stepD(1) [OF wr1(2)] wr2]
  have sent2: "sent wr2 rs = sent wr1 rs @ [MsgAnnounce ann]" "getPublisher ns wr2 = Some rp"
    using wr1(3) by (simp_all add: W getPublisher_def)
  obtain ws1 sh1 where ws1: "SubHandler_HandleAnnounce s ann ws = Some ws1" "get_sub ws1 s = Some sh1" "ch_sent (sh_AnnounceChan sh1) = [ns]"
      "sent ws1 s = sent ws s"
    using varint_codec.HandleAnnounce_delivers [OF codec subscriber, of ann] unfolding ann by blast
  have g: "good_step ws ws1" using SubHandler_good(1) [OF subscriber(1) ws1(1)] .
  have dum: "string_ok ''dumeel''" "fits62 0" by (simp_all add: string_ok_def maxAlloc_def fits62_def)
  obtain ws2 where ws2: "SubHandler_Subscribe qv s ns ''dumeel'' 0 (rnd ns) ws1 = Some ws2"
      "sent ws2 s = sent ws s @ [MsgSubscribe (subscribe_request ns ''dumeel'' 0 (rnd ns))]"
    using varint_codec.Subscribe_sent [OF codec good_stepD(1) [OF g] has_cs_mono [OF good_stepD(2) [OF g] subscriber(2)] ws1(2) ns dum,
        of "rnd ns"] ws1(4) by auto
  have "MOQSub_announce_goroutine 0 (MOQSub_OnAnnounce (file_onAnnounce qv s rnd) (NewMOQSub options addr)) sh1 ws1 = Some ws2"
    using ws2(1) by (simp add: MOQSub_announce_goroutine_def MOQSub_OnAnnounce_def NewMOQSub_def ws1(3) file_onAnnounce_def)
  then show ?thesis unfolding Let_def ann_def [symmetric] using main wp1(2-4) wr1(1) task wr2 sent2 ws1(1,2) ws2(2) f by blast
qed

theorem announcement_end_to_end_witness:
  "\<exists>wp1 wr1 wr2 ws1 sh1 ws2.
    pub_main rfc9000 ''bbb'' (Inr 0) (app_process ROLE_PUBLISHER (HPub sample_pub)) = Some wp1 \<and>
    RelayHandler_HandleAnnounce rfc9000 0 (zero_Announce\<lparr>ann_TrackNameSpace := ''bbb''\<rparr>) sample_world = Some wr1 \<and>
    WriteControlMessage rfc9000 1 (MsgAnnounce (zero_Announce\<lparr>ann_TrackNameSpace := ''bbb''\<rparr>)) wr1 = Some wr2 \<and>
    getPublisher ''bbb'' wr2 = Some 0 \<and>
    SubHandler_HandleAnnounce 0 (zero_Announce\<lparr>ann_TrackNameSpace := ''bbb''\<rparr>) (app_process ROLE_SUBSCRIBER (HSub NewSubHandler)) = Some ws1 \<and>
    get_sub ws1 0 = Some sh1 \<and>
    MOQSub_announce_goroutine 0 (MOQSub_OnAnnounce (file_onAnnounce rfc9000 0 (\<lambda>_. 7)) (NewMOQSub file_sub_options ''relay'')) sh1 ws1 = Some ws2"
proof -
  have ns: "string_ok ''bbb''" by (simp add: string_ok_def maxAlloc_def)
  have relay: "w_sess sample_world 0 = Some (sample_session ''a'' ROLE_PUBLISHER)" "1 \<in> snd ` set (sm_sessions (w_sm sample_world))"
    "w_sess sample_world 1 = Some (sample_session ''b'' ROLE_SUBSCRIBER)" "s_RemoteRole (sample_session ''b'' ROLE_SUBSCRIBER) = ROLE_SUBSCRIBER"
    "s_Id (sample_session ''b'' ROLE_SUBSCRIBER) \<noteq> s_Id (sample_session ''a'' ROLE_PUBLISHER)"
    by (simp_all add: sample_world_def sample_session_def)
  have chan: "sh_AnnounceChan NewSubHandler = make_chan" by (simp add: NewSubHandler_def)
  from announcement_end_to_end [OF rfc9000_codec ns app_process_ok [OF app_process_handlers(4)] app_process_handlers(2)
      sample_world_ok sample_world_refs(1) relay(1) sample_world_refs(2) relay(2-5)
      app_process_ok [OF app_process_handlers(3)] app_process_handlers(1) chan, where rnd = "\<lambda>_. 7" and options = file_sub_options and addr = "''relay''"]
  show ?thesis unfolding Let_def by blast
qed

section \<open>The objects of a group\<close>

text \<open>The publisher's application opens a group and writes objects; its goroutine pipes them behind the header (state \<open>pps\<close>). The relay accepts the stream and forwards it
  to its subscribers; a subscriber accepts what arrives.\<close>

context varint_codec
begin

lemma relay_accepts:
  assumes "ParseMOQTStream qv r = Some (Inr (k, st))" and "get_relay w pub = Some rh" and "SubIDGetStream (rh_IncomingStreams rh) k = Some p"
    and "w_strm w p = Some rs"
  shows "RelayHandler_accept qv pub r w = Some (spawn (TaskProcessObjects p (MOQTStream_SetStreamID (rs_StreamID rs) st)) w)"
  using assms by (simp add: RelayHandler_accept_def)

lemma subscriber_accepts:
  assumes "ParseMOQTStream qv r = Some (Inr (k, st))" and "get_sub w sub = Some sh" and "SubIDGetStream (sh_SubscribedStreams sh) k = Some ss"
  shows "SubHandler_accept qv sub r w = Some (spawn (TaskDeliver (ss_StreamsChan ss) st) w)"
  using assms by (simp add: SubHandler_accept_def)

lemma group_forwarded:
  assumes new: "PubStream_NewGroup qv opens pub g = Some (None, Some ph, st0)"
    and fits: "fits62 (ps_SubID pub)" "fits62 (ps_Alias pub)" "fits62 g"
    and run: "pub_run (GroupStream_pipe qv) pps" and oks: "list_all Object_ok (ps_objs pps)"
    and relay: "get_relay w r = Some rh" "SubIDGetStream (rh_IncomingStreams rh) (ps_SubID pub) = Some p" "w_strm w p = Some rs"
    and subs: "distinct subs" "\<forall>sub \<in> set subs. world_ok (ws sub)"
  shows "\<exists>st. RelayHandler_accept qv r \<lparr>rd_data = ph @ pp_out (ps_pipers pps 0), rd_end = EOF\<rparr> w = Some (spawn (TaskProcessObjects p st) w) \<and>
    (\<forall>s sub b. reach (fan_init st rs subs) (fan_step qv ws opened) s \<and> fo_phase s sub \<in> {SubPiping b True, SubClosed b True} \<and>
      pp_pc (fo_pipers s sub) \<noteq> PcFailed \<longrightarrow>
      (\<exists>rh' subid q k st1 st2. get_relay (ws sub) sub = Some rh' \<and> SubIDGetStream (rh_SubscribedStreams rh') subid = Some q \<and>
        strm_StreamID (ws sub) q = rs_StreamID rs \<and> k \<le> length (ps_objs pps) \<and>
        ParseMOQTStream qv \<lparr>rd_data = fan_bytes s sub, rd_end = EOF\<rparr> = Some (Inr (subid, st1)) \<and>
        read_objects qv (Suc (length (fan_bytes s sub))) st1 =
          Some (map (\<lambda>ob. (g, ob\<lparr>obj_GroupID := 0\<rparr>)) (take k (ps_objs pps)), Some EOF, st2)))"
proof -
  let ?gs = "NewGroupStream (ps_SubID pub) g (ps_Alias pub)"
  have h: "MOQTStream_GetHeaderSubIDBytes qv (SGroup ?gs) (ps_SubID pub) = Some ph" using NewGroup_header [OF new] by simp
  have ok: "MOQTStream_header_ok (SGroup ?gs)" using fits by (simp add: NewGroupStream_def fits62_def)
  obtain n where n: "n \<le> length (ps_objs pps)" "pp_out (ps_pipers pps 0) = concat (map (object_enc qv) (take n (ps_objs pps)))"
    using group_prefix [of pps 0] pub_run_pipe [OF run] by auto
  let ?objs = "take n (ps_objs pps)"
  have objs: "list_all Object_ok ?objs" using oks by (auto simp: list_all_iff dest: in_set_takeD)
  obtain st where st: "ParseMOQTStream qv \<lparr>rd_data = ph @ concat (map (stream_enc qv (SGroup ?gs)) ?objs), rd_end = EOF\<rparr> = Some (Inr (ps_SubID pub, st))"
    using header_parsed [OF ok fits(1) h, of ?objs] by blast
  have "\<exists>rh' subid q k st1 st2. get_relay (ws sub) sub = Some rh' \<and> SubIDGetStream (rh_SubscribedStreams rh') subid = Some q \<and>
      strm_StreamID (ws sub) q = rs_StreamID rs \<and> k \<le> length (ps_objs pps) \<and>
      ParseMOQTStream qv \<lparr>rd_data = fan_bytes s sub, rd_end = EOF\<rparr> = Some (Inr (subid, st1)) \<and>
      read_objects qv (Suc (length (fan_bytes s sub))) st1 = Some (map (\<lambda>ob. (g, ob\<lparr>obj_GroupID := 0\<rparr>)) (take k (ps_objs pps)), Some EOF, st2)"
    if s: "reach (fan_init (MOQTStream_SetStreamID (rs_StreamID rs) st) rs subs) (fan_step qv ws opened) s"
      "fo_phase s sub \<in> {SubPiping b True, SubClosed b True}" "pp_pc (fo_pipers s sub) \<noteq> PcFailed" for s sub b
  proof -
    obtain rh' subid q k st1 st2 where r: "get_relay (ws sub) sub = Some rh'" "SubIDGetStream (rh_SubscribedStreams rh') subid = Some q"
        "strm_StreamID (ws sub) q = rs_StreamID rs" "ParseMOQTStream qv \<lparr>rd_data = fan_bytes s sub, rd_end = EOF\<rparr> = Some (Inr (subid, st1))"
        "read_objects qv (Suc (length (fan_bytes s sub))) st1 = Some (map (stream_received (SGroup ?gs)) (take k ?objs), Some EOF, st2)"
      using fan_subscriber_reads [OF ok fits(1) h objs st subs s] by blast
    have "map (stream_received (SGroup ?gs)) (take k ?objs) = map (\<lambda>ob. (g, ob\<lparr>obj_GroupID := 0\<rparr>)) (take (min k n) (ps_objs pps))"
      by (simp add: NewGroupStream_def min.commute)
    moreover have "min k n \<le> length (ps_objs pps)" using n(1) by simp
    ultimately show ?thesis using r by metis
  qed
  moreover have "RelayHandler_accept qv r \<lparr>rd_data = ph @ pp_out (ps_pipers pps 0), rd_end = EOF\<rparr> w =
      Some (spawn (TaskProcessObjects p (MOQTStream_SetStreamID (rs_StreamID rs) st)) w)"
    using relay_accepts [OF st relay] by (simp add: n(2))
  ultimately show ?thesis by blast
qed

end

text \<open>Property C5 (objects from end to end). A publisher's application opens a group and writes objects to it, in whatever interleaving with the
  goroutine that pipes them. The relay accepts the stream and starts the goroutines of the track's subscribers, which again run in any
  interleaving. As long as no write of the publisher's goroutine to its stream has failed, the header included, and none of the relay's goroutine to the
  subscriber's stream, the subscriber that has the relay's subscription accepts what has arrived as a stream for its own application, and reading that
  gives the first \<open>k\<close> of the objects that the publisher's application has written, unchanged, in order and under the group's ID. (After a
  failed write the publisher's goroutine goes on, and the objects of that write are missing: \<open>publisher_skips_after_error\<close>.)\<close>

theorem objects_end_to_end:
  assumes "varint_codec qv" and "PubStream_NewGroup qv opens pub g = Some (None, Some ph, st0)"
    and "fits62 (ps_SubID pub)" and "fits62 (ps_Alias pub)" and "fits62 g"
    and "pub_run (GroupStream_pipe qv) pps" and "list_all Object_ok (ps_objs pps)"
    and "get_relay w r = Some rh" and "SubIDGetStream (rh_IncomingStreams rh) (ps_SubID pub) = Some p" and "w_strm w p = Some rs"
    and "distinct subs" and "\<forall>sub \<in> set subs. world_ok (ws sub)"
  shows "\<exists>st. RelayHandler_accept qv r \<lparr>rd_data = ph @ pp_out (ps_pipers pps 0), rd_end = EOF\<rparr> w = Some (spawn (TaskProcessObjects p st) w) \<and>
    (\<forall>s sub b. reach (fan_init st rs subs) (fan_step qv ws opened) s \<and> fo_phase s sub \<in> {SubPiping b True, SubClosed b True} \<and>
      pp_pc (fo_pipers s sub) \<noteq> PcFailed \<longrightarrow>
      (\<exists>rh' subid q st1. get_relay (ws sub) sub = Some rh' \<and> SubIDGetStream (rh_SubscribedStreams rh') subid = Some q \<and>
        strm_StreamID (ws sub) q = rs_StreamID rs \<and>
        (\<forall>v u sh ss. get_sub v u = Some sh \<and> SubIDGetStream (sh_SubscribedStreams sh) subid = Some ss \<longrightarrow>
          SubHandler_accept qv u \<lparr>rd_data = fan_bytes s sub, rd_end = EOF\<rparr> v = Some (spawn (TaskDeliver (ss_StreamsChan ss) st1) v)) \<and>
        (\<exists>k st2. k \<le> length (ps_objs pps) \<and> read_objects qv (Suc (length (fan_bytes s sub))) st1 =
          Some (map (\<lambda>ob. (g, ob\<lparr>obj_GroupID := 0\<rparr>)) (take k (ps_objs pps)), Some EOF, st2))))"
proof -
  obtain st where st: "RelayHandler_accept qv r \<lparr>rd_data = ph @ pp_out (ps_pipers pps 0), rd_end = EOF\<rparr> w = Some (spawn (TaskProcessObjects p st) w)"
    and F: "\<And>s sub b. reach (fan_init st rs subs) (fan_step qv ws opened) s \<Longrightarrow> fo_phase s sub \<in> {SubPiping b True, SubClosed b True} \<Longrightarrow>
      pp_pc (fo_pipers s sub) \<noteq> PcFailed \<Longrightarrow>
      \<exists>rh' subid q k st1 st2. get_relay (ws sub) sub = Some rh' \<and> SubIDGetStream (rh_SubscribedStreams rh') subid = Some q \<and>
        strm_StreamID (ws sub) q = rs_StreamID rs \<and> k \<le> length (ps_objs pps) \<and>
        ParseMOQTStream qv \<lparr>rd_data = fan_bytes s sub, rd_end = EOF\<rparr> = Some (Inr (subid, st1)) \<and>
        read_objects qv (Suc (length (fan_bytes s sub))) st1 =
          Some (map (\<lambda>ob. (g, ob\<lparr>obj_GroupID := 0\<rparr>)) (take k (ps_objs pps)), Some EOF, st2)"
    using varint_codec.group_forwarded [OF assms(1-12), of opened] by blast
  show ?thesis
  proof (intro exI [of _ st] conjI allI impI st)
    fix s sub b
    assume "reach (fan_init st rs subs) (fan_step qv ws opened) s \<and> fo_phase s sub \<in> {SubPiping b True, SubClosed b True} \<and>
      pp_pc (fo_pipers s sub) \<noteq> PcFailed"
    then obtain rh' subid q k st1 st2 where r: "get_relay (ws sub) sub = Some rh'" "SubIDGetStream (rh_SubscribedStreams rh') subid = Some q"
        "strm_StreamID (ws sub) q = rs_StreamID rs" "k \<le> length (ps_objs pps)"
        "ParseMOQTStream qv \<lparr>rd_data = fan_bytes s sub, rd_end = EOF\<rparr> = Some (Inr (subid, st1))"
        "read_objects qv (Suc (length (fan_bytes s sub))) st1 = Some (map (\<lambda>ob. (g, ob\<lparr>obj_GroupID := 0\<rparr>)) (take k (ps_objs pps)), Some EOF, st2)"
      using F by blast
    show "\<exists>rh' subid q st1. get_relay (ws sub) sub = Some rh' \<and> SubIDGetStream (rh_SubscribedStreams rh') subid = Some q \<and>
        strm_StreamID (ws sub) q = rs_StreamID rs \<and>
        (\<forall>v u sh ss. get_sub v u = Some sh \<and> SubIDGetStream (sh_SubscribedStreams sh) subid = Some ss \<longrightarrow>
          SubHandler_accept qv u \<lparr>rd_data = fan_bytes s sub, rd_end = EOF\<rparr> v = Some (spawn (TaskDeliver (ss_StreamsChan ss) st1) v)) \<and>
        (\<exists>k st2. k \<le> length (ps_objs pps) \<and> read_objects qv (Suc (length (fan_bytes s sub))) st1 =
          Some (map (\<lambda>ob. (g, ob\<lparr>obj_GroupID := 0\<rparr>)) (take k (ps_objs pps)), Some EOF, st2))"
      using r varint_codec.subscriber_accepts [OF assms(1) r(5)]
      by (intro exI [of _ rh'] exI [of _ subid] exI [of _ q] exI [of _ st1] conjI exI [of _ k] exI [of _ st2] allI impI r) blast
  qed
qed

text \<open>One object of two reaches the subscriber: the publisher's goroutine stopped after the first.\<close>

definition group_pub :: PubStream where
  "group_pub = NewPubStream 0 ''live_video'' 99 ''live'' ''video'' 0"

abbreviation group_run :: pipe_sys where
  "group_run \<equiv> early_eof sample_obj sample_obj (object_enc rfc9000 sample_obj)"

lemma group_run_facts:
  "pub_run (GroupStream_pipe rfc9000) group_run" "list_all Object_ok (ps_objs group_run)"
  "pp_out (ps_pipers group_run 0) = concat (map (object_enc rfc9000) [sample_obj])"
proof -
  have "pp_pc (ps_pipers group_run i) \<noteq> PcFailed" for i
    by (simp add: early_eof_def pipe0_def set_piper_def Broadcast_def wake_def Let_def)
  then show "pub_run (GroupStream_pipe rfc9000) group_run"
    using early_eof_reachable [where coll = "GroupStream_pipe rfc9000", OF sample_obj_pipe] by (blast intro: pipe_pub_run)
  show "list_all Object_ok (ps_objs group_run)" "pp_out (ps_pipers group_run 0) = concat (map (object_enc rfc9000) [sample_obj])"
    using sample_obj_ok by (simp_all add: early_eof_def Let_def)
qed

lemma group_relay:
  "\<exists>rh rs. get_relay sample_forwarding 0 = Some rh \<and> SubIDGetStream (rh_IncomingStreams rh) (ps_SubID group_pub) = Some 0 \<and>
    w_strm sample_forwarding 0 = Some rs \<and> rs_StreamID rs = ''live_video''"
  using register_result [OF sample_forwarding_reg(1)] sample_serving_refs(2,3)
  by (auto simp: group_pub_def NewPubStream_def SubIDGetStream_def AddStream_def gomap_simps RelayStream_AddSubscriber_def put_cached_def NewRelayStream_def)

lemma group_header:
  "\<exists>ph st0 st. PubStream_NewGroup rfc9000 (\<lambda>_. None) group_pub 3 = Some (None, Some ph, st0) \<and>
    ParseMOQTStream rfc9000 \<lparr>rd_data = ph @ pp_out (ps_pipers group_run 0), rd_end = EOF\<rparr> = Some (Inr (ps_SubID group_pub, st)) \<and>
    fresh_stream rfc9000 [sample_obj] st"
proof -
  let ?gs = "NewGroupStream (ps_SubID group_pub) 3 (ps_Alias group_pub)"
  have ok: "MOQTStream_header_ok (SGroup ?gs)" "fits62 (ps_SubID group_pub)"
    by (simp_all add: group_pub_def NewPubStream_def NewGroupStream_def zero_GroupStream_def fits62_def)
  then obtain h where h: "MOQTStream_GetHeaderSubIDBytes rfc9000 (SGroup ?gs) (ps_SubID group_pub) = Some h" using rfc.header_total by blast
  then have "MOQTStream_GetHeaderBytes rfc9000 (SGroup ?gs) = Some h"
    by (simp add: GroupStream_GetHeaderBytes_def GroupStream_GetHeaderSubIDBytes_def NewGroupStream_def)
  from NewStream_first_try [OF this, of "\<lambda>_. None"] obtain st0 where "PubStream_NewGroup rfc9000 (\<lambda>_. None) group_pub 3 = Some (None, Some h, st0)"
    by (auto simp: PubStream_NewGroup_def)
  moreover obtain st where "ParseMOQTStream rfc9000 \<lparr>rd_data = h @ pp_out (ps_pipers group_run 0), rd_end = EOF\<rparr> = Some (Inr (ps_SubID group_pub, st))"
      "fresh_stream rfc9000 [sample_obj] st"
    using rfc.header_parsed [OF ok h, of "[sample_obj]"] unfolding group_run_facts(3) stream_enc.simps by blast
  ultimately show ?thesis by blast
qed

theorem objects_end_to_end_witness:
  "\<exists>ph st0 st rs s h k st1 st2. PubStream_NewGroup rfc9000 (\<lambda>_. None) group_pub 3 = Some (None, Some ph, st0) \<and>
    RelayHandler_accept rfc9000 0 \<lparr>rd_data = ph @ pp_out (ps_pipers group_run 0), rd_end = EOF\<rparr> sample_forwarding =
      Some (spawn (TaskProcessObjects 0 st) sample_forwarding) \<and>
    reach (fan_init st rs [1]) (fan_step rfc9000 (\<lambda>_. sample_forwarding) (\<lambda>_. None)) s \<and> fo_phase s 1 = SubPiping h True \<and>
    read_objects rfc9000 (Suc (length (fan_bytes s 1))) st1 = Some (map (\<lambda>ob. (3, ob\<lparr>obj_GroupID := 0\<rparr>)) (take k [sample_obj, sample_obj]), Some EOF, st2)"
proof -
  obtain ph st0 st where p: "PubStream_NewGroup rfc9000 (\<lambda>_. None) group_pub 3 = Some (None, Some ph, st0)"
      "ParseMOQTStream rfc9000 \<lparr>rd_data = ph @ pp_out (ps_pipers group_run 0), rd_end = EOF\<rparr> = Some (Inr (ps_SubID group_pub, st))"
      "fresh_stream rfc9000 [sample_obj] st" using group_header by blast
  obtain rh rs where r: "get_relay sample_forwarding 0 = Some rh" "SubIDGetStream (rh_IncomingStreams rh) (ps_SubID group_pub) = Some 0"
      "w_strm sample_forwarding 0 = Some rs" "rs_StreamID rs = ''live_video''" using group_relay by blast
  let ?st = "MOQTStream_SetStreamID ''live_video'' st"
  have acc: "RelayHandler_accept rfc9000 0 \<lparr>rd_data = ph @ pp_out (ps_pipers group_run 0), rd_end = EOF\<rparr> sample_forwarding =
      Some (spawn (TaskProcessObjects 0 ?st) sample_forwarding)" using rfc.relay_accepts [OF p(2) r(1-3)] r(4) by simp
  obtain rh1 where "get_relay sample_forwarding 1 = Some rh1" "SubIDGetStream (rh_SubscribedStreams rh1) 7 = Some 0"
      "strm_StreamID sample_forwarding 0 = ''live_video''" using sample_fan_world(1) by blast
  then obtain h s where s: "reach (fan_init ?st rs [1]) (fan_step rfc9000 (\<lambda>_. sample_forwarding) (\<lambda>_. None)) s" "fo_phase s 1 = SubPiping h True"
      "pp_pc (fo_pipers s 1) = PcWaiting"
    using rfc.fan_one_subscriber [of "[sample_obj]" ?st "\<lambda>_. sample_forwarding" 1 rh1 7 0 "\<lambda>_. None" rs] p(3) sample_forwarding_reg(2) by auto
  have f: "fits62 (ps_SubID group_pub)" "fits62 (ps_Alias group_pub)" "fits62 3" by (simp_all add: group_pub_def NewPubStream_def fits62_def)
  have d: "distinct [1 :: ref]" "\<forall>sub \<in> set [1 :: ref]. world_ok sample_forwarding" using sample_forwarding_reg(2) by simp_all
  from objects_end_to_end [where ws = "\<lambda>_. sample_forwarding" and opened = "\<lambda>_. None", OF rfc9000_codec p(1) f group_run_facts(1,2) r(1-3) d]
  obtain st' where st': "RelayHandler_accept rfc9000 0 \<lparr>rd_data = ph @ pp_out (ps_pipers group_run 0), rd_end = EOF\<rparr> sample_forwarding =
      Some (spawn (TaskProcessObjects 0 st') sample_forwarding)"
    and F: "\<forall>s sub b. reach (fan_init st' rs [1]) (fan_step rfc9000 (\<lambda>_. sample_forwarding) (\<lambda>_. None)) s \<and>
      fo_phase s sub \<in> {SubPiping b True, SubClosed b True} \<and> pp_pc (fo_pipers s sub) \<noteq> PcFailed \<longrightarrow>
      (\<exists>rh' subid q st1. get_relay sample_forwarding sub = Some rh' \<and> SubIDGetStream (rh_SubscribedStreams rh') subid = Some q \<and>
        strm_StreamID sample_forwarding q = rs_StreamID rs \<and>
        (\<forall>v u sh ss. get_sub v u = Some sh \<and> SubIDGetStream (sh_SubscribedStreams sh) subid = Some ss \<longrightarrow>
          SubHandler_accept rfc9000 u \<lparr>rd_data = fan_bytes s sub, rd_end = EOF\<rparr> v = Some (spawn (TaskDeliver (ss_StreamsChan ss) st1) v)) \<and>
        (\<exists>k st2. k \<le> length (ps_objs group_run) \<and> read_objects rfc9000 (Suc (length (fan_bytes s sub))) st1 =
          Some (map (\<lambda>ob. (3, ob\<lparr>obj_GroupID := 0\<rparr>)) (take k (ps_objs group_run)), Some EOF, st2)))"
    by (elim exE conjE)
  have "w_tasks (spawn (TaskProcessObjects 0 st') sample_forwarding) = w_tasks (spawn (TaskProcessObjects 0 ?st) sample_forwarding)"
    using acc st' by (metis option.inject)
  then have eq: "st' = ?st" by (simp add: spawn_def)
  have "reach (fan_init st' rs [1]) (fan_step rfc9000 (\<lambda>_. sample_forwarding) (\<lambda>_. None)) s \<and>
      fo_phase s 1 \<in> {SubPiping h True, SubClosed h True} \<and> pp_pc (fo_pipers s 1) \<noteq> PcFailed" using s eq by simp
  note mp [OF F [THEN spec, THEN spec, THEN spec] this]
  then obtain k st1 st2 where "read_objects rfc9000 (Suc (length (fan_bytes s 1))) st1 =
      Some (map (\<lambda>ob. (3, ob\<lparr>obj_GroupID := 0\<rparr>)) (take k (ps_objs group_run)), Some EOF, st2)" by (elim exE conjE)
  moreover have "ps_objs group_run = [sample_obj, sample_obj]" by (simp add: early_eof_def Let_def)
  ultimately show ?thesis using p(1) acc s(1,2)
    by (intro exI [of _ ph] exI [of _ st0] exI [of _ ?st] exI [of _ rs] exI [of _ s] exI [of _ h] exI [of _ k] exI [of _ st1] exI [of _ st2] conjI) simp_all
qed

end
