(* ===== verification/Cond_Example.thy ===== *)
theory Cond_Example
  imports Go_Prelude
begin

text \<open>
  The experiment with a condition variable in \<open>src/examples/test/test.go\<close>: one goroutine appends 0, 1, 2 and so on to a slice and broadcasts; two
  others wait, take the length under the lock, and print what is new without the lock. The elements are the counter \<open>itr\<close>, here
  without the wrap-around that it would reach after \<open>2 ^ 63\<close> seconds.

  Shown here: whatever the interleaving, each consumer prints 0, 1, 2 and so on, without a gap and nothing twice, and never
  reads beyond the slice.
\<close>

datatype consumer_pc = CLock | CWait | CWoken | CPrint nat

record consumer =
  c_pc :: consumer_pc
  c_itr :: nat
  c_printed :: "nat list"

record demo =
  d_data :: "nat list"
  d_itr :: nat
  d_consumer :: "nat \<Rightarrow> consumer"

definition set_consumer :: "nat \<Rightarrow> consumer \<Rightarrow> demo \<Rightarrow> demo" where
  "set_consumer i c d = d\<lparr>d_consumer := (d_consumer d)(i := c)\<rparr>"

definition wake_consumer :: "consumer \<Rightarrow> consumer" where
  "wake_consumer c = (if c_pc c = CWait then c\<lparr>c_pc := CWoken\<rparr> else c)"

inductive demo_step :: "demo \<Rightarrow> demo \<Rightarrow> bool" where
  produce: "demo_step d (d\<lparr>d_data := d_data d @ [d_itr d], d_itr := Suc (d_itr d), d_consumer := (\<lambda>i. wake_consumer (d_consumer d i))\<rparr>)"
| wait: "i < 2 \<Longrightarrow> d_consumer d i = c \<Longrightarrow> c_pc c = CLock \<Longrightarrow> demo_step d (set_consumer i (c\<lparr>c_pc := CWait\<rparr>) d)"
| take_length: "i < 2 \<Longrightarrow> d_consumer d i = c \<Longrightarrow> c_pc c = CWoken \<Longrightarrow> demo_step d (set_consumer i (c\<lparr>c_pc := CPrint (length (d_data d))\<rparr>) d)"
| print_item: "i < 2 \<Longrightarrow> d_consumer d i = c \<Longrightarrow> c_pc c = CPrint len \<Longrightarrow> c_itr c < len \<Longrightarrow> c_itr c < length (d_data d) \<Longrightarrow>
    demo_step d (set_consumer i (c\<lparr>c_printed := c_printed c @ [d_data d ! c_itr c], c_itr := Suc (c_itr c)\<rparr>) d)"
| print_end: "i < 2 \<Longrightarrow> d_consumer d i = c \<Longrightarrow> c_pc c = CPrint len \<Longrightarrow> \<not> c_itr c < len \<Longrightarrow> demo_step d (set_consumer i (c\<lparr>c_pc := CLock\<rparr>) d)"

definition demo_init :: "demo \<Rightarrow> bool" where
  "demo_init d \<longleftrightarrow> d = \<lparr>d_data = [], d_itr = 0, d_consumer = (\<lambda>_. \<lparr>c_pc = CLock, c_itr = 0, c_printed = []\<rparr>)\<rparr>"

definition consumer_ok :: "nat \<Rightarrow> consumer \<Rightarrow> bool" where
  "consumer_ok n c \<longleftrightarrow> c_itr c \<le> n \<and> c_printed c = [0..<c_itr c] \<and> (case c_pc c of CPrint len \<Rightarrow> len \<le> n | _ \<Rightarrow> True)"

definition demo_ok :: "demo \<Rightarrow> bool" where
  "demo_ok d \<longleftrightarrow> d_data d = [0..<d_itr d] \<and> (\<forall>i. consumer_ok (d_itr d) (d_consumer d i))"

lemma consumer_ok_wake: "consumer_ok n c \<Longrightarrow> consumer_ok (Suc n) (wake_consumer c)"
  by (auto simp: consumer_ok_def wake_consumer_def split: consumer_pc.splits)

lemma demo_ok_set: "demo_ok d \<Longrightarrow> consumer_ok (d_itr d) c \<Longrightarrow> demo_ok (set_consumer i c d)"
  by (simp add: demo_ok_def set_consumer_def)

lemma demo_step_ok: "demo_step d d' \<Longrightarrow> demo_ok d \<Longrightarrow> demo_ok d'"
proof (induction rule: demo_step.induct)
  case (produce d)
  then show ?case by (simp add: demo_ok_def consumer_ok_wake)
next
  case (print_item i d c len)
  then have "consumer_ok (d_itr d) c" "d_data d = [0..<d_itr d]" by (auto simp: demo_ok_def)
  with print_item show ?case by (intro demo_ok_set) (auto simp: consumer_ok_def)
next
  case (take_length i d c)
  then have "consumer_ok (d_itr d) c" "d_data d = [0..<d_itr d]" by (auto simp: demo_ok_def)
  with take_length show ?case by (intro demo_ok_set) (auto simp: consumer_ok_def)
next
  case (wait i d c)
  then have "consumer_ok (d_itr d) c" by (auto simp: demo_ok_def)
  with wait show ?case by (intro demo_ok_set) (auto simp: consumer_ok_def)
next
  case (print_end i d c len)
  then have "consumer_ok (d_itr d) c" by (auto simp: demo_ok_def)
  with print_end show ?case by (intro demo_ok_set) (auto simp: consumer_ok_def)
qed

interpretation demo: invariant_system demo_init demo_step demo_ok
proof
  show "demo_ok d" if "demo_init d" for d using that by (simp add: demo_init_def demo_ok_def consumer_ok_def)
qed (rule demo_step_ok)

text \<open>The consumers print in order, and a consumer that has something to print finds it in the slice.\<close>

lemma consumers_print_in_order:
  assumes "reach demo_init demo_step d"
  shows "c_printed (d_consumer d i) = [0..<c_itr (d_consumer d i)] \<and> c_itr (d_consumer d i) \<le> length (d_data d) \<and>
    (\<forall>len. c_pc (d_consumer d i) = CPrint len \<longrightarrow> len \<le> length (d_data d))"
  using demo.inv_reach [OF assms] by (auto simp: demo_ok_def consumer_ok_def dest!: spec [of _ i])

end
