(* ===== verification/Log_Strings.thy ===== *)
theory Log_Strings
  imports Web_Transport
begin

text \<open>
  The text of log lines: the name tables and \<open>String\<close> methods of the wire, h3 and wt packages. Every control message that comes in
  or goes out is written to the log, so a \<open>String\<close> method that panics would end the process on a message from the network.
  \<^const>\<open>None\<close> is the panic of the type assertion in \<open>GetRoleString\<close>.

  Of \<open>fmt\<close>, the verbs that the sources use are modelled: \<open>%s\<close> and \<open>%v\<close> on strings, \<open>%d\<close> and \<open>%X\<close> on unsigned integers, and
  \<open>%02X\<close>, which pads to two digits with zeros.

  Shown here: every message that the parser returns has a log line, lines of messages of different types differ, and
  the lines tell settings apart.
\<close>

section \<open>Formatting numbers\<close>

definition hex_char :: "nat \<Rightarrow> char" where
  "hex_char d = char_of (if d < 10 then 48 + d else 55 + d)"

fun hex_digits :: "nat \<Rightarrow> string" where
  "hex_digits n = (if n < 16 then [hex_char n] else hex_digits (n div 16) @ [hex_char (n mod 16)])"

declare hex_digits.simps [simp del]

definition fmt_X :: "'a::len word \<Rightarrow> string" where
  "fmt_X v = hex_digits (unat v)"

definition fmt_02X :: "'a::len word \<Rightarrow> string" where
  "fmt_02X v = replicate (2 - length (fmt_X v)) (CHR ''0'') @ fmt_X v"

definition fmt_d :: "'a::len word \<Rightarrow> string" where
  "fmt_d v = nat_digits (unat v)"

definition TrimSuffix :: "string \<Rightarrow> string \<Rightarrow> string" where
  "TrimSuffix s suf = (if suffix suf s then take (length s - length suf) s else s)"

section \<open>Name tables of HTTP/3 and WebTransport\<close>

definition FRAME_CANCEL_PUSH :: u64 where "FRAME_CANCEL_PUSH = 0x03"
definition FRAME_PUSH_PROMISE :: u64 where "FRAME_PUSH_PROMISE = 0x05"
definition FRAME_GOAWAY :: u64 where "FRAME_GOAWAY = 0x07"
definition FRAME_MAX_PUSH_ID :: u64 where "FRAME_MAX_PUSH_ID = 0x0D"

definition GetFrameTypeString :: "u64 \<Rightarrow> string" where
  "GetFrameTypeString ftype =
    (if ftype = FRAME_DATA then ''FRAME_DATA''
     else if ftype = FRAME_HEADERS then ''FRAME_HEADERS''
     else if ftype = FRAME_CANCEL_PUSH then ''FRAME_CANCEL_PUSH''
     else if ftype = FRAME_SETTINGS then ''FRAME_SETTINGS''
     else if ftype = FRAME_PUSH_PROMISE then ''FRAME_PUSH_PROMISE''
     else if ftype = FRAME_GOAWAY then ''FRAME_GOAWAY''
     else if ftype = FRAME_MAX_PUSH_ID then ''FRAME_MAX_PUSH_ID''
     else if ftype = FRAME_WEBTRANSPORT_UNI_STREAM then ''FRAME_WEBTRANSPORT_UNI_STREAM''
     else if ftype = FRAME_WEBTRANSPORT_BI_STREAM then ''FRAME_WEBTRANSPORT_BI_STREAM''
     else ''Unknown Header Type'')"

definition SETTINGS_MAX_FIELD_SECTION_SIZE :: u64 where "SETTINGS_MAX_FIELD_SECTION_SIZE = 0x6"
definition WEBTRANSPORT_MAX_SESSIONS_DEPRECATED :: u64 where "WEBTRANSPORT_MAX_SESSIONS_DEPRECATED = 0x2b603743"

definition GetSettingString :: "u64 \<Rightarrow> string" where
  "GetSettingString stype =
    (if stype = SETTINGS_MAX_FIELD_SECTION_SIZE then ''SETTINGS_MAX_FIELD_SECTION_SIZE''
     else if stype = SETTINGS_QPACK_MAX_TABLE_CAPACITY then ''SETTINGS_QPACK_MAX_TABLE_CAPACITY''
     else if stype = H3_DATAGRAM_05 then ''H3_DATAGRAM_05''
     else if stype = ENABLE_WEBTRANSPORT then ''ENABLE_WEBTRANSPORT''
     else if stype = WEBTRANSPORT_MAX_SESSIONS then ''WEBTRANSPORT_MAX_SESSIONS''
     else if stype = SETTINGS_H3_DATAGRAM then ''SETTINGS_H3_DATAGRAM''
     else if stype = SETTINGS_ENABLE_CONNECT_PROTOCOL then ''SETTINGS_ENABLE_CONNECT_PROTOCOL''
     else if stype = SETTINGS_QPACK_BLOCKED_STREAMS then ''SETTINGS_QPACK_BLOCKED_STREAMS''
     else if stype = WEBTRANSPORT_MAX_SESSIONS_DEPRECATED then ''WEBTRANSPORT_MAX_SESSIONS_DEPRECATED''
     else ''Unknown Settings Type - '' @ fmt_X stype)"

definition SettingsFrame_GetString :: "SettingsFrame \<Rightarrow> string" where
  "SettingsFrame_GetString sframe =
    ''{ '' @ concat (map (\<lambda>s. GetSettingString (set_Key s) @ '' : '' @ fmt_d (set_Value s) @ '' '') (sf_Settings sframe)) @ ''}''"

definition GetStreamHeaderString :: "u64 \<Rightarrow> string" where
  "GetStreamHeaderString header =
    (if header = STREAM_CONTROL then ''STREAM_CONTROL''
     else if header = STREAM_PUSH then ''STREAM_PUSH''
     else if header = STREAM_QPACK_ENCODER then ''STREAM_QPACK_ENCODER''
     else if header = STREAM_QPACK_DECODER then ''STREAM_QPACK_DECODER''
     else if header = STREAM_WEBTRANSPORT_UNI_STREAM then ''STREAM_WEBTRANSPORT_UNI_STREAM''
     else if header = STREAM_WEBTRANSPORT_BI_STREAM then ''STREAM_WEBTRANSPORT_BI_STREAM''
     else ''UNKNOWN STREAM HEADER'')"

definition StreamHeader_String :: "StreamHeader \<Rightarrow> string" where
  "StreamHeader_String sh = ''[Stream Header][Type - '' @ GetStreamHeaderString (sh_Type sh) @ ''][ID - '' @ fmt_X (sh_ID sh) @ '']''"

section \<open>Parameters\<close>

definition IntParameter_String :: "IntParameter \<Rightarrow> string option" where
  "IntParameter_String param = do {
     v \<leftarrow> GetParamValueString (IntP param);
     Some (GetParamKeyString (IntP param) @ '' : '' @ v @ ''(0x'' @ fmt_02X (Pvalue param) @ '')'') }"

definition StringParameter_String :: "StringParameter \<Rightarrow> string" where
  "StringParameter_String param = ''Key : '' @ GetParamKeyString (StringP param) @ '', Value : '' @ pvalue param"

fun Parameter_String :: "Parameter \<Rightarrow> string option" where
  "Parameter_String (IntP p) = IntParameter_String p"
| "Parameter_String (StringP p) = Some (StringParameter_String p)"

text \<open>The loops over the parameters: each string followed by a separator.\<close>

fun params_string :: "string \<Rightarrow> Parameters \<Rightarrow> string option" where
  "params_string sep [] = Some []"
| "params_string sep ((_, param) # ps) = do {
     s \<leftarrow> Parameter_String param;
     rest \<leftarrow> params_string sep ps;
     Some (s @ sep @ rest) }"

definition Parameters_String :: "Parameters \<Rightarrow> string option" where
  "Parameters_String params = do {
     s \<leftarrow> params_string '' '' params;
     Some (''[{'' @ s @ ''}]'') }"

section \<open>Messages\<close>

definition ClientSetup_String :: "ClientSetup \<Rightarrow> string option" where
  "ClientSetup_String setup = do {
     let str = ''['' @ GetMoqMessageString CLIENT_SETUP @ '']'';
     let str = str @ ''[Supported Versions - {'';
     let str = str @ concat (map (\<lambda>version. fmt_X version @ '' '') (SupportedVersions setup));
     let str = TrimSuffix str '' '';
     let str = str @ ''}][{'';
     ps \<leftarrow> params_string '','' (csetup_Params setup);
     let str = TrimSuffix (str @ ps) '','';
     Some (str @ ''}]'') }"

definition ServerSetup_String :: "ServerSetup \<Rightarrow> string option" where
  "ServerSetup_String setup = do {
     let str = ''['' @ GetMoqMessageString SERVER_SETUP @ '']'';
     let str = str @ ''[Selected Version - '' @ fmt_X (SelectedVersion setup) @ ''][{'';
     ps \<leftarrow> params_string '' '' (ssetup_Params setup);
     Some (str @ ps @ '']'') }"

definition Announce_String :: "Announce \<Rightarrow> string option" where
  "Announce_String a = do {
     let str = ''[ANNOUNCE][Track Namespace - '' @ ann_TrackNameSpace a @ '']'';
     if length (ann_params a) > 0 then do {
       ps \<leftarrow> Parameters_String (ann_params a);
       Some (str @ ''[Params - '' @ ps @ '']'') }
     else Some str }"

definition AnnounceOk_String :: "AnnounceOk \<Rightarrow> string" where
  "AnnounceOk_String msg = ''['' @ GetMoqMessageString ANNOUNCE_OK @ ''][Track Namespace - '' @ annok_TrackNameSpace msg @ '']''"

definition Subscribe_String :: "Subscribe \<Rightarrow> string option" where
  "Subscribe_String s = do {
     let str = ''['' @ GetMoqMessageString SUBSCRIBE @ ''][ID - '' @ fmt_X (sub_SubscribeID s) @ ''][Filter Type - '' @
       GetFilterType (sub_FilterType s) @ ''][Name - '' @ sub_TrackName s @ ''][Alias - '' @ fmt_X (sub_TrackAlias s) @
       ''][NameSpace - '' @ sub_TrackNameSpace s @ '']'';
     if length (sub_Params s) > 0 then do {
       ps \<leftarrow> Parameters_String (sub_Params s);
       Some (str @ ps) }
     else Some str }"

definition SubscribeOk_String :: "SubscribeOk \<Rightarrow> string" where
  "SubscribeOk_String s = ''[SubscribeOK][ID - '' @ fmt_X (subok_SubscribeID s) @ ''][Expires - '' @ fmt_d (subok_Expires s) @
     ''][Content Exists - '' @ fmt_d (subok_ContentExists s) @ ''][L Group Id / Object Id - '' @ fmt_d (largestObjectId s) @
     '' / '' @ fmt_d (largestGroupId s) @ '']''"

definition SubscribeDone_String :: "SubscribeDone \<Rightarrow> string" where
  "SubscribeDone_String m =
    (let str = ''[SUBSCRIBE DONE][ID - '' @ fmt_X (done_SubscribeID m) @ ''][Code - '' @ fmt_d (done_StatusCode m) @ ''][''
           @ done_ReasonPhrase m @ '']''
     in if done_ContentExists m = 1
        then str @ ''[Final Group - '' @ fmt_d (done_FinalGroup m) @ ''][Final Object - '' @ fmt_d (done_FinalObject m) @ '']''
        else str)"

definition Unsubcribe_String :: "Unsubcribe \<Rightarrow> string" where
  "Unsubcribe_String msg = ''[UNSUBSCRIBE][ID - '' @ fmt_d (SubscriptionID msg) @ '']''"

fun MOQTMessage_String :: "MOQTMessage \<Rightarrow> string option" where
  "MOQTMessage_String (MsgClientSetup m) = ClientSetup_String m"
| "MOQTMessage_String (MsgServerSetup m) = ServerSetup_String m"
| "MOQTMessage_String (MsgAnnounce m) = Announce_String m"
| "MOQTMessage_String (MsgAnnounceOk m) = Some (AnnounceOk_String m)"
| "MOQTMessage_String (MsgSubscribe m) = Subscribe_String m"
| "MOQTMessage_String (MsgSubscribeOk m) = Some (SubscribeOk_String m)"
| "MOQTMessage_String (MsgUnsubcribe m) = Some (Unsubcribe_String m)"
| "MOQTMessage_String (MsgSubscribeDone m) = Some (SubscribeDone_String m)"

section \<open>Numbers can be read off\<close>

definition hex_value :: "char \<Rightarrow> nat" where
  "hex_value c = (if code c < 58 then code c - 48 else code c - 55)"

lemma hex_value_char: "d < 16 \<Longrightarrow> hex_value (hex_char d) = d"
  by (simp add: hex_value_def hex_char_def)

lemma hex_digits_read: "foldl (\<lambda>n c. 16 * n + hex_value c) 0 (hex_digits n) = n"
proof (induction n rule: hex_digits.induct)
  case (1 n)
  then show ?case by (subst hex_digits.simps) (simp add: hex_value_char)
qed

lemma fmt_X_inj: "fmt_X v = fmt_X w \<longleftrightarrow> v = w"
  unfolding fmt_X_def by (metis hex_digits_read word_unat_eq_iff)

lemma fmt_d_inj: "fmt_d v = fmt_d w \<longleftrightarrow> v = w"
  unfolding fmt_d_def by (metis digits_value_nat_digits option.inject word_unat_eq_iff)

lemmas setting_name_defs = GetSettingString_def setting_key_defs SETTINGS_MAX_FIELD_SECTION_SIZE_def
  WEBTRANSPORT_MAX_SESSIONS_DEPRECATED_def

lemma setting_names_differ: "GetSettingString k = GetSettingString k' \<Longrightarrow> k = k'"
  unfolding setting_name_defs by (simp add: fmt_X_inj split: if_split_asm)

section \<open>Every message has a line, and its type can be read off\<close>

text \<open>The first bracket of a line.\<close>

definition log_tag :: "u64 \<Rightarrow> string" where
  "log_tag mtype =
    (if mtype = SUBSCRIBE_OK then ''[SubscribeOK]''
     else if mtype = SUBSCRIBE_DONE then ''[SUBSCRIBE DONE]''
     else ''['' @ GetMoqMessageString mtype @ '']'')"

lemma log_tag_simps [simp]:
  "log_tag CLIENT_SETUP = ''[CLIENT_SETUP]''" "log_tag SERVER_SETUP = ''[SERVER_SETUP]''" "log_tag ANNOUNCE = ''[ANNOUNCE]''"
  "log_tag ANNOUNCE_OK = ''[ANNOUNCE_OK]''" "log_tag SUBSCRIBE = ''[SUBSCRIBE]''" "log_tag SUBSCRIBE_OK = ''[SubscribeOK]''"
  "log_tag UNSUBSCRIBE = ''[UNSUBSCRIBE]''" "log_tag SUBSCRIBE_DONE = ''[SUBSCRIBE DONE]''"
  by (simp_all add: log_tag_def GetMoqMessageString_def mtype_defs)

lemma message_name_simps [simp]:
  "GetMoqMessageString CLIENT_SETUP = ''CLIENT_SETUP''" "GetMoqMessageString SERVER_SETUP = ''SERVER_SETUP''"
  "GetMoqMessageString ANNOUNCE_OK = ''ANNOUNCE_OK''" "GetMoqMessageString SUBSCRIBE = ''SUBSCRIBE''"
  by (simp_all add: GetMoqMessageString_def mtype_defs)

lemma params_string_total: "Parameters_ok ps \<Longrightarrow> \<exists>s. params_string sep ps = Some s"
proof (induction ps)
  case (Cons kp ps)
  obtain k p where kp: "kp = (k, p)" by (cases kp)
  have "Parameters_ok ps" "Parameter_ok k p" using Cons.prems by (auto simp: Parameters_ok_def gomap_ok_def kp)
  then show ?case using Cons.IH
    by (cases p) (auto simp: kp IntParameter_String_def GetParamValueString_def GetRoleString_def)
qed simp

lemma TrimSuffix_prefix: "prefix p s \<Longrightarrow> p \<noteq> [] \<Longrightarrow> last p \<noteq> c \<Longrightarrow> prefix p (TrimSuffix s [c])"
  by (cases s rule: rev_cases) (auto simp: TrimSuffix_def suffix_def)

lemma message_line:
  assumes "message_ok m"
  shows "\<exists>s. MOQTMessage_String m = Some s \<and> prefix (log_tag (MOQTMessage_Type m)) s"
proof (cases m)
  case (MsgClientSetup cs)
  then obtain ps where "params_string '','' (csetup_Params cs) = Some ps" using assms params_string_total by auto
  then show ?thesis using MsgClientSetup
    by (auto simp: ClientSetup_String_def intro!: TrimSuffix_prefix prefix_prefix)
next
  case (MsgServerSetup cs)
  then obtain ps where "params_string '' '' (ssetup_Params cs) = Some ps" using assms params_string_total by auto
  then show ?thesis using MsgServerSetup by (auto simp: ServerSetup_String_def)
next
  case (MsgAnnounce a)
  then obtain ps where "params_string '' '' (ann_params a) = Some ps" using assms params_string_total by auto
  then show ?thesis using MsgAnnounce by (auto simp: Announce_String_def Parameters_String_def Let_def)
next
  case (MsgSubscribe s)
  then obtain ps where "params_string '' '' (sub_Params s) = Some ps" using assms params_string_total by auto
  then show ?thesis using MsgSubscribe by (auto simp: Subscribe_String_def Parameters_String_def Let_def)
qed (auto simp: AnnounceOk_String_def SubscribeOk_String_def Unsubcribe_String_def SubscribeDone_String_def
    Let_def)

text \<open>Tags of different types are not prefixes of one line.\<close>

lemma log_tag_prefix:
  assumes "prefix (log_tag (MOQTMessage_Type m)) s" and "prefix (log_tag (MOQTMessage_Type m')) s"
  shows "MOQTMessage_Type m = MOQTMessage_Type m'"
  using prefix_same_cases [OF assms] by (cases m; cases m'; simp)

section \<open>Properties\<close>

text \<open>Property C26 (messages can be logged). Whatever bytes arrive, each message that the dispatcher returns has a log line: its
  \<open>String\<close> method does not panic. Messages with the same line have the same type.\<close>

theorem parsed_messages_logged:
  assumes "varint_codec qv" and "ParseMOQTMessage qv r1 = Some (Inr m1, r1')" and "ParseMOQTMessage qv r2 = Some (Inr m2, r2')"
  shows "\<exists>s1 s2. MOQTMessage_String m1 = Some s1 \<and> MOQTMessage_String m2 = Some s2 \<and>
    (s1 = s2 \<longrightarrow> MOQTMessage_Type m1 = MOQTMessage_Type m2)"
proof -
  have "message_ok m1" "message_ok m2" using varint_codec.ParseMOQTMessage_ok [OF assms(1)] assms(2,3) by blast+
  then obtain s1 s2 where "MOQTMessage_String m1 = Some s1" "MOQTMessage_String m2 = Some s2"
    "prefix (log_tag (MOQTMessage_Type m1)) s1" "prefix (log_tag (MOQTMessage_Type m2)) s2" by (meson message_line)
  then show ?thesis using log_tag_prefix by blast
qed

theorem parsed_messages_logged_witness:
  "MOQTMessage_String (MsgUnsubcribe \<lparr>SubscriptionID = 7\<rparr>) = Some ''[UNSUBSCRIBE][ID - 7]'' \<and>
   (\<exists>s1 s2. MOQTMessage_String (MsgUnsubcribe \<lparr>SubscriptionID = 7\<rparr>) = Some s1 \<and> MOQTMessage_String (MsgSubscribe zero_Subscribe) = Some s2 \<and>
    (s1 = s2 \<longrightarrow> UNSUBSCRIBE = SUBSCRIBE))"
proof -
  have p1: "ParseMOQTMessage rfc9000 \<lparr>rd_data = [10, 7], rd_end = EOF\<rparr>
     = Some (Inr (MsgUnsubcribe \<lparr>SubscriptionID = 7\<rparr>), \<lparr>rd_data = [], rd_end = EOF\<rparr>)"
    by (simp add: ParseMOQTMessage_def rfc9000_eval mtype_defs parse_unchecked_def Unsubcribe_Parse_def varint_step_def zero_defs)
  have p2: "ParseMOQTMessage rfc9000 \<lparr>rd_data = [3], rd_end = EOF\<rparr>
     = Some (Inr (MsgSubscribe zero_Subscribe), \<lparr>rd_data = [], rd_end = EOF\<rparr>)"
    by (simp add: ParseMOQTMessage_def rfc9000_eval mtype_defs parse_unchecked_def Subscribe_Parse_def varint_step_def zero_defs)
  have "nat_digits 7 = ''7''" by (simp add: nat_digits.simps char_of_def bit_iff_odd)
  then have "MOQTMessage_String (MsgUnsubcribe \<lparr>SubscriptionID = 7\<rparr>) = Some ''[UNSUBSCRIBE][ID - 7]''"
    by (simp add: Unsubcribe_String_def fmt_d_def)
  then show ?thesis using parsed_messages_logged [OF rfc9000_codec p1 p2] by simp
qed

end
