(* ===== verification/Spec2Isabelle.thy ===== *)
theory Spec2Isabelle
  imports WT_Streams Media_Programs End_To_End Cond_Example Log_Strings
begin

text \<open>
  \<^bold>\<open>A verification of moq-quic\<close>

  The program is a Go implementation of Media over QUIC Transport (draft 4): a library with a relay, a publisher and a subscriber, over
  QUIC or over WebTransport, and example programs. This development models it and proves what makes it correct, and in some
  places shows where it is not.

  \<^bold>\<open>The program.\<close> A process has sessions (\<open>src/moqt/moqtsession.go\<close>), one per connection, which the listener
  (\<open>src/moqt/moqlistener.go\<close>) accepts and the dialer (\<open>src/moqt/moqtdialer.go\<close>) opens. A session has a control stream
  (\<open>src/moqt/controlstream.go\<close>) on which control messages (\<open>src/moqt/wire\<close>) are exchanged: first a handshake, then the messages that
  the handler of the session's role answers (\<open>relayhandler.go\<close>, \<open>pubhandler.go\<close>, \<open>subhandler.go\<close>). A publisher announces namespaces;
  the relay notes them in its session manager (\<open>sessionmanager.go\<close>) and tells the others; a subscriber asks for a track, the relay
  asks the publisher unless it receives the track already, and passes the answer on. Objects come on unidirectional
  streams of their own, one per group or one per track. The relay reads them into an array, caches them (\<open>relaystream.go\<close>) and pipes
  them to every subscriber from a goroutine each, with a condition variable between the writer and the readers. A client of the other
  transport is first upgraded by HTTP/3 frames (\<open>src/h3\<close>) to WebTransport (\<open>src/wt\<close>).

  \<^bold>\<open>The theories.\<close>

  \<^item> \<open>Go_Prelude\<close>: bytes, 64-bit words, errors, readers, Go maps, parsers as lists of steps, and the locale
    \<open>invariant_system\<close> of transition systems, which \<open>Pipe_Concurrency\<close>, \<open>Stream_Goroutines\<close>, \<open>Control_Stream\<close> and \<open>Cond_Example\<close> instantiate.
  \<^item> \<open>Quicvarint\<close>: the varint package of quic-go, which is not part of the sources, as a parameter \<open>qv\<close> of everything
    above it; the locale \<open>varint_codec\<close> states what RFC 9000 says of it, and is interpreted by an executable \<open>rfc9000\<close>.
  \<^item> \<open>Wire_Params\<close>, \<open>Wire_Messages\<close>, \<open>Wire_Progress\<close>: setup parameters and control messages, each with \<open>Parse\<close> and \<open>GetBytes\<close>, and the dispatcher
    \<open>ParseMOQTMessage\<close>. Round trips, for one message and for a sequence (locale \<open>wire_format\<close>), up to \<open>wire_view\<close>, what the
    parser makes of a message; that a parsed message is well formed and can be written again; that reading ends.
  \<^item> \<open>Wire_Streams\<close>: objects, group streams and track streams with header and objects; round trips; the receive loop ends.
  \<^item> \<open>Pipe_Concurrency\<close>: \<open>Pipe\<close> as a transition system with any interleaving (locale \<open>object_pipe\<close>, for group and for track streams): what
    is written is always a prefix; a pipe that waits at the close delivers everything; and two ways to lose objects.
  \<^item> \<open>Stream_Goroutines\<close>: the goroutines around one stream, as the transition system \<open>fan_step\<close>: the relay that starts one for every
    subscriber, waits for their headers, reads and caches the objects, and the subscribers' goroutines with every write error. It
    refines \<open>Pipe_Concurrency\<close>; every subscriber reads its own subscription and a prefix of the publisher's objects; the relay gets to the end
    of the stream; who is served completely. And the publisher's goroutine, which goes on after an error; \<open>pub_run\<close> are its runs without one.
  \<^item> \<open>Streams_Map\<close>: the table of streams of a handler, with its contract as the locale \<open>stream_table\<close>.
  \<^item> \<open>Relay_Cache\<close>: a relayed track and its cache: accounting, refinement to a window on the newest objects (locale
    \<open>recent_window\<close>), minimal eviction, replay to a new subscriber.
  \<^item> \<open>Session_State\<close>: the state of a process, \<open>world\<close>: sessions and relayed tracks under references (Go pointers), the session
    manager, the goroutines that were started; its invariant \<open>world_ok\<close>.
  \<^item> \<open>Relay_Handler\<close>, \<open>Pub_Sub_Handlers\<close>: the session manager and the handlers, branch by branch, that they keep the invariant and
    do not panic in it, and what they answer to whom.
  \<^item> \<open>Control_Stream\<close>: sessions, handshake, dispatch, closing, and the process as the transition system \<open>moq_step\<close>: its
    invariant; that a control stream carries messages as they were written; that a relay survives every message and every sequence of
    bytes; that compatible peers finish the handshake, and no session finishes it twice.
  \<^item> \<open>H3_Frames\<close>, \<open>H3_Requests\<close>: HTTP/3 frames, requests and responses; the QPACK package is a parameter \<open>qp\<close> with the law of
    the locale \<open>h3_codec\<close>, interpreted by literal encoding; \<open>url.ParseRequestURI\<close> is the argument \<open>parse_uri\<close>.
  \<^item> \<open>Web_Transport\<close>, \<open>WT_Streams\<close>: stream headers, the upgrade, and the streams of a session; the two goroutines around a session's
    channel as the transition system \<open>uni_step\<close>, which refines the loop of \<open>ProcesUniStreams\<close>.
  \<^item> \<open>Endpoints\<close>: listener, dialer, and \<open>Connect\<close> and \<open>Run\<close> of the application interface. The listener serves every
    connection, unless an upgrade does not return; a dialer gets its session.
  \<^item> \<open>App_Interface\<close>: the callbacks of applications (\<open>src/moqt/api\<close>), the goroutines that call them, the options of the example
    programs with the relay's, and their \<open>main\<close> functions. The relay's program serves all the others.
  \<^item> \<open>Reorder_Buffer\<close>, \<open>Media_Apps\<close>, \<open>Media_Programs\<close>: the stream handlers of the example programs (\<open>src/examples\<close>), and
    what holds from end to end when the groups are carried to their ends by the goroutines of \<open>Stream_Goroutines\<close> (\<open>carried\<close>): the subscriber
    of a media stream writes the publisher's input in order and without a change, with gaps at the ends of groups at most, because the goroutines can lose
    the last objects of a group; and a file subscriber counts exactly what has come.
  \<^item> \<open>End_To_End\<close>: three processes; an announcement, a subscription with its answer, and, as long as no write fails, the objects of a group,
    from end to end.
  \<^item> \<open>Cond_Example\<close>: the experiment of \<open>src/examples/test\<close> with a condition variable.
  \<^item> \<open>Log_Strings\<close>: the text of log lines; no message from the network panics in it.

  \<^bold>\<open>How the model relates to the code.\<close> Structs are records, interfaces datatypes, integers words of their width. A result \<^const>\<open>None\<close> is
  a panic, or a call that does not return where the text says so; an error is \<^const>\<open>Inl\<close>. Pointers to sessions and relayed tracks are
  references into \<open>world\<close>. Channels record what was sent on them. Random numbers, IDs, the results of opening streams and what
  the network delivers are arguments. A goroutine is a task in \<open>w_tasks\<close>, and a step of the process runs it.

  \<^bold>\<open>Fuel and bounds.\<close> The loops that read objects or messages from a stream have fuel, one more than the bytes left: each round takes a byte at
  least, and \<open>receive_loop_terminates\<close> and \<open>relay_serves_any_bytes\<close> show that this is enough. The loop over the settings of a frame
  may run for ever and is a \<open>partial_function\<close>. \<open>maxAlloc\<close> is the largest allocation of the Go runtime, beyond which \<open>make\<close> panics.

  \<^bold>\<open>Not modelled.\<close> Parsing of flags and set-up of the logger in the \<open>main\<close> functions; what TLS and the QUIC endpoint do, beyond the errors they
  return and the choice of the protocol; whether a control message that was handed to \<open>Write\<close> arrives, since the code only logs that error;
  data races on shared maps, which are listed as findings; timers and pauses.

  \<^bold>\<open>Plan.\<close> Control messages and streams of one track in one system, so that subscribers come and go while a stream is forwarded. Here a
  stream's subscribers are those of the relay when \<open>ForwardStream\<close> reads its list, and each goroutine finds its subscription in a state of its own.
\<close>

end
